(* ===== verification/Prelude.thy ===== *)
theory Prelude
  imports Main "HOL-Library.Word" "HOL-Library.Multiset"
begin

text \<open>
  Shared vocabulary of the development: the outcome of a fallible Go function, the bounds of
  the machine integers the money amounts live in, in-place list updates and the generic
  lemmas the component theories rely on.

  A Go function with an error result returns \<open>Ok v\<close> or \<open>Fail e\<close>. A loop with no bound in the
  source may also never return: that is \<open>Hang\<close>, so that "the code returns" is something a
  theorem has to prove.
\<close>

datatype ('e, 'a) res = Ok 'a | Fail 'e | Hang

named_theorems res_simps "rules that take a successful call apart"

fun bindr :: "('e, 'a) res \<Rightarrow> ('a \<Rightarrow> ('e, 'b) res) \<Rightarrow> ('e, 'b) res" where
  "bindr (Ok x) f = f x"
| "bindr (Fail e) f = Fail e"
| "bindr Hang f = Hang"

definition guardr :: "bool \<Rightarrow> 'e \<Rightarrow> ('e, unit) res" where
  "guardr b e = (if b then Ok () else Fail e)"

lemma bindr_Ok_iff [res_simps]:
  "bindr r f = Ok y \<longleftrightarrow> (\<exists>x. r = Ok x \<and> f x = Ok y)"
  by (cases r) auto

lemma bindr_Hang_iff: "bindr r f = Hang \<longleftrightarrow> r = Hang \<or> (\<exists>x. r = Ok x \<and> f x = Hang)"
  by (cases r) auto

lemma bindr_cong [fundef_cong]:
  "r = r' \<Longrightarrow> (\<And>x. r' = Ok x \<Longrightarrow> f x = g x) \<Longrightarrow> bindr r f = bindr r' g"
  by (cases r') auto

lemma guardr_Ok_iff [res_simps]: "guardr b e = Ok u \<longleftrightarrow> b"
  by (simp add: guardr_def)

lemma guardr_not_Hang [simp]: "guardr b e \<noteq> Hang"
  by (simp add: guardr_def)

subsection \<open>Machine integers\<close>

text \<open>
  Go's \<open>int64\<close> amounts are modelled as \<open>int\<close>; the overflow tests of the source are written
  with these bounds, and theorems state where the mathematical value stays inside them.
\<close>

abbreviation max_int64 :: int where "max_int64 \<equiv> 9223372036854775807"

abbreviation min_int64 :: int where "min_int64 \<equiv> - 9223372036854775808"

definition in_int64 :: "int \<Rightarrow> bool" where
  "in_int64 x \<longleftrightarrow> min_int64 \<le> x \<and> x \<le> max_int64"

text \<open>The wallet's atomic units: one Chip, or one Credit, is 500000 units in every package.\<close>

definition units_per_chip :: int where "units_per_chip = 500000"

lemma units_per_chip_pos [simp]: "0 < units_per_chip" "units_per_chip \<noteq> 0"
  by (simp_all add: units_per_chip_def)

subsection \<open>Lists\<close>

text \<open>Writing through a pointer to the first element that satisfies a test.\<close>

fun upd_first :: "('a \<Rightarrow> bool) \<Rightarrow> ('a \<Rightarrow> 'a) \<Rightarrow> 'a list \<Rightarrow> 'a list" where
  "upd_first P f [] = []"
| "upd_first P f (x # xs) = (if P x then f x # xs else x # upd_first P f xs)"

lemma length_upd_first [simp]: "length (upd_first P f xs) = length xs"
  by (induction xs) auto

lemma map_upd_first:
  "(\<And>x. g (f x) = g x) \<Longrightarrow> map g (upd_first P f xs) = map g xs"
  by (induction xs) auto

lemma upd_first_none: "\<forall>x\<in>set xs. \<not> P x \<Longrightarrow> upd_first P f xs = xs"
  by (induction xs) auto

lemma set_upd_first: "set (upd_first P f xs) \<subseteq> set xs \<union> f ` set xs"
  by (induction xs) auto

lemma sum_list_upd_first:
  fixes g :: "'a \<Rightarrow> 'b::ab_group_add"
  assumes "find P xs = Some x"
  shows "sum_list (map g (upd_first P f xs)) = sum_list (map g xs) + (g (f x) - g x)"
  using assms by (induction xs) (auto split: if_splits simp: algebra_simps)

lemma upd_first_member: "y \<in> set (upd_first P f xs) \<Longrightarrow> y \<in> set xs \<or> (\<exists>x\<in>set xs. P x \<and> y = f x)"
  by (induction xs) (auto split: if_splits)

lemma map_list_update_same: "f x = f (xs ! i) \<Longrightarrow> map f (xs[i := x]) = map f xs"
  by (cases "i < length xs") (simp_all add: map_update list_update_same_conv list_update_beyond)

lemma find_Some_mem: "find P xs = Some x \<Longrightarrow> x \<in> set xs \<and> P x"
  by (auto simp: find_Some_iff in_set_conv_nth)

lemma find_None_all: "find P xs = None \<longleftrightarrow> (\<forall>x\<in>set xs. \<not> P x)"
  by (auto simp: find_None_iff)

text \<open>Exchanging two cells of a slice: \<open>v[i], v[j] = v[j], v[i]\<close>.\<close>

definition swap :: "'a list \<Rightarrow> nat \<Rightarrow> nat \<Rightarrow> 'a list" where
  "swap xs i j = xs[i := xs ! j, j := xs ! i]"

lemma length_swap [simp]: "length (swap xs i j) = length xs"
  by (simp add: swap_def)

lemma mset_swap_cells [simp]:
  "i < length xs \<Longrightarrow> j < length xs \<Longrightarrow> mset (swap xs i j) = mset xs"
  by (auto simp: swap_def mset_update nth_list_update)

text \<open>\<open>sort.Slice\<close> with a strict order: insertion by the comparison the source passes.\<close>

fun insert_by :: "('a \<Rightarrow> 'a \<Rightarrow> bool) \<Rightarrow> 'a \<Rightarrow> 'a list \<Rightarrow> 'a list" where
  "insert_by lt x [] = [x]"
| "insert_by lt x (y # ys) = (if lt y x then y # insert_by lt x ys else x # y # ys)"

definition sort_by :: "('a \<Rightarrow> 'a \<Rightarrow> bool) \<Rightarrow> 'a list \<Rightarrow> 'a list" where
  "sort_by lt xs = foldr (insert_by lt) xs []"

lemma mset_insert_by [simp]: "mset (insert_by lt x ys) = add_mset x (mset ys)"
  by (induction ys) auto

lemma mset_sort_by [simp]: "mset (sort_by lt xs) = mset xs"
  unfolding sort_by_def by (induction xs) auto

lemma set_sort_by [simp]: "set (sort_by lt xs) = set xs"
  by (rule mset_eq_setD) simp

lemma length_sort_by [simp]: "length (sort_by lt xs) = length xs"
  by (rule mset_eq_length) simp

lemma distinct_sort_by [simp]: "distinct (sort_by lt xs) = distinct xs"
  by (rule mset_eq_imp_distinct_iff) simp

text \<open>The strict orders the source sorts by: asymmetric and negatively transitive.\<close>

locale strict_order =
  fixes lt :: "'a \<Rightarrow> 'a \<Rightarrow> bool"
  assumes asym: "lt x y \<Longrightarrow> \<not> lt y x"
    and neg_trans: "\<not> lt x y \<Longrightarrow> \<not> lt y z \<Longrightarrow> \<not> lt x z"
begin

lemma sorted_insert_by:
  "sorted_wrt (\<lambda>a b. \<not> lt b a) ys \<Longrightarrow> sorted_wrt (\<lambda>a b. \<not> lt b a) (insert_by lt x ys)"
proof (induction ys)
  case Nil
  then show ?case by simp
next
  case (Cons y ys)
  have set_ins: "set (insert_by lt x ys) = insert x (set ys)"
    by (metis mset_insert_by set_mset_add_mset_insert set_mset_mset)
  show ?case
  proof (cases "lt y x")
    case True
    then show ?thesis using Cons asym by (auto simp: set_ins)
  next
    case False
    then show ?thesis using Cons.prems by (auto dest: neg_trans[OF _ False])
  qed
qed

lemma sorted_sort_by: "sorted_wrt (\<lambda>a b. \<not> lt b a) (sort_by lt xs)"
  unfolding sort_by_def by (induction xs) (auto intro: sorted_insert_by)

end

subsection \<open>Decimal numerals\<close>

fun dec_digits :: "nat \<Rightarrow> nat list" where
  "dec_digits n = (if n < 10 then [n] else dec_digits (n div 10) @ [n mod 10])"

declare dec_digits.simps [simp del]

definition dec_string :: "nat \<Rightarrow> string" where
  "dec_string n = map (\<lambda>d. char_of (48 + d)) (dec_digits n)"

type_synonym byte = "8 word"

text \<open>\<open>hex.EncodeToString\<close>, and \<open>%x\<close> of a byte slice.\<close>

definition hex_digit :: "nat \<Rightarrow> char" where
  "hex_digit n = (''0123456789abcdef'' ! n)"

definition hex_encode :: "byte list \<Rightarrow> string" where
  "hex_encode bs = concat (map (\<lambda>b. [hex_digit (unat b div 16), hex_digit (unat b mod 16)]) bs)"

subsection \<open>Big-endian byte strings\<close>

fun be_bytes :: "nat \<Rightarrow> nat \<Rightarrow> byte list" where
  "be_bytes 0 n = []"
| "be_bytes (Suc k) n = word_of_nat (n div 256 ^ k) # be_bytes k n"

definition be_val :: "byte list \<Rightarrow> nat" where
  "be_val bs = foldl (\<lambda>a b. a * 256 + unat b) 0 bs"

lemma length_be_bytes [simp]: "length (be_bytes k n) = k"
  by (induction k) auto

lemma be_val_acc:
  "foldl (\<lambda>a b. a * 256 + unat (b :: byte)) a bs = a * 256 ^ length bs + be_val bs"
  unfolding be_val_def
proof (induction bs arbitrary: a)
  case Nil
  then show ?case by simp
next
  case (Cons b bs)
  show ?case using Cons[of "a * 256 + unat b"] Cons[of "unat b"]
    by (simp add: algebra_simps)
qed

lemma be_val_Cons: "be_val (b # bs) = unat b * 256 ^ length bs + be_val bs"
proof -
  have "be_val (b # bs) = foldl (\<lambda>a b. a * 256 + unat b) (unat b) bs"
    by (simp add: be_val_def)
  then show ?thesis by (simp only: be_val_acc)
qed

lemma be_val_be_bytes: "be_val (be_bytes k n) = n mod 256 ^ k"
proof (induction k)
  case 0
  then show ?case by (simp add: be_val_def)
next
  case (Suc k)
  have "unat (word_of_nat (n div 256 ^ k) :: byte) = n div 256 ^ k mod 256"
    by (simp add: unat_of_nat)
  then have "be_val (be_bytes (Suc k) n) = n div 256 ^ k mod 256 * 256 ^ k + n mod 256 ^ k"
    using Suc by (simp add: be_val_Cons)
  also have "\<dots> = n mod 256 ^ Suc k"
    using mod_mult2_eq [of n "256 ^ k" 256] by (simp add: mult.commute)
  finally show ?case .
qed

lemma be_bytes_inject:
  "n < 256 ^ k \<Longrightarrow> m < 256 ^ k \<Longrightarrow> be_bytes k n = be_bytes k m \<longleftrightarrow> n = m"
  by (metis be_val_be_bytes mod_less)

lemma be_val_less: "be_val bs < 256 ^ length bs"
proof (induction bs)
  case Nil
  then show ?case by (simp add: be_val_def)
next
  case (Cons b bs)
  have "unat b < 256" using unsigned_less [of b, where ?'a = nat] by simp
  then have "unat b * 256 ^ length bs + be_val bs < (unat b + 1) * 256 ^ length bs"
    using Cons by (simp add: algebra_simps)
  also have "\<dots> \<le> 256 * 256 ^ length bs"
    using \<open>unat b < 256\<close> by (intro mult_le_mono1) simp
  finally show ?case by (simp add: be_val_Cons)
qed

end
