(* ===== verification/PokerRank.thy ===== *)
theory PokerRank
  imports Prelude
begin

text \<open>
  \<open>internal/poker/engine/evaluate.go\<close> and the button rules of \<open>rules.go\<close>: the ranking of five
  cards, the choice of the best five of seven, and the seat order of the dealer button.
\<close>

datatype poker_error =
    ErrInvalid | ErrIllegal | ErrStale | ErrConflict | ErrDeadline | ErrRecovering
  | ErrEvaluate | ErrSample

type_synonym card = nat

record hand_rank =
  hr_category :: string
  hr_vector :: "int list"
  hr_best_five :: "int list"
  hr_version :: string

type_synonym evaluator = "card \<times> card \<Rightarrow> card list \<Rightarrow> string \<Rightarrow> (poker_error, hand_rank) res"

definition evaluator_version_v1 :: string where
  "evaluator_version_v1 = ''poker-holdem-high-v1''"

subsection \<open>Ranking five cards\<close>

definition card_rank :: "card \<Rightarrow> int" where
  "card_rank c = (let r = int (c mod 13) + 1 in if r = 1 then 14 else r)"

definition rank_count :: "card list \<Rightarrow> int \<Rightarrow> nat" where
  "rank_count cards r = length (filter (\<lambda>c. card_rank c = r) cards)"

definition ranks_down :: "int list" where
  "ranks_down = [14, 13, 12, 11, 10, 9, 8, 7, 6, 5, 4, 3, 2]"

definition is_flush :: "card list \<Rightarrow> bool" where
  "is_flush cards = list_all (\<lambda>c. c div 13 = hd cards div 13) cards"

definition straight_at :: "card list \<Rightarrow> int \<Rightarrow> bool" where
  "straight_at cards high =
     list_all (\<lambda>d. let r = high - d; r = (if r = 1 then 14 else r) in rank_count cards r \<noteq> 0)
       [0, 1, 2, 3, 4]"

definition straight_high :: "card list \<Rightarrow> int" where
  "straight_high cards =
     (case find (straight_at cards) [14, 13, 12, 11, 10, 9, 8, 7, 6, 5] of None \<Rightarrow> 0 | Some h \<Rightarrow> h)"

definition group_before :: "int \<times> nat \<Rightarrow> int \<times> nat \<Rightarrow> bool" where
  "group_before a b = (if snd a \<noteq> snd b then snd a > snd b else fst a > fst b)"

definition rank_groups :: "card list \<Rightarrow> (int \<times> nat) list" where
  "rank_groups cards =
     sort_by group_before
       (map (\<lambda>r. (r, rank_count cards r)) (filter (\<lambda>r. rank_count cards r > 0) ranks_down))"

text \<open>\<open>rank\<close>: the category first, then the ranks that break ties.\<close>

definition rank_five :: "card list \<Rightarrow> int list" where
  "rank_five cards =
     (let values = concat (map (\<lambda>r. replicate (rank_count cards r) r) ranks_down);
          flush = is_flush cards;
          straight = straight_high cards;
          groups = rank_groups cards;
          c0 = snd (groups ! 0)
      in if flush \<and> straight > 0 then [8, straight]
         else if c0 = 4 then [7, fst (groups ! 0), fst (groups ! 1)]
         else if c0 = 3 \<and> snd (groups ! 1) = 2 then [6, fst (groups ! 0), fst (groups ! 1)]
         else if flush then 5 # values
         else if straight > 0 then [4, straight]
         else (if c0 = 3 then 3
               else if c0 = 2 \<and> snd (groups ! 1) = 2 then 2
               else if c0 = 2 then 1 else 0) # map fst groups)"

text \<open>\<open>compare\<close> walks the first vector. It is only called on two rank vectors, whose lengths
  agree when their categories do (lemma \<open>rank_five_hd_length\<close> of
  \<open>PokerRankFacts\<close>).\<close>

fun compare_vec :: "int list \<Rightarrow> int list \<Rightarrow> int" where
  "compare_vec (a # as) (b # bs) =
     (if a > b then 1 else if a < b then -1 else compare_vec as bs)"
| "compare_vec _ _ = 0"

subsection \<open>The best five of seven\<close>

definition five_of_seven :: "nat list list" where
  "five_of_seven =
     concat (map (\<lambda>a. concat (map (\<lambda>b. concat (map (\<lambda>c. concat (map (\<lambda>d. map (\<lambda>e. [a, b, c, d, e])
       [d + 1..<7]) [c + 1..<6])) [b + 1..<5])) [a + 1..<4])) [0..<3])"

definition pick :: "'a list \<Rightarrow> nat list \<Rightarrow> 'a list" where
  "pick xs idx = map (\<lambda>i. xs ! i) idx"

definition better_five ::
  "card list \<Rightarrow> (int list \<times> nat list) option \<Rightarrow> nat list \<Rightarrow> (int list \<times> nat list) option" where
  "better_five cards best idx =
     (let v = rank_five (pick cards idx) in
      case best of None \<Rightarrow> Some (v, idx)
      | Some (w, _) \<Rightarrow> if compare_vec v w > 0 then Some (v, idx) else best)"

definition categories :: "string list" where
  "categories = [''HIGH_CARD'', ''PAIR'', ''TWO_PAIR'', ''THREE_OF_A_KIND'', ''STRAIGHT'', ''FLUSH'',
     ''FULL_HOUSE'', ''FOUR_OF_A_KIND'', ''STRAIGHT_FLUSH'']"

definition evaluate_hand :: evaluator where
  "evaluate_hand hole board version =
     (if version \<noteq> evaluator_version_v1 \<or> length board \<noteq> 5 then Fail ErrEvaluate
      else let cards = fst hole # snd hole # board in
        if \<not> list_all (\<lambda>c. c < 52) cards \<or> \<not> distinct cards then Fail ErrEvaluate
        else case foldl (better_five cards) None five_of_seven of
               None \<Rightarrow> Fail ErrEvaluate
             | Some (v, idx) \<Rightarrow>
                 Ok \<lparr>hr_category = categories ! nat (v ! 0), hr_vector = v,
                     hr_best_five = map int idx, hr_version = version\<rparr>)"

subsection \<open>The dealer button\<close>

definition button_selection_version :: string where
  "button_selection_version = ''poker-initial-button-v1''"

record button_choice =
  bc_version :: string
  bc_eligible :: "int list"
  bc_draw :: int
  bc_seat :: int

definition ordered_seats :: "int list \<Rightarrow> (poker_error, int list) res" where
  "ordered_seats seats =
     (if length seats < 2 \<or> length seats > 9 then Fail ErrInvalid
      else let out = sort seats in
        if list_all (\<lambda>s. 1 \<le> s \<and> s \<le> 9) out \<and> distinct out then Ok out else Fail ErrInvalid)"

definition select_initial_button ::
  "int list \<Rightarrow> (int \<Rightarrow> (poker_error, int) res) \<Rightarrow> (poker_error, button_choice) res" where
  "select_initial_button seats uniform =
     bindr (ordered_seats seats) (\<lambda>ordered.
     bindr (uniform (int (length ordered))) (\<lambda>i.
       if i < 0 \<or> i \<ge> int (length ordered) then Fail ErrInvalid
       else Ok \<lparr>bc_version = button_selection_version, bc_eligible = ordered, bc_draw = i,
                bc_seat = ordered ! nat i\<rparr>))"

definition next_button :: "int \<Rightarrow> int list \<Rightarrow> (poker_error, int) res" where
  "next_button previous seats =
     bindr (ordered_seats seats) (\<lambda>ordered.
       if previous < 1 \<or> previous > 9 then Fail ErrInvalid
       else case find (\<lambda>s. s > previous) ordered of Some s \<Rightarrow> Ok s | None \<Rightarrow> Ok (ordered ! 0))"

definition validate_button_choice :: "button_choice \<Rightarrow> int list \<Rightarrow> (poker_error, unit) res" where
  "validate_button_choice choice seats =
     (if bc_version choice \<noteq> button_selection_version \<or> length (bc_eligible choice) \<noteq> length seats
          \<or> bc_draw choice < 0 \<or> bc_draw choice \<ge> int (length seats) then Fail ErrInvalid
      else if bc_eligible choice \<noteq> seats then Fail ErrInvalid
      else if bc_seat choice \<noteq> seats ! nat (bc_draw choice) then Fail ErrInvalid
      else Ok ())"

end
