(* ===== verification/PokerState.thy ===== *)
theory PokerState
  imports PokerRank
begin

text \<open>
  \<open>internal/poker/engine/engine.go\<close>, data and single steps: the records of a hand, reading and
  writing seats, committing chips, events, dealing, the actor, the legal actions, shortcuts
  and the change of street.

  Instants are nanoseconds since the zero \<open>time.Time\<close>, so \<open>IsZero\<close> is 0. Chip amounts are
  \<open>int\<close>. Writing through the pointer \<open>s.player(seat)\<close> is \<open>upd_player\<close>.
\<close>

definition decision_window :: int where "decision_window = 30000000000"

definition max_whole_units :: int where
  "max_whole_units = max_int64 div units_per_chip * units_per_chip"

definition whole_units :: "int \<Rightarrow> bool" where
  "whole_units amount \<longleftrightarrow> amount \<ge> 0 \<and> amount mod units_per_chip = 0"

datatype action_kind = Fold | Check | Call | Bet | Raise | AllIn | OtherKind string

datatype street = Preflop | Flop | Turn | River | Settled | OtherStreet string

record config =
  hand_id :: string
  button_seat :: int
  small_blind :: int
  big_blind :: int
  frozen_deck :: "card list"
  evaluator_version :: string
  button_selection :: "button_choice option"

record seat =
  seat_no :: int
  player_id :: string
  stack :: int
  consecutive_timeouts :: int
  timeout_sit_out :: bool

record participant = seat +
  initial_stack :: int
  hole :: "card \<times> card"
  street_committed :: int
  total_committed :: int
  folded :: bool
  last_acted_full_raise :: int
  pending :: bool
  disconnected_since :: "int option"
  disconnect_sit_out :: bool

record action =
  act_id :: string
  act_seat :: int
  expected_version :: nat
  act_kind :: action_kind
  act_to :: int

record legal =
  lg_actions :: "action_kind list"
  lg_seat :: int
  lg_to_call :: int
  lg_minimum_bet :: int
  lg_minimum_raise_to :: int
  lg_maximum_raise_to :: int
  lg_current_pot :: int
  lg_current_stack :: int
  lg_raise_rights :: bool

text \<open>The strings of \<open>Event.Type\<close> the engine emits; \<open>OtherEvent\<close> is any other.\<close>

datatype event_type =
    HandCommitted | PostSB | PostBB | Acted action_kind | AutoActed action_kind | ActorChanged
  | CardDealt | AllInRunout | DealStreet street | ReturnUncalled | Showdown | PotAward
  | SystemSettlement | Disconnected | Reconnected | Recovering | Resumed | OtherEvent string

datatype visibility = NoVisibility | Private | Public | OtherVisibility string

record event =
  ev_sequence :: nat
  ev_version :: nat
  ev_type :: event_type
  ev_street :: street
  ev_seat :: int
  ev_delta :: int
  ev_to :: int
  ev_action_id :: string
  ev_deck_index :: "nat option"
  ev_card :: "card option"
  ev_visibility :: visibility
  ev_at :: int

record award =
  aw_seat :: int
  aw_base :: int
  aw_odd :: int
  aw_amount :: int

record pot =
  pot_index :: nat
  pot_amount :: int
  pot_floor :: int
  pot_ceiling :: int
  pot_eligible :: "int list"
  pot_awards :: "award list"

record chip_return =
  rt_seat :: int
  rt_amount :: int

record receipt =
  rc_action :: action
  rc_first :: nat
  rc_last :: nat

record state =
  schema_version :: int
  cfg :: config
  players :: "participant list"
  initial_total :: int
  street :: street
  board :: "card list"
  deck_cursor :: nat
  sb_seat :: int
  bb_seat :: int
  actor :: int
  current_bet :: int
  last_full_raise :: int
  full_raise_seq :: int
  version :: nat
  action_seq :: nat
  started_at :: int
  deadline :: int
  recovery_until :: "int option"
  pots :: "pot list"
  returns :: "chip_return list"
  ranks :: "(int \<times> hand_rank) list"
  events :: "event list"
  receipts :: "receipt list"

record result =
  rs_version :: nat
  rs_events :: "event list"
  rs_duplicate :: bool
  rs_noop :: bool

subsection \<open>Reading and writing seats\<close>

definition player :: "state \<Rightarrow> int \<Rightarrow> participant option" where
  "player s seat = find (\<lambda>p. seat_no p = seat) (players s)"

definition upd_player :: "int \<Rightarrow> (participant \<Rightarrow> participant) \<Rightarrow> state \<Rightarrow> state" where
  "upd_player seat f s = s\<lparr>players := upd_first (\<lambda>p. seat_no p = seat) f (players s)\<rparr>"

definition seats :: "state \<Rightarrow> int list" where
  "seats s = map seat_no (players s)"

definition next_seat :: "state \<Rightarrow> int \<Rightarrow> (participant \<Rightarrow> bool) \<Rightarrow> int" where
  "next_seat s after eligible =
     (case find (\<lambda>p. seat_no p > after \<and> eligible p) (players s) of
        Some p \<Rightarrow> seat_no p
      | None \<Rightarrow> (case find eligible (players s) of Some p \<Rightarrow> seat_no p | None \<Rightarrow> 0))"

subsection \<open>Chips and events\<close>

definition commit :: "participant \<Rightarrow> int \<Rightarrow> participant" where
  "commit p delta =
     (let p = p\<lparr>stack := stack p - delta, street_committed := street_committed p + delta,
                total_committed := total_committed p + delta\<rparr>
      in if stack p = 0 then p\<lparr>pending := False\<rparr> else p)"

definition event_of :: "event_type \<Rightarrow> event" where
  "event_of t = \<lparr>ev_sequence = 0, ev_version = 0, ev_type = t, ev_street = OtherStreet '''',
     ev_seat = 0, ev_delta = 0, ev_to = 0, ev_action_id = '''', ev_deck_index = None,
     ev_card = None, ev_visibility = NoVisibility, ev_at = 0\<rparr>"

definition emit :: "event \<Rightarrow> int \<Rightarrow> state \<Rightarrow> state" where
  "emit e now s =
     s\<lparr>version := version s + 1,
       events := events s @ [e\<lparr>ev_sequence := length (events s) + 1, ev_version := version s + 1,
                               ev_street := street s, ev_at := now\<rparr>]\<rparr>"

definition set_actor :: "int \<Rightarrow> int \<Rightarrow> state \<Rightarrow> state" where
  "set_actor seat now s =
     emit ((event_of ActorChanged)\<lparr>ev_seat := seat\<rparr>) now
       (s\<lparr>actor := seat, action_seq := action_seq s + 1, started_at := now,
          deadline := now + decision_window\<rparr>)"

text \<open>\<open>deal\<close> indexes the frozen deck at the cursor; lemma \<open>deal_in_deck\<close> of the facts theory
  keeps the cursor inside it.\<close>

definition deal :: "int \<Rightarrow> visibility \<Rightarrow> int \<Rightarrow> state \<Rightarrow> card \<times> state" where
  "deal seat vis now s =
     (let index = deck_cursor s; card = frozen_deck (cfg s) ! index in
      (card, emit ((event_of CardDealt)\<lparr>ev_seat := seat, ev_deck_index := Some index,
                     ev_card := Some card, ev_visibility := vis\<rparr>) now
               (s\<lparr>deck_cursor := index + 1\<rparr>)))"

subsection \<open>Legal actions and shortcuts\<close>

definition add_cap :: "int \<Rightarrow> int \<Rightarrow> int" where
  "add_cap a b = (if a > max_whole_units - b then max_whole_units else a + b)"

definition current_pot :: "state \<Rightarrow> int" where
  "current_pot s = sum_list (map total_committed (players s))"

definition legal_actions :: "state \<Rightarrow> legal" where
  "legal_actions s =
     (let l = \<lparr>lg_actions = [], lg_seat = actor s, lg_to_call = 0, lg_minimum_bet = big_blind (cfg s),
               lg_minimum_raise_to = 0, lg_maximum_raise_to = 0, lg_current_pot = current_pot s,
               lg_current_stack = 0, lg_raise_rights = False\<rparr>
      in case player s (actor s) of
           None \<Rightarrow> l
         | Some p \<Rightarrow>
             if street s = Settled \<or> recovery_until s \<noteq> None then l
             else
               let to_call = max 0 (current_bet s - street_committed p);
                   max_to = stack p + street_committed p;
                   min_to = add_cap (current_bet s) (last_full_raise s);
                   opponent = list_ex (\<lambda>q. seat_no q \<noteq> seat_no p \<and> \<not> folded q \<and> stack q > 0) (players s);
                   rights = last_acted_full_raise p < full_raise_seq s \<and> opponent \<and> max_to > current_bet s
               in l\<lparr>lg_to_call := to_call, lg_current_stack := stack p, lg_maximum_raise_to := max_to,
                    lg_minimum_raise_to := min_to, lg_raise_rights := rights,
                    lg_actions :=
                      [Fold] @ (if to_call = 0 then [Check] else [Call]) @
                      (if rights then
                         if current_bet s = 0 \<and> max_to \<ge> big_blind (cfg s) then [Bet]
                         else if current_bet s > 0 \<and> max_to \<ge> min_to then [Raise] else []
                       else []) @
                      (if stack p > 0 \<and> (max_to \<le> current_bet s \<or> rights) then [AllIn] else [])\<rparr>)"

record shortcut =
  sc_name :: string
  sc_kind :: action_kind
  sc_to :: int

definition shortcut_target :: "legal \<Rightarrow> int \<Rightarrow> action_kind \<Rightarrow> string \<Rightarrow> int \<Rightarrow> shortcut" where
  "shortcut_target l minimum kind name target =
     (let target = min (max target minimum) (lg_maximum_raise_to l);
          k = (if target < minimum \<or> target = lg_maximum_raise_to l then AllIn else kind)
      in \<lparr>sc_name = name, sc_kind = k, sc_to = target\<rparr>)"

text \<open>The pot fractions divide before they multiply; the dividends are nonnegative, where Go's
  truncating division and \<open>div\<close> agree.\<close>

definition pot_portion :: "int \<Rightarrow> int \<Rightarrow> int \<Rightarrow> int" where
  "pot_portion pot n d = pot div d * n + (pot mod d) * n div d"

definition shortcut_targets :: "state \<Rightarrow> shortcut list" where
  "shortcut_targets s =
     (let l = legal_actions s in
      if \<not> lg_raise_rights l then []
      else
        let minimum = (if current_bet s = 0 then lg_minimum_bet l else lg_minimum_raise_to l);
            kind = (if current_bet s = 0 then Bet else Raise);
            pot_chips = add_cap (lg_current_pot l) (lg_to_call l) div units_per_chip;
            fraction = (\<lambda>(name, n, d). shortcut_target l minimum kind name
                         (add_cap (current_bet s) (pot_portion pot_chips n d * units_per_chip)))
        in [shortcut_target l minimum kind ''Min'' minimum] @
           map fraction [(''1/2 Pot'', 1, 2), (''2/3 Pot'', 2, 3), (''Pot'', 1, 1)] @
           [\<lparr>sc_name = ''All-in'', sc_kind = AllIn, sc_to = lg_maximum_raise_to l\<rparr>])"

subsection \<open>The next street\<close>

fun deal_board :: "nat \<Rightarrow> int \<Rightarrow> state \<Rightarrow> state" where
  "deal_board 0 now s = s"
| "deal_board (Suc n) now s =
     (let (c, s) = deal 0 Public now s in deal_board n now (s\<lparr>board := board s @ [c]\<rparr>))"

fun street_after :: "street \<Rightarrow> street \<times> nat" where
  "street_after Preflop = (Flop, 3)"
| "street_after Flop = (Turn, 1)"
| "street_after Turn = (River, 1)"
| "street_after s = (s, 1)"

definition fresh_street :: "participant \<Rightarrow> participant" where
  "fresh_street p = p\<lparr>street_committed := 0, last_acted_full_raise := -1,
     pending := (\<not> folded p \<and> stack p > 0)\<rparr>"

definition next_street :: "int \<Rightarrow> state \<Rightarrow> state" where
  "next_street now s =
     (let (st, count) = street_after (street s);
          s = s\<lparr>street := st, current_bet := 0, last_full_raise := big_blind (cfg s),
                full_raise_seq := 0, players := map fresh_street (players s)\<rparr>
      in deal_board count now (emit (event_of (DealStreet st)) now s))"

end
