(* ===== verification/PokerEngine.thy ===== *)
theory PokerEngine
  imports PokerState
begin

text \<open>
  \<open>internal/poker/engine/engine.go\<close>, the operations: settlement, the progress loop, actions,
  timeouts, connection and recovery, validation of a state, and the construction of a hand.
  An operation returns the new engine state with its result; on an error the caller keeps the
  old state, as the source's copy-then-assign does.
\<close>

subsection \<open>Ranks\<close>

fun compare_ranks :: "int list \<Rightarrow> int list \<Rightarrow> int" where
  "compare_ranks (a # as) (b # bs) =
     (if a > b then 1 else if a < b then -1 else compare_ranks as bs)"
| "compare_ranks (a # as) [] = 1"
| "compare_ranks [] (b # bs) = -1"
| "compare_ranks [] [] = 0"

definition validate_rank :: "hand_rank \<Rightarrow> string \<Rightarrow> bool" where
  "validate_rank r ver \<longleftrightarrow>
     hr_version r = ver \<and> hr_category r \<noteq> '''' \<and> hr_vector r \<noteq> [] \<and> length (hr_vector r) \<le> 6 \<and>
     list_all (\<lambda>i. 0 \<le> i \<and> i < 7) (hr_best_five r) \<and> distinct (hr_best_five r)"

text \<open>Reading a missing key of the map gives the zero \<open>HandRank\<close>, whose vector is nil.\<close>

definition rank_vector :: "state \<Rightarrow> int \<Rightarrow> int list" where
  "rank_vector s seat = (case map_of (ranks s) seat of None \<Rightarrow> [] | Some r \<Rightarrow> hr_vector r)"

subsection \<open>Settlement\<close>

text \<open>The largest and second largest commitment, with the index of the first largest.\<close>

fun top_two :: "nat \<Rightarrow> participant list \<Rightarrow> int \<times> int \<times> nat \<Rightarrow> int \<times> int \<times> nat" where
  "top_two i [] acc = acc"
| "top_two i (p # ps) (highest, second, tp) =
     top_two (Suc i) ps
       (if total_committed p > highest then (total_committed p, highest, i)
        else if total_committed p > second then (highest, total_committed p, tp)
        else (highest, second, tp))"

definition take_back :: "int \<Rightarrow> participant \<Rightarrow> participant" where
  "take_back amount p = p\<lparr>total_committed := total_committed p - amount,
     street_committed := street_committed p - min (street_committed p) amount,
     stack := stack p + amount\<rparr>"

definition return_uncalled :: "int \<Rightarrow> state \<Rightarrow> state" where
  "return_uncalled now s =
     (case top_two 0 (players s) (0, 0, 0) of (highest, second, tp) \<Rightarrow>
        if highest > second then
          let amount = highest - second; p = players s ! tp in
          emit ((event_of ReturnUncalled)\<lparr>ev_seat := seat_no p, ev_delta := amount\<rparr>) now
            (s\<lparr>players := (players s)[tp := take_back amount p],
               returns := returns s @ [\<lparr>rt_seat = seat_no p, rt_amount = amount\<rparr>]\<rparr>)
        else s)"

fun rank_players :: "evaluator \<Rightarrow> state \<Rightarrow> participant list \<Rightarrow> (poker_error, (int \<times> hand_rank) list) res" where
  "rank_players ev s [] = Ok []"
| "rank_players ev s (p # ps) =
     (if folded p then rank_players ev s ps
      else bindr (ev (hole p) (board s) (evaluator_version (cfg s))) (\<lambda>r.
        if \<not> validate_rank r (evaluator_version (cfg s)) then Fail ErrInvalid
        else bindr (rank_players ev s ps) (\<lambda>rs. Ok ((seat_no p, r) # rs))))"

definition showdown :: "evaluator \<Rightarrow> int \<Rightarrow> state \<Rightarrow> (poker_error, state) res" where
  "showdown ev now s =
     (if length (filter (\<lambda>p. \<not> folded p) (players s)) > 1 then
        let s = emit (event_of Showdown) now s in
        bindr (rank_players ev s (players s)) (\<lambda>rs. Ok (s\<lparr>ranks := rs\<rparr>))
      else Ok s)"

definition pot_layer :: "int \<Rightarrow> int \<Rightarrow> participant list \<Rightarrow> int" where
  "pot_layer level previous ps =
     sum_list (map (\<lambda>p. if total_committed p \<ge> level then level - previous else 0) ps)"

definition eligible_seats :: "int \<Rightarrow> participant list \<Rightarrow> int list" where
  "eligible_seats level ps = map seat_no (filter (\<lambda>p. total_committed p \<ge> level \<and> \<not> folded p) ps)"

fun best_seats :: "(int \<Rightarrow> int list) \<Rightarrow> int list \<Rightarrow> int list \<Rightarrow> int list" where
  "best_seats vec [] winners = winners"
| "best_seats vec (seat # rest) winners =
     best_seats vec rest
       (case winners of
          [] \<Rightarrow> [seat]
        | w # _ \<Rightarrow> (let c = compare_ranks (vec seat) (vec w) in
            if c > 0 then [seat] else if c = 0 then winners @ [seat] else winners))"

definition from_button :: "int \<Rightarrow> int list \<Rightarrow> int list" where
  "from_button button winners =
     (let ws = sort_by (\<lambda>a b. (a - button + 9) mod 9 < (b - button + 9) mod 9) winners in
      if length ws > 1 \<and> ws ! 0 = button then tl ws @ [hd ws] else ws)"

fun award_loop :: "nat \<Rightarrow> int \<Rightarrow> int \<Rightarrow> int list \<Rightarrow> int \<Rightarrow> award list \<Rightarrow> state \<Rightarrow> award list \<times> state" where
  "award_loop i base odd_chips [] now aws s = (aws, s)"
| "award_loop i base odd_chips (seat # rest) now aws s =
     (let extra = (if int i < odd_chips then units_per_chip else 0);
          a = \<lparr>aw_seat = seat, aw_base = base, aw_odd = extra, aw_amount = base + extra\<rparr>;
          s = upd_player seat (\<lambda>p. p\<lparr>stack := stack p + aw_amount a\<rparr>) s;
          s = emit ((event_of PotAward)\<lparr>ev_seat := seat, ev_delta := aw_amount a\<rparr>) now s
      in award_loop (Suc i) base odd_chips rest now (aws @ [a]) s)"

definition award_pot :: "int \<Rightarrow> int \<Rightarrow> int \<Rightarrow> state \<Rightarrow> (poker_error, state) res" where
  "award_pot level previous now s =
     (let amount = pot_layer level previous (players s);
          eligible = eligible_seats level (players s)
      in if eligible = [] then Fail ErrInvalid
         else
           let winners = from_button (button_seat (cfg s)) (best_seats (rank_vector s) eligible []);
               pot_chips = amount div units_per_chip;
               base = pot_chips div int (length winners) * units_per_chip;
               odd_chips = pot_chips mod int (length winners);
               (aws, s1) = award_loop 0 base odd_chips winners now [] s
           in Ok (s1\<lparr>pots := pots s1 @ [\<lparr>pot_index = length (pots s), pot_amount = amount, pot_floor = previous,
                     pot_ceiling = level, pot_eligible = eligible, pot_awards = aws\<rparr>]\<rparr>))"

fun award_pots :: "int list \<Rightarrow> int \<Rightarrow> int \<Rightarrow> state \<Rightarrow> (poker_error, state) res" where
  "award_pots [] previous now s = Ok s"
| "award_pots (level # levels) previous now s =
     (if level = previous then award_pots levels previous now s
      else bindr (award_pot level previous now s) (\<lambda>s1. award_pots levels level now s1))"

definition clear_seat :: "participant \<Rightarrow> participant" where
  "clear_seat p = p\<lparr>total_committed := 0, street_committed := 0, pending := False,
     disconnect_sit_out := (if disconnected_since p \<noteq> None then True else disconnect_sit_out p)\<rparr>"

definition commitment_levels :: "participant list \<Rightarrow> int list" where
  "commitment_levels ps = sort (filter (\<lambda>t. t > 0) (map total_committed ps))"

definition settle :: "evaluator \<Rightarrow> int \<Rightarrow> state \<Rightarrow> (poker_error, state) res" where
  "settle ev now s =
     (let s = return_uncalled now s;
          levels = commitment_levels (players s)
      in bindr (showdown ev now s) (\<lambda>s.
         bindr (award_pots levels 0 now s) (\<lambda>s.
           Ok (emit (event_of SystemSettlement) now
                 (s\<lparr>players := map clear_seat (players s), actor := 0, current_bet := 0,
                    started_at := 0, deadline := 0, street := Settled\<rparr>)))))"

subsection \<open>Progress\<close>

definition drop_pending :: "participant \<Rightarrow> participant" where
  "drop_pending p = (if stack p = 0 \<or> folded p then p\<lparr>pending := False\<rparr> else p)"

text \<open>\<open>for s.Street != River\<close>: three changes of street at most; the fuel is an upper bound that
  lemma \<open>runout_returns\<close> shows to be enough.\<close>

fun runout :: "nat \<Rightarrow> int \<Rightarrow> state \<Rightarrow> (poker_error, state) res" where
  "runout 0 now s = (if street s = River then Ok s else Hang)"
| "runout (Suc n) now s = (if street s = River then Ok s else runout n now (next_street now s))"

fun progress_loop :: "nat \<Rightarrow> evaluator \<Rightarrow> int \<Rightarrow> int \<Rightarrow> state \<Rightarrow> (poker_error, state) res" where
  "progress_loop 0 ev after now s = Hang"
| "progress_loop (Suc n) ev after now s =
     (let live = filter (\<lambda>p. \<not> folded p) (players s);
          active = filter (\<lambda>p. stack p > 0) live;
          s = s\<lparr>players := map drop_pending (players s)\<rparr>
      in if length live = 1 then settle ev now s
         else
           let needs_call = (active \<noteq> [] \<and> list_ex (\<lambda>p. seat_no p \<noteq> seat_no (last active) \<and>
                              street_committed p > street_committed (last active)) (players s))
           in if length active \<le> 1 \<and> \<not> needs_call then
                bindr (runout 3 now (emit (event_of AllInRunout) now s)) (settle ev now)
              else
                let nxt = next_seat s after (\<lambda>p. pending p \<and> \<not> folded p \<and> stack p > 0) in
                if nxt \<noteq> 0 then Ok (set_actor nxt now s)
                else if street s = River then settle ev now s
                else progress_loop n ev (button_seat (cfg s)) now (next_street now s))"

definition progress :: "evaluator \<Rightarrow> int \<Rightarrow> int \<Rightarrow> state \<Rightarrow> (poker_error, state) res" where
  "progress ev after now s = progress_loop 4 ev after now s"

subsection \<open>Validation\<close>

definition blind_presets :: "int list" where "blind_presets = [10, 20, 50, 100, 200, 1000]"

definition validate_config :: "config \<Rightarrow> bool" where
  "validate_config c \<longleftrightarrow>
     hand_id c \<noteq> '''' \<and> length (hand_id c) \<le> 128 \<and> evaluator_version c \<noteq> '''' \<and>
     1 \<le> button_seat c \<and> button_seat c \<le> 9 \<and> length (frozen_deck c) = 52 \<and>
     list_ex (\<lambda>bb. big_blind c = bb * units_per_chip \<and> small_blind c = bb div 2 * units_per_chip) blind_presets \<and>
     list_all (\<lambda>card. card < 52) (frozen_deck c) \<and> distinct (frozen_deck c)"

definition max_int32 :: int where "max_int32 = 2147483647"

text \<open>The loop over the seats: previous seat, identities seen, running totals.\<close>

fun check_seats :: "state \<Rightarrow> participant list \<Rightarrow> int \<Rightarrow> string list \<Rightarrow> int \<Rightarrow> int \<Rightarrow> (int \<times> int) option" where
  "check_seats s [] prev ids tot initial = Some (tot, initial)"
| "check_seats s (p # ps) prev ids tot initial =
     (if seat_no p \<le> prev \<or> seat_no p < 1 \<or> seat_no p > 9 \<or> player_id p = '''' \<or> player_id p \<in> set ids \<or>
         \<not> whole_units (stack p) \<or> \<not> whole_units (total_committed p) \<or> \<not> whole_units (street_committed p) \<or>
         street_committed p > total_committed p \<or> initial_stack p \<le> 0 \<or> \<not> whole_units (initial_stack p) \<or>
         consecutive_timeouts p < 0 \<or> consecutive_timeouts p > max_int32 \<or>
         last_acted_full_raise p < -1 \<or> last_acted_full_raise p > full_raise_seq s then None
      else if stack p > max_int64 - tot then None
      else if total_committed p > max_int64 - (tot + stack p) then None
      else if initial_stack p > max_int64 - initial then None
      else check_seats s ps (seat_no p) (player_id p # ids) (tot + stack p + total_committed p)
             (initial + initial_stack p))"

definition dealt_cards :: "state \<Rightarrow> card list" where
  "dealt_cards s = concat (map (\<lambda>p. [fst (hole p), snd (hole p)]) (players s)) @ board s"

definition check_cards :: "state \<Rightarrow> bool" where
  "check_cards s \<longleftrightarrow>
     list_all (\<lambda>c. c < 52) (dealt_cards s) \<and> distinct (dealt_cards s) \<and>
     deck_cursor s = length (dealt_cards s) \<and> 4 \<le> deck_cursor s \<and> deck_cursor s \<le> 23 \<and>
     list_all (\<lambda>i. fst (hole (players s ! i)) = frozen_deck (cfg s) ! i \<and>
                  snd (hole (players s ! i)) = frozen_deck (cfg s) ! (length (players s) + i))
       [0..<length (players s)] \<and>
     list_all (\<lambda>i. board s ! i = frozen_deck (cfg s) ! (2 * length (players s) + i)) [0..<length (board s)]"

definition check_board_count :: "state \<Rightarrow> bool" where
  "check_board_count s \<longleftrightarrow>
     (case street s of
        Preflop \<Rightarrow> length (board s) = 0
      | Flop \<Rightarrow> length (board s) = 3
      | Turn \<Rightarrow> length (board s) = 4
      | River \<Rightarrow> length (board s) = 5
      | Settled \<Rightarrow> length (board s) \<in> {0, 3, 4, 5}
      | OtherStreet _ \<Rightarrow> False)"

definition expected_bet :: "state \<Rightarrow> int" where
  "expected_bet s =
     (let b = foldl (\<lambda>m p. max m (street_committed p)) 0 (players s)
      in if street s = Preflop then max b (big_blind (cfg s)) else b)"

definition check_actor :: "state \<Rightarrow> bool" where
  "check_actor s \<longleftrightarrow>
     (if street s \<noteq> Settled then
        current_bet s = expected_bet s \<and>
        (case player s (actor s) of None \<Rightarrow> False
         | Some p \<Rightarrow> \<not> folded p \<and> stack p \<noteq> 0 \<and> pending p \<and> action_seq s \<noteq> 0 \<and> started_at s \<noteq> 0 \<and>
             deadline s = started_at s + decision_window)
      else actor s = 0 \<and> deadline s = 0 \<and>
        list_all (\<lambda>p. total_committed p = 0 \<and> street_committed p = 0 \<and> \<not> pending p) (players s))"

fun check_events :: "state \<Rightarrow> nat \<Rightarrow> event list \<Rightarrow> nat \<Rightarrow> nat option" where
  "check_events s i [] dealt = Some dealt"
| "check_events s i (e # es) dealt =
     (if ev_sequence e \<noteq> i + 1 \<or> ev_version e \<noteq> i + 1 \<or> ev_at e = 0 \<or> \<not> whole_units (ev_delta e) \<or>
         \<not> whole_units (ev_to e) then None
      else if ev_type e = CardDealt then
        (if ev_deck_index e \<noteq> Some dealt \<or> dealt \<ge> deck_cursor s \<or>
            ev_card e \<noteq> Some (frozen_deck (cfg s) ! dealt) then None
         else if dealt < 2 * length (players s) then
           (if ev_visibility e \<noteq> Private \<or> ev_seat e \<noteq> seat_no (players s ! (dealt mod length (players s)))
            then None else check_events s (i + 1) es (dealt + 1))
         else if ev_visibility e \<noteq> Public \<or> ev_seat e \<noteq> 0 then None
         else check_events s (i + 1) es (dealt + 1))
      else check_events s (i + 1) es dealt)"

definition check_receipts :: "state \<Rightarrow> bool" where
  "check_receipts s \<longleftrightarrow>
     distinct (map (act_id \<circ> rc_action) (receipts s)) \<and>
     list_all (\<lambda>r. act_id (rc_action r) \<noteq> '''' \<and> whole_units (act_to (rc_action r)) \<and> rc_first r < rc_last r \<and>
        rc_last r \<le> length (events s) \<and> ev_action_id (events s ! rc_first r) = act_id (rc_action r)) (receipts s)"

fun is_payment :: "event_type \<Rightarrow> bool" where
  "is_payment PostSB = True"
| "is_payment PostBB = True"
| "is_payment (Acted k) = (k \<in> {Call, Bet, Raise, AllIn})"
| "is_payment _ = False"

definition check_award :: "state \<Rightarrow> award \<Rightarrow> bool" where
  "check_award s a \<longleftrightarrow>
     whole_units (aw_amount a) \<and> whole_units (aw_base a) \<and> (aw_odd a = 0 \<or> aw_odd a = units_per_chip) \<and>
     aw_amount a = aw_base a + aw_odd a \<and>
     (case player s (aw_seat a) of None \<Rightarrow> False | Some p \<Rightarrow> \<not> folded p)"

definition check_pot :: "state \<Rightarrow> pot \<Rightarrow> bool" where
  "check_pot s p \<longleftrightarrow>
     list_all (check_award s) (pot_awards p) \<and> sum_list (map aw_amount (pot_awards p)) = pot_amount p \<and>
     pot_amount p > 0 \<and> whole_units (pot_amount p) \<and> whole_units (pot_floor p) \<and> whole_units (pot_ceiling p)"

definition check_settlement :: "state \<Rightarrow> bool" where
  "check_settlement s \<longleftrightarrow>
     list_all (check_pot s) (pots s) \<and>
     list_all (\<lambda>r. rt_amount r > 0 \<and> whole_units (rt_amount r) \<and> player s (rt_seat r) \<noteq> None) (returns s) \<and>
     sum_list (map ev_delta (filter (\<lambda>e. is_payment (ev_type e)) (events s))) =
       sum_list (map (\<lambda>p. sum_list (map aw_amount (pot_awards p))) (pots s)) +
       sum_list (map rt_amount (returns s))"


subsection \<open>The event ledger\<close>

datatype ledger_kind = Paid | Returned | Awarded

fun ledger_of :: "event_type \<Rightarrow> ledger_kind option" where
  "ledger_of ReturnUncalled = Some Returned"
| "ledger_of PotAward = Some Awarded"
| "ledger_of t = (if is_payment t then Some Paid else None)"

type_synonym ledgers = "ledger_kind \<Rightarrow> int \<Rightarrow> int"

definition no_ledgers :: ledgers where "no_ledgers = (\<lambda>_ _. 0)"

fun ledger_walk :: "state \<Rightarrow> event list \<Rightarrow> ledgers \<Rightarrow> ledgers option" where
  "ledger_walk s [] l = Some l"
| "ledger_walk s (e # es) l =
     (if ev_delta e < 0 then None
      else case ledger_of (ev_type e) of
             None \<Rightarrow> ledger_walk s es l
           | Some k \<Rightarrow>
               if player s (ev_seat e) = None \<or> ev_delta e > initial_total s - l k (ev_seat e) then None
               else ledger_walk s es (l(k := (l k)(ev_seat e := l k (ev_seat e) + ev_delta e))))"

definition check_seat_ledger :: "state \<Rightarrow> ledgers \<Rightarrow> participant \<Rightarrow> bool" where
  "check_seat_ledger s l p \<longleftrightarrow>
     (let n = seat_no p; want = initial_stack p - l Paid n + l Returned n in
      l Paid n \<le> initial_stack p \<and> l Returned n \<le> l Paid n \<and>
      l Awarded n \<le> initial_total s - want \<and> stack p = want + l Awarded n \<and>
      (street s \<noteq> Settled \<longrightarrow>
         total_committed p = l Paid n - l Returned n \<and> l Returned n = 0 \<and> l Awarded n = 0))"

fun layer_walk :: "state \<Rightarrow> ledgers \<Rightarrow> pot \<Rightarrow> participant list \<Rightarrow> int \<Rightarrow> int list \<Rightarrow> (int \<times> int list) option" where
  "layer_walk s l po [] amount eligible = Some (amount, eligible)"
| "layer_walk s l po (p # ps) amount eligible =
     (if l Paid (seat_no p) - l Returned (seat_no p) \<ge> pot_ceiling po then
        if pot_ceiling po - pot_floor po > initial_total s - amount then None
        else layer_walk s l po ps (amount + (pot_ceiling po - pot_floor po))
               (if folded p then eligible else eligible @ [seat_no p])
      else layer_walk s l po ps amount eligible)"

fun awards_walk :: "state \<Rightarrow> int list \<Rightarrow> award list \<Rightarrow> int list \<Rightarrow> (int \<Rightarrow> int) \<Rightarrow> (int \<Rightarrow> int) option" where
  "awards_walk s eligible [] seen given = Some given"
| "awards_walk s eligible (a # as) seen given =
     (if aw_seat a \<notin> set eligible \<or>
         list_ex (\<lambda>seat. compare_ranks (rank_vector s seat) (rank_vector s (aw_seat a)) > 0) eligible \<or>
         aw_seat a \<in> set seen \<or> aw_amount a > initial_total s - given (aw_seat a) then None
      else awards_walk s eligible as (aw_seat a # seen)
             (given(aw_seat a := given (aw_seat a) + aw_amount a)))"

fun pots_walk :: "state \<Rightarrow> ledgers \<Rightarrow> nat \<Rightarrow> int \<Rightarrow> pot list \<Rightarrow> (int \<Rightarrow> int) \<Rightarrow> (int \<Rightarrow> int) option" where
  "pots_walk s l index previous [] given = Some given"
| "pots_walk s l index previous (po # pos) given =
     (if pot_index po \<noteq> index \<or> pot_floor po \<noteq> previous \<or> pot_ceiling po \<le> pot_floor po then None
      else case layer_walk s l po (players s) 0 [] of
             None \<Rightarrow> None
           | Some (amount, eligible) \<Rightarrow>
               if eligible = [] \<or> amount \<noteq> pot_amount po \<or> pot_eligible po \<noteq> eligible then None
               else case awards_walk s eligible (pot_awards po) [] given of
                      None \<Rightarrow> None
                    | Some given \<Rightarrow> pots_walk s l (index + 1) (pot_ceiling po) pos given)"

fun returns_walk :: "state \<Rightarrow> chip_return list \<Rightarrow> (int \<Rightarrow> int) \<Rightarrow> (int \<Rightarrow> int) option" where
  "returns_walk s [] given = Some given"
| "returns_walk s (r # rs) given =
     (if rt_amount r > initial_total s - given (rt_seat r) then None
      else returns_walk s rs (given(rt_seat r := given (rt_seat r) + rt_amount r)))"

definition validate_accounting :: "state \<Rightarrow> bool" where
  "validate_accounting s \<longleftrightarrow>
     (case ledger_walk s (events s) no_ledgers of
        None \<Rightarrow> False
      | Some l \<Rightarrow>
          list_all (check_seat_ledger s l) (players s) \<and>
          (if street s \<noteq> Settled then pots s = [] \<and> returns s = [] \<and> ranks s = []
           else events s \<noteq> [] \<and> ev_type (last (events s)) = SystemSettlement \<and>
             list_all (\<lambda>(k, r). validate_rank r (evaluator_version (cfg s))) (ranks s) \<and>
             (case (pots_walk s l 0 0 (pots s) (\<lambda>_. 0), returns_walk s (returns s) (\<lambda>_. 0)) of
                (Some given, Some back) \<Rightarrow>
                  list_all (\<lambda>p. given (seat_no p) = l Awarded (seat_no p) \<and>
                                back (seat_no p) = l Returned (seat_no p)) (players s)
              | _ \<Rightarrow> False)))"

definition validate_state :: "state \<Rightarrow> bool" where
  "validate_state s \<longleftrightarrow>
     schema_version s = 1 \<and> 2 \<le> length (players s) \<and> length (players s) \<le> 9 \<and> initial_total s > 0 \<and>
     whole_units (initial_total s) \<and> last_full_raise s > 0 \<and> whole_units (last_full_raise s) \<and>
     full_raise_seq s \<ge> 0 \<and> version s = length (events s) \<and> validate_config (cfg s) \<and>
     player s (button_seat (cfg s)) \<noteq> None \<and> player s (sb_seat s) \<noteq> None \<and> player s (bb_seat s) \<noteq> None \<and>
     sb_seat s \<noteq> bb_seat s \<and>
     check_seats s (players s) 0 [] 0 0 = Some (initial_total s, initial_total s) \<and>
     check_cards s \<and> check_board_count s \<and> whole_units (current_bet s) \<and> check_actor s \<and>
     check_events s 0 (events s) 0 = Some (deck_cursor s) \<and> check_receipts s \<and>
     (case button_selection (cfg s) of None \<Rightarrow> True
      | Some c \<Rightarrow> validate_button_choice c (seats s) = Ok ()) \<and>
     (street s = Settled \<longrightarrow> check_settlement s) \<and> validate_accounting s"

subsection \<open>Actions\<close>

definition result_from :: "nat \<Rightarrow> state \<Rightarrow> result" where
  "result_from start s = \<lparr>rs_version = version s, rs_events = drop start (events s),
     rs_duplicate = False, rs_noop = False\<rparr>"

definition noop :: "state \<Rightarrow> result" where
  "noop s = \<lparr>rs_version = version s, rs_events = [], rs_duplicate = False, rs_noop = True\<rparr>"

text \<open>The commitment an action aims at: \<open>None\<close> where a bet or raise is out of bounds.\<close>

definition action_target :: "legal \<Rightarrow> participant \<Rightarrow> action \<Rightarrow> int option" where
  "action_target l p a =
     (case act_kind a of
        Call \<Rightarrow> Some (street_committed p + min (lg_to_call l) (stack p))
      | AllIn \<Rightarrow> Some (street_committed p + stack p)
      | Bet \<Rightarrow> if act_to a < lg_minimum_bet l \<or> act_to a > lg_maximum_raise_to l then None else Some (act_to a)
      | Raise \<Rightarrow> if act_to a < lg_minimum_raise_to l \<or> act_to a > lg_maximum_raise_to l then None
                 else Some (act_to a)
      | _ \<Rightarrow> Some (street_committed p))"

text \<open>The copy's update up to the action's event, in the source's order.\<close>

definition raise_bet :: "int \<Rightarrow> int \<Rightarrow> state \<Rightarrow> state" where
  "raise_bet seat target s =
     (if target > current_bet s then
        let increment = target - current_bet s;
            s = (if increment \<ge> last_full_raise s
                 then s\<lparr>full_raise_seq := full_raise_seq s + 1, last_full_raise := increment\<rparr> else s)
        in s\<lparr>current_bet := target,
             players := map (\<lambda>q. if seat_no q \<noteq> seat \<and> \<not> folded q \<and> stack q > 0 \<and> street_committed q < target
                                 then q\<lparr>pending := True\<rparr> else q) (players s)\<rparr>
      else s)"

definition note_actor :: "bool \<Rightarrow> int \<Rightarrow> participant \<Rightarrow> participant" where
  "note_actor timeout fseq p =
     (let p = p\<lparr>pending := False, last_acted_full_raise := fseq\<rparr>
      in if timeout then
           let n = consecutive_timeouts p + 1 in
           p\<lparr>consecutive_timeouts := n, timeout_sit_out := (if n \<ge> 2 then True else timeout_sit_out p)\<rparr>
         else p\<lparr>consecutive_timeouts := 0\<rparr>)"

definition perform :: "action \<Rightarrow> int \<Rightarrow> int \<Rightarrow> int \<Rightarrow> bool \<Rightarrow> state \<Rightarrow> state" where
  "perform a target delta now timeout s =
     (let s = (if act_kind a = Fold then upd_player (act_seat a) (\<lambda>p. p\<lparr>folded := True\<rparr>) s else s);
          s = upd_player (act_seat a) (\<lambda>p. commit p delta) s;
          s = raise_bet (act_seat a) target s;
          s = upd_player (act_seat a) (note_actor timeout (full_raise_seq s)) s
      in emit ((event_of (if timeout then AutoActed (act_kind a) else Acted (act_kind a)))
                 \<lparr>ev_seat := act_seat a, ev_delta := delta, ev_to := target, ev_action_id := act_id a\<rparr>) now s)"

definition apply_checked :: "evaluator \<Rightarrow> action \<Rightarrow> int \<Rightarrow> bool \<Rightarrow> state \<Rightarrow> (poker_error, state \<times> result) res" where
  "apply_checked ev a now timeout s =
     (if recovery_until s \<noteq> None then Fail ErrRecovering
      else if expected_version a \<noteq> version s then Fail ErrStale
      else if street s = Settled \<or> actor s \<noteq> act_seat a \<or> act_seat a = 0 \<or> now = 0 \<or> now < started_at s
      then Fail ErrIllegal
      else if \<not> timeout \<and> \<not> now < deadline s then Fail ErrDeadline
      else
        let l = legal_actions s in
        if act_kind a \<notin> set (lg_actions l) \<or> \<not> whole_units (act_to a) \<or>
           (act_kind a \<noteq> Raise \<and> act_kind a \<noteq> Bet) \<and> act_to a \<noteq> 0 then Fail ErrIllegal
        else case player s (act_seat a) of
               None \<Rightarrow> Fail ErrIllegal
             | Some p \<Rightarrow>
                 (case action_target l p a of
                    None \<Rightarrow> Fail ErrIllegal
                  | Some target \<Rightarrow>
                      let start = length (events s);
                          n = perform a target (target - street_committed p) now timeout s
                      in bindr (progress ev (act_seat a) now n) (\<lambda>n.
                         let n = n\<lparr>receipts := receipts n @ [\<lparr>rc_action = a, rc_first = start,
                                                              rc_last = length (events n)\<rparr>]\<rparr>
                         in if validate_state n then Ok (n, result_from start n) else Fail ErrInvalid)))"

definition timeout_prefix :: string where "timeout_prefix = ''timeout:''"

definition apply_action :: "evaluator \<Rightarrow> action \<Rightarrow> int \<Rightarrow> state \<Rightarrow> (poker_error, state \<times> result) res" where
  "apply_action ev a now s =
     (case find (\<lambda>r. act_id (rc_action r) = act_id a) (receipts s) of
        Some r \<Rightarrow>
          if rc_action r \<noteq> a then Fail ErrConflict
          else Ok (s, \<lparr>rs_version = version s,
                       rs_events = drop (rc_first r) (take (rc_last r) (events s)),
                       rs_duplicate = True, rs_noop = False\<rparr>)
      | None \<Rightarrow>
          if act_id a = '''' \<or> length (act_id a) > 128 \<or> take 8 (act_id a) = timeout_prefix
          then Fail ErrInvalid
          else apply_checked ev a now False s)"

definition timeout_action :: "evaluator \<Rightarrow> nat \<Rightarrow> int \<Rightarrow> state \<Rightarrow> (poker_error, state \<times> result) res" where
  "timeout_action ev sequence now s =
     (if street s = Settled \<or> recovery_until s \<noteq> None \<or> sequence \<noteq> action_seq s \<or> now < deadline s
      then Ok (s, noop s)
      else
        let kind = (if lg_to_call (legal_actions s) = 0 then Check else Fold);
            a = \<lparr>act_id = timeout_prefix @ hand_id (cfg s) @ '':'' @ dec_string sequence,
                 act_seat = actor s, expected_version = version s, act_kind = kind, act_to = 0\<rparr>
        in apply_checked ev a now True s)"

subsection \<open>Connection and recovery\<close>

definition set_connected :: "int \<Rightarrow> bool \<Rightarrow> int \<Rightarrow> state \<Rightarrow> (poker_error, state \<times> result) res" where
  "set_connected seat connected now s =
     (case player s seat of
        None \<Rightarrow> Fail ErrInvalid
      | Some p \<Rightarrow>
          if now = 0 then Fail ErrInvalid
          else if connected = (disconnected_since p = None) then Ok (s, noop s)
          else
            let f = (if connected
                     then (\<lambda>p. p\<lparr>disconnected_since := None,
                             disconnect_sit_out := (if street s \<noteq> Settled then False else disconnect_sit_out p)\<rparr>)
                     else (\<lambda>p. p\<lparr>disconnected_since := Some now,
                             disconnect_sit_out := (if street s = Settled then True else disconnect_sit_out p)\<rparr>));
                kind = (if connected then Reconnected else Disconnected);
                s1 = emit ((event_of kind)\<lparr>ev_seat := seat\<rparr>) now (upd_player seat f s)
            in Ok (s1, result_from (length (events s)) s1))"

definition begin_recovery :: "int \<Rightarrow> state \<Rightarrow> (poker_error, state \<times> result) res" where
  "begin_recovery now s =
     (if now = 0 then Fail ErrInvalid
      else if street s = Settled \<or> recovery_until s \<noteq> None then Ok (s, noop s)
      else let s1 = emit (event_of Recovering) now (s\<lparr>recovery_until := Some (now + decision_window)\<rparr>)
           in Ok (s1, result_from (length (events s)) s1))"

definition resume :: "int \<Rightarrow> state \<Rightarrow> (poker_error, state \<times> result) res" where
  "resume now s =
     (case recovery_until s of
        None \<Rightarrow> Ok (s, noop s)
      | Some u \<Rightarrow>
          if now < u then Ok (s, noop s)
          else let s1 = set_actor (actor s) now (emit (event_of Resumed) now (s\<lparr>recovery_until := None\<rparr>))
               in Ok (s1, result_from (length (events s)) s1))"

subsection \<open>A new hand\<close>

definition new_participant :: "seat \<Rightarrow> participant" where
  "new_participant t = \<lparr>seat_no = seat_no t, player_id = player_id t, stack = stack t,
     consecutive_timeouts = consecutive_timeouts t, timeout_sit_out = timeout_sit_out t,
     initial_stack = stack t, hole = (0, 0), street_committed = 0, total_committed = 0, folded = False,
     last_acted_full_raise = -1, pending = True, disconnected_since = None, disconnect_sit_out = False\<rparr>"

fun seat_players :: "seat list \<Rightarrow> int \<Rightarrow> string list \<Rightarrow> int \<Rightarrow> (poker_error, participant list \<times> int) res" where
  "seat_players [] prev ids tot = Ok ([], tot)"
| "seat_players (t # ts) prev ids tot =
     (if seat_no t < 1 \<or> seat_no t > 9 \<or> seat_no t \<le> prev \<or> player_id t = '''' \<or> player_id t \<in> set ids \<or>
         stack t \<le> 0 \<or> \<not> whole_units (stack t) \<or> consecutive_timeouts t < 0 \<or>
         consecutive_timeouts t > max_int32 \<or> timeout_sit_out t then Fail ErrInvalid
      else if stack t > max_int64 - tot then Fail ErrInvalid
      else bindr (seat_players ts (seat_no t) (player_id t # ids) (tot + stack t)) (\<lambda>(ps, tot).
             Ok (new_participant t # ps, tot)))"

definition post_blind :: "event_type \<Rightarrow> int \<Rightarrow> int \<Rightarrow> int \<Rightarrow> state \<Rightarrow> state" where
  "post_blind kind seat amount now s =
     (case player s seat of
        None \<Rightarrow> s
      | Some p \<Rightarrow>
          let paid = min (stack p) amount; q = commit p paid in
          emit ((event_of kind)\<lparr>ev_seat := seat_no p, ev_delta := paid, ev_to := street_committed q\<rparr>) now
            (upd_player seat (\<lambda>p. commit p paid) s))"

text \<open>One pass of the deal: a card to every seat in order; \<open>first\<close> selects \<open>Hole[0]\<close>.\<close>

fun deal_pass :: "bool \<Rightarrow> nat \<Rightarrow> nat \<Rightarrow> int \<Rightarrow> state \<Rightarrow> state" where
  "deal_pass first i 0 now s = s"
| "deal_pass first i (Suc n) now s =
     (let (c, s) = deal (seat_no (players s ! i)) Private now s;
          p = players s ! i;
          p = p\<lparr>hole := (if first then (c, snd (hole p)) else (fst (hole p), c))\<rparr>
      in deal_pass first (Suc i) n now (s\<lparr>players := (players s)[i := p]\<rparr>))"

definition empty_hand :: "config \<Rightarrow> participant list \<Rightarrow> int \<Rightarrow> state" where
  "empty_hand c ps tot = \<lparr>schema_version = 1, cfg = c, players = ps, initial_total = tot, street = Preflop,
     board = [], deck_cursor = 0, sb_seat = 0, bb_seat = 0, actor = 0, current_bet = 0,
     last_full_raise = big_blind c, full_raise_seq = 0, version = 0, action_seq = 0,
     started_at = 0, deadline = 0, recovery_until = None, pots = [], returns = [], ranks = [],
     events = [], receipts = []\<rparr>"

text \<open>The blinds and the hole cards; heads up the button posts the small blind.\<close>

definition place_blinds :: "state \<Rightarrow> state" where
  "place_blinds s =
     (let s = s\<lparr>sb_seat := next_seat s (button_seat (cfg s)) (\<lambda>p. True)\<rparr>;
          s = (if length (players s) = 2 then s\<lparr>sb_seat := button_seat (cfg s)\<rparr> else s)
      in s\<lparr>bb_seat := next_seat s (sb_seat s) (\<lambda>p. True)\<rparr>)"

definition open_hand :: "int \<Rightarrow> state \<Rightarrow> state" where
  "open_hand now s =
     (let s = place_blinds (emit (event_of HandCommitted) now s);
          s = post_blind PostSB (sb_seat s) (small_blind (cfg s)) now s;
          s = post_blind PostBB (bb_seat s) (big_blind (cfg s)) now s;
          s = s\<lparr>current_bet := big_blind (cfg s)\<rparr>;
          s = deal_pass True 0 (length (players s)) now s
      in deal_pass False 0 (length (players s)) now s)"

definition new_hand :: "config \<Rightarrow> seat list \<Rightarrow> int \<Rightarrow> evaluator \<Rightarrow> (poker_error, state) res" where
  "new_hand c ts now ev =
     (if \<not> validate_config c then Fail ErrInvalid
      else if length ts < 2 \<or> length ts > 9 \<or> now = 0 then Fail ErrInvalid
      else bindr (seat_players (sort_by (\<lambda>a b. seat_no a < seat_no b) ts) 0 [] 0) (\<lambda>(ps, tot).
        let s = empty_hand c ps tot
        in if player s (button_seat c) = None then Fail ErrInvalid
           else if (case button_selection c of None \<Rightarrow> False
                    | Some b \<Rightarrow> validate_button_choice b (seats s) \<noteq> Ok () \<or> bc_seat b \<noteq> button_seat c)
           then Fail ErrInvalid
           else
             let s = open_hand now s
             in bindr (progress ev (bb_seat s) now s) (\<lambda>s.
                  if validate_state s then Ok s else Fail ErrInvalid)))"

end
