(* ===== verification/PokerRankFacts.thy ===== *)
theory PokerRankFacts
  imports PokerRank
begin

text \<open>
  What the evaluator computes: the category and the tie-break against the rules of poker stated on
  the set of cards, the comparison as a total order on the vectors it produces, and the optimality of the five
  cards it chooses.
\<close>

subsection \<open>The groups of equal ranks\<close>

interpretation group_order: strict_order group_before
  by unfold_locales (auto simp: group_before_def split: if_splits)

lemma card_rank_mem: "card_rank c \<in> set ranks_down"
proof -
  have "int (c mod 13) \<in> {0..<13}" by simp
  then show ?thesis
    unfolding card_rank_def Let_def ranks_down_def by (simp add: atLeastLessThan_def) presburger
qed

lemma distinct_ranks_down: "distinct ranks_down"
  by (simp add: ranks_down_def)

lemma rank_count_Cons: "rank_count (c # cs) r = (if card_rank c = r then 1 else 0) + rank_count cs r"
  by (simp add: rank_count_def)

lemma sum_rank_count: "(\<Sum>r\<leftarrow>ranks_down. rank_count cards r) = length cards"
proof (induction cards)
  case Nil
  then show ?case by (simp add: rank_count_def ranks_down_def)
next
  case (Cons c cs)
  have "(\<Sum>r\<leftarrow>ranks_down. if card_rank c = r then 1 else 0) = (1::nat)"
    using card_rank_mem[of c] by (auto simp: ranks_down_def)
  then show ?case using Cons by (simp add: rank_count_Cons sum_list_addf)
qed

lemma rank_count_pos: "0 < rank_count cards r \<Longrightarrow> r \<in> set ranks_down"
  using card_rank_mem by (auto simp: rank_count_def filter_empty_conv)

lemma set_rank_groups:
  "set (rank_groups cards) = {(r, rank_count cards r) | r. 0 < rank_count cards r}"
  using rank_count_pos by (auto simp: rank_groups_def)

lemma distinct_rank_groups: "distinct (map fst (rank_groups cards))"
proof -
  have "mset (map fst (rank_groups cards)) = mset (filter (\<lambda>r. rank_count cards r > 0) ranks_down)"
    by (simp add: rank_groups_def image_mset.compositionality o_def)
  then show ?thesis
    using mset_eq_imp_distinct_iff distinct_filter[OF distinct_ranks_down] by blast
qed

lemma rank_groups_counts:
  "sum_list (map snd (rank_groups cards)) = length cards"
  "sorted_wrt (\<ge>) (map snd (rank_groups cards))"
  "0 \<notin> set (map snd (rank_groups cards))"
proof -
  have "sum_mset (mset (map snd (rank_groups cards)))
      = sum_list (map (rank_count cards) (filter (\<lambda>r. rank_count cards r > 0) ranks_down))"
    by (simp add: rank_groups_def image_mset.compositionality o_def flip: sum_mset_sum_list)
  also have "\<dots> = (\<Sum>r\<leftarrow>ranks_down. rank_count cards r)"
    by (simp add: ranks_down_def)
  finally show "sum_list (map snd (rank_groups cards)) = length cards"
    by (simp only: sum_mset_sum_list sum_rank_count)
  have "sorted_wrt (\<lambda>a b. \<not> group_before b a) (rank_groups cards)"
    unfolding rank_groups_def by (rule group_order.sorted_sort_by)
  then show "sorted_wrt (\<ge>) (map snd (rank_groups cards))"
    unfolding sorted_wrt_map by (rule sorted_wrt_mono_rel[rotated]) (auto simp: group_before_def split: if_splits)
  show "0 \<notin> set (map snd (rank_groups cards))"
    by (auto simp: set_rank_groups)
qed

lemma partition_of_five:
  fixes ns :: "nat list"
  assumes "sum_list ns = 5" "sorted_wrt (\<ge>) ns" "0 \<notin> set ns"
  shows "ns \<in> {[5], [4, 1], [3, 2], [3, 1, 1], [2, 2, 1], [2, 1, 1, 1], [1, 1, 1, 1, 1]}"
proof -
  have bound: "length xs \<le> sum_list xs" if "0 \<notin> set xs" for xs :: "nat list"
    using that by (induction xs) auto
  consider "ns = []" | a where "ns = [a]" | a b where "ns = [a, b]" | a b c where "ns = [a, b, c]"
    | a b c d where "ns = [a, b, c, d]" | a b c d e where "ns = [a, b, c, d, e]"
    | a b c d e f gs where "ns = a # b # c # d # e # f # gs"
    by (metis list.exhaust)
  then show ?thesis
  proof cases
    case 3
    then have "a + b = 5" "b \<le> a" "0 < a" "0 < b" using assms by auto
    then have "a = 4 \<and> b = 1 \<or> a = 3 \<and> b = 2" by arith
    then show ?thesis using 3 by auto
  next
    case 4
    then have "a + b + c = 5" "b \<le> a" "c \<le> b" "0 < c" using assms by auto
    then have "a = 3 \<and> b = 1 \<and> c = 1 \<or> a = 2 \<and> b = 2 \<and> c = 1" by arith
    then show ?thesis using 4 by auto
  next
    case 5
    then have "a + b + c + d = 5" "b \<le> a" "c \<le> b" "d \<le> c" "0 < d" using assms by auto
    then have "a = 2 \<and> b = 1 \<and> c = 1 \<and> d = 1" by arith
    then show ?thesis using 5 by auto
  next
    case 6
    then have "a + b + c + d + e = 5" "b \<le> a" "c \<le> b" "d \<le> c" "e \<le> d" "0 < e" using assms by auto
    then have "a = 1 \<and> b = 1 \<and> c = 1 \<and> d = 1 \<and> e = 1" by arith
    then show ?thesis using 6 by auto
  next
    case 7
    then show ?thesis using assms bound[of gs] by auto
  qed (use assms in auto)
qed

subsection \<open>Shape and category\<close>

definition vec_length :: "int \<Rightarrow> nat" where
  "vec_length k = (if k = 8 \<or> k = 4 then 2 else if k = 7 \<or> k = 6 then 3 else if k = 5 \<or> k = 0 then 6
     else if k = 1 then 5 else 4)"

lemma length_values: "length (concat (map (\<lambda>r. replicate (rank_count cards r) r) ranks_down)) = length cards"
  by (simp add: length_concat o_def sum_rank_count)

lemma rank_groups_shape:
  assumes "length cards = 5"
  shows "map snd (rank_groups cards) \<in>
    {[5], [4, 1], [3, 2], [3, 1, 1], [2, 2, 1], [2, 1, 1, 1], [1, 1, 1, 1, 1]}"
  using partition_of_five rank_groups_counts[of cards] assms by simp

lemma rank_five_head:
  assumes "length cards = 5"
  shows "rank_five cards \<noteq> [] \<and> 0 \<le> hd (rank_five cards) \<and> hd (rank_five cards) \<le> 8"
  by (auto simp: rank_five_def Let_def)

lemma rank_count_le4:
  assumes "distinct cards" "list_all (\<lambda>c. c < 52) cards"
  shows "rank_count cards r \<le> 4"
proof -
  have "distinct (filter (\<lambda>c. card_rank c = r) cards)" using assms(1) by simp
  then have "rank_count cards r = card {c \<in> set cards. card_rank c = r}"
    by (simp add: rank_count_def flip: distinct_card)
  also have "{c \<in> set cards. card_rank c = r} \<subseteq> (\<lambda>s. 13 * s + (if r = 14 then 0 else nat r - 1)) ` {0, 1, 2, 3}"
  proof
    fix c assume "c \<in> {c \<in> set cards. card_rank c = r}"
    then have c: "c < 52" "card_rank c = r" using assms(2) by (auto simp: list_all_iff)
    have "c mod 13 = (if r = 14 then 0 else nat r - 1)"
      using c(2) by (auto simp: card_rank_def Let_def split: if_splits)
    moreover have "c = 13 * (c div 13) + c mod 13" by simp
    moreover have "c div 13 \<in> {0, 1, 2, 3}" using c(1) by auto
    ultimately show "c \<in> (\<lambda>s. 13 * s + (if r = 14 then 0 else nat r - 1)) ` {0, 1, 2, 3}"
      by (intro image_eqI[of _ _ "c div 13"]) auto
  qed
  then have "card {c \<in> set cards. card_rank c = r}
      \<le> card ((\<lambda>s. 13 * s + (if r = 14 then 0 else nat r - 1)) ` {0, 1, 2, 3})"
    by (rule card_mono[rotated]) simp
  also have "\<dots> \<le> card {0, 1, 2, 3 :: nat}" by (rule card_image_le) simp
  finally show ?thesis by simp
qed


lemma count_occurs:
  "0 < k \<Longrightarrow> (\<exists>r. rank_count cards r = k) \<longleftrightarrow> k \<in> set (map snd (rank_groups cards))"
  by (force simp: set_rank_groups)

lemma two_pairs_occur:
  assumes "length cards = 5"
  shows "(\<exists>r q. r \<noteq> q \<and> rank_count cards r = 2 \<and> rank_count cards q = 2) \<longleftrightarrow>
    map snd (rank_groups cards) = [2, 2, 1]" (is "?l \<longleftrightarrow> ?r")
proof
  assume ?l
  then obtain r q where "r \<noteq> q" "(r, 2) \<in> set (rank_groups cards)" "(q, 2) \<in> set (rank_groups cards)"
    by (auto simp: set_rank_groups)
  then show ?r using rank_groups_shape[OF assms] by auto
next
  assume ?r
  then obtain r q t where g: "rank_groups cards = [(r, 2), (q, 2), (t, 1)]" by auto
  then have "(r, 2) \<in> set (rank_groups cards)" "(q, 2) \<in> set (rank_groups cards)" "r \<noteq> q"
    using distinct_rank_groups[of cards] by auto
  then show ?l unfolding set_rank_groups by auto
qed

text \<open>The rules of poker, read off the set of cards without any function of the evaluator: a card's
  face, ace high; how often a face occurs; five cards of one suit; five consecutive faces up to
  \<open>h\<close>, where the ace also stands below the two.\<close>

definition face :: "card \<Rightarrow> int" where
  "face c = (if c mod 13 = 0 then 14 else int (c mod 13) + 1)"

definition how_many :: "card list \<Rightarrow> int \<Rightarrow> nat" where
  "how_many cards r = card {c \<in> set cards. face c = r}"

definition same_suit :: "card list \<Rightarrow> bool" where
  "same_suit cards \<longleftrightarrow> (\<forall>c\<in>set cards. \<forall>d\<in>set cards. c div 13 = d div 13)"

definition run_faces :: "int \<Rightarrow> int set" where
  "run_faces h = (if h = 5 then {14, 2, 3, 4, 5} else {h - 4..h})"

definition runs_to :: "card list \<Rightarrow> int \<Rightarrow> bool" where
  "runs_to cards h \<longleftrightarrow> 5 \<le> h \<and> h \<le> 14 \<and> face ` set cards = run_faces h"

definition category_spec :: "card list \<Rightarrow> int" where
  "category_spec cards =
     (let flush = same_suit cards; straight = (\<exists>h. runs_to cards h) in
      if flush \<and> straight then 8
      else if \<exists>r. how_many cards r = 4 then 7
      else if (\<exists>r. how_many cards r = 3) \<and> (\<exists>r. how_many cards r = 2) then 6
      else if flush then 5
      else if straight then 4
      else if \<exists>r. how_many cards r = 3 then 3
      else if \<exists>r q. r \<noteq> q \<and> how_many cards r = 2 \<and> how_many cards q = 2 then 2
      else if \<exists>r. how_many cards r = 2 then 1
      else 0)"

text \<open>What decides between two hands of one category: the high card of a straight, and otherwise
  the faces, the more frequent before the less, the higher before the lower.\<close>

definition tie_spec :: "card list \<Rightarrow> int list \<Rightarrow> bool" where
  "tie_spec cards tie \<longleftrightarrow>
     (if \<exists>h. runs_to cards h then \<exists>h. runs_to cards h \<and> tie = [h]
      else set tie = face ` set cards \<and>
        sorted_wrt (\<lambda>a b. how_many cards b < how_many cards a \<or> how_many cards b = how_many cards a \<and> b < a) tie)"

lemma card_rank_face: "card_rank = face"
  by (rule ext) (auto simp: card_rank_def face_def Let_def)

lemma rank_count_many: "distinct cards \<Longrightarrow> rank_count cards r = how_many cards r"
  unfolding rank_count_def how_many_def card_rank_face
  using distinct_card[of "filter (\<lambda>c. face c = r) cards"] by simp

lemma rank_count_pos_iff: "0 < rank_count cards r \<longleftrightarrow> r \<in> face ` set cards"
  by (auto simp: rank_count_def card_rank_face filter_empty_conv)

lemma is_flush_same_suit: "is_flush cards \<longleftrightarrow> same_suit cards"
  by (cases cards) (auto simp: is_flush_def same_suit_def list_all_iff)

lemma straight_at_faces:
  assumes "h \<in> set [14, 13, 12, 11, 10, 9, 8, 7, 6, 5]"
  shows "straight_at cards h \<longleftrightarrow> run_faces h \<subseteq> face ` set cards"
proof -
  have zero: "rank_count cards r \<noteq> 0 \<longleftrightarrow> r \<in> face ` set cards" for r
    using rank_count_pos_iff by simp
  have upto: "{h - 4..h} = {h, h - 1, h - 2, h - 3, h - 4}" by auto
  show ?thesis
    unfolding straight_at_def zero run_faces_def upto Let_def using assms by auto
qed

lemma straight_at_runs:
  assumes "length cards = 5" "h \<in> set [14, 13, 12, 11, 10, 9, 8, 7, 6, 5]"
  shows "straight_at cards h \<longleftrightarrow> runs_to cards h"
proof -
  have five: "card (run_faces h) = 5" by (simp add: run_faces_def)
  have "card (face ` set cards) \<le> 5"
    using card_image_le[of "set cards" face] card_length[of cards] assms(1) by simp
  then have "run_faces h \<subseteq> face ` set cards \<longleftrightarrow> run_faces h = face ` set cards"
    using five card_seteq[of "face ` set cards" "run_faces h"] by auto
  moreover have "5 \<le> h \<and> h \<le> 14" using assms(2) by auto
  ultimately show ?thesis
    unfolding straight_at_faces[OF assms(2)] runs_to_def by auto
qed

lemma straight_high_runs:
  assumes "length cards = 5"
  shows "(\<exists>h. runs_to cards h) \<longleftrightarrow> straight_high cards > 0"
    and "straight_high cards > 0 \<Longrightarrow> runs_to cards (straight_high cards)"
proof -
  let ?hs = "[14, 13, 12, 11, 10, 9, 8, 7, 6, 5] :: int list"
  have some: "runs_to cards h \<and> 0 < h" if "find (straight_at cards) ?hs = Some h" for h
  proof -
    from that have h: "straight_at cards h" "h \<in> set ?hs"
      unfolding find_Some_iff by (metis, metis nth_mem)
    then show ?thesis using straight_at_runs[OF assms h(2)] by auto
  qed
  have none: "\<not> runs_to cards h" if "find (straight_at cards) ?hs = None" for h
  proof
    assume r: "runs_to cards h"
    then have "5 \<le> h" "h \<le> 14" by (simp_all add: runs_to_def)
    then have h: "h \<in> set ?hs" by (simp only: list.set insert_iff empty_iff) presburger
    moreover have "straight_at cards h" using straight_at_runs[OF assms h] r by blast
    ultimately show False using that unfolding find_None_iff by blast
  qed
  have "(\<exists>h. runs_to cards h) \<longleftrightarrow> straight_high cards > 0 \<and> runs_to cards (straight_high cards)"
  proof (cases "find (straight_at cards) ?hs")
    case None
    then have "straight_high cards = 0" unfolding straight_high_def by (simp only: option.case)
    then show ?thesis using none[OF None] by simp
  next
    case (Some h)
    then have "straight_high cards = h" unfolding straight_high_def by (simp only: option.case)
    then show ?thesis using some[OF Some] by blast
  qed
  moreover have "runs_to cards (straight_high cards)" if "straight_high cards > 0"
  proof (cases "find (straight_at cards) ?hs")
    case None
    then have "straight_high cards = 0" unfolding straight_high_def by (simp only: option.case)
    then show ?thesis using that by simp
  next
    case (Some h)
    then have "straight_high cards = h" unfolding straight_high_def by (simp only: option.case)
    then show ?thesis using some[OF Some] by blast
  qed
  ultimately show "(\<exists>h. runs_to cards h) \<longleftrightarrow> straight_high cards > 0"
    "straight_high cards > 0 \<Longrightarrow> runs_to cards (straight_high cards)" by blast+
qed

lemma category_counts:
  assumes "length cards = 5" "distinct cards"
  shows "category_spec cards =
     (let flush = is_flush cards; straight = straight_high cards > 0 in
      if flush \<and> straight then 8
      else if \<exists>r. rank_count cards r = 4 then 7
      else if (\<exists>r. rank_count cards r = 3) \<and> (\<exists>r. rank_count cards r = 2) then 6
      else if flush then 5
      else if straight then 4
      else if \<exists>r. rank_count cards r = 3 then 3
      else if \<exists>r q. r \<noteq> q \<and> rank_count cards r = 2 \<and> rank_count cards q = 2 then 2
      else if \<exists>r. rank_count cards r = 2 then 1
      else 0)"
  unfolding category_spec_def is_flush_same_suit rank_count_many[OF assms(2)]
    straight_high_runs(1)[OF assms(1)] ..

lemma groups_nth:
  "i < length (rank_groups cards) \<Longrightarrow> snd (rank_groups cards ! i) = map snd (rank_groups cards) ! i"
  by simp

lemma rank_five_hd_length:
  assumes "length cards = 5" "distinct cards" "list_all (\<lambda>c. c < 52) cards"
  shows "hd (rank_five cards) = category_spec cards \<and>
    length (rank_five cards) = vec_length (hd (rank_five cards))"
proof -
  have no5: "map snd (rank_groups cards) \<noteq> [5]"
  proof
    assume "map snd (rank_groups cards) = [5]"
    then obtain r where "rank_count cards r = 5" using count_occurs[of 5 cards] by auto
    then show False using rank_count_le4[OF assms(2,3), of r] by simp
  qed
  have len: "length (rank_groups cards) = length (map snd (rank_groups cards))" by simp
  have vals: "length (concat (map (\<lambda>r. replicate (rank_count cards r) r) ranks_down)) = 5"
    by (simp only: length_values assms(1))
  consider "map snd (rank_groups cards) = [4, 1]" | "map snd (rank_groups cards) = [3, 2]"
    | "map snd (rank_groups cards) = [3, 1, 1]" | "map snd (rank_groups cards) = [2, 2, 1]"
    | "map snd (rank_groups cards) = [2, 1, 1, 1]" | "map snd (rank_groups cards) = [1, 1, 1, 1, 1]"
    using rank_groups_shape[OF assms(1)] no5 by blast
  then show ?thesis
    by cases
      (simp_all add: rank_five_def category_counts[OF assms(1,2)] Let_def count_occurs
        two_pairs_occur[OF assms(1)] len groups_nth vec_length_def vals)
qed

text \<open>Five cards of one suit have five faces.\<close>

lemma same_suit_once: "distinct cards \<Longrightarrow> same_suit cards \<Longrightarrow> rank_count cards r \<le> 1"
proof -
  assume d: "distinct cards" and s: "same_suit cards"
  have "c = d" if "c \<in> set cards" "d \<in> set cards" "face c = face d" for c d
  proof -
    have low: "c mod 13 < 13" "d mod 13 < 13" by simp_all
    have "x = y" if "(if x = 0 then 14 else int x + 1) = (if y = 0 then 14 else int y + 1)" "x < 13" "y < 13"
      for x y using that by (cases "x = 0"; cases "y = 0") simp_all
    from this[OF that(3)[unfolded face_def] low] have "c mod 13 = d mod 13" .
    moreover have "c div 13 = d div 13" using s that(1,2) unfolding same_suit_def by blast
    ultimately have "c div 13 * 13 + c mod 13 = d div 13 * 13 + d mod 13" by (simp only:)
    then show ?thesis unfolding div_mult_mod_eq .
  qed
  then have "\<forall>c\<in>{c \<in> set cards. face c = r}. \<forall>e\<in>{c \<in> set cards. face c = r}. c = e" by blast
  then show ?thesis
    unfolding rank_count_many[OF d] how_many_def One_nat_def
    by (rule iffD2[OF card_le_Suc0_iff_eq, rotated]) simp
qed

lemma values_once:
  "(\<And>r. rank_count cards r \<le> 1) \<Longrightarrow>
    concat (map (\<lambda>r. replicate (rank_count cards r) r) rs) = filter (\<lambda>r. rank_count cards r > 0) rs"
proof (induction rs)
  case (Cons r rs)
  then show ?case using Cons.prems[of r] by (cases "rank_count cards r") auto
qed simp

lemma faces_of_groups: "set (map fst (rank_groups cards)) = face ` set cards"
proof -
  have "set (map fst (rank_groups cards)) = {r. 0 < rank_count cards r}"
    by (simp add: set_rank_groups image_Collect)
  then show ?thesis unfolding rank_count_pos_iff by simp
qed

lemma once_ties:
  assumes "distinct cards" "\<And>r. rank_count cards r \<le> 1"
  shows "set (filter (\<lambda>r. rank_count cards r > 0) ranks_down) = face ` set cards \<and>
    sorted_wrt (\<lambda>a b. how_many cards b < how_many cards a \<or> how_many cards b = how_many cards a \<and> b < a)
      (filter (\<lambda>r. rank_count cards r > 0) ranks_down)"
proof
  show "set (filter (\<lambda>r. rank_count cards r > 0) ranks_down) = face ` set cards"
    using rank_count_pos[of cards] by (auto simp only: set_filter rank_count_pos_iff)
  have down: "sorted_wrt (>) ranks_down" by (simp add: ranks_down_def)
  have one: "rank_count cards r = 1" if "0 < rank_count cards r" for r using that assms(2)[of r] by simp
  show "sorted_wrt (\<lambda>a b. how_many cards b < how_many cards a \<or> how_many cards b = how_many cards a \<and> b < a)
      (filter (\<lambda>r. rank_count cards r > 0) ranks_down)"
    by (rule sorted_wrt_mono_rel[OF _ sorted_wrt_filter[OF down]])
      (simp add: one flip: rank_count_many[OF assms(1)])
qed

lemma distinct_sorted_wrt: "distinct xs \<longleftrightarrow> sorted_wrt (\<noteq>) xs"
  by (induction xs) auto

lemma groups_ties:
  assumes "distinct cards"
  shows "set (map fst (rank_groups cards)) = face ` set cards \<and>
    sorted_wrt (\<lambda>a b. how_many cards b < how_many cards a \<or> how_many cards b = how_many cards a \<and> b < a)
      (map fst (rank_groups cards))"
proof
  show "set (map fst (rank_groups cards)) = face ` set cards" by (rule faces_of_groups)
  have "sorted_wrt (\<lambda>a b. \<not> group_before b a) (rank_groups cards)"
    unfolding rank_groups_def by (rule group_order.sorted_sort_by)
  moreover have "sorted_wrt (\<lambda>a b. fst a \<noteq> fst b) (rank_groups cards)"
    using distinct_rank_groups[of cards] by (simp add: distinct_sorted_wrt sorted_wrt_map)
  ultimately have "sorted_wrt (\<lambda>a b. \<not> group_before b a \<and> fst a \<noteq> fst b) (rank_groups cards)"
    by (simp add: sorted_wrt_iff_nth_less)
  then show "sorted_wrt (\<lambda>a b. how_many cards b < how_many cards a \<or> how_many cards b = how_many cards a \<and> b < a)
      (map fst (rank_groups cards))"
    unfolding sorted_wrt_map
    by (rule sorted_wrt_mono_rel[rotated])
      (auto simp: set_rank_groups group_before_def rank_count_many[OF assms] split: if_splits)
qed

lemma straight_groups:
  assumes "length cards = 5" "runs_to cards h"
  shows "map snd (rank_groups cards) = [1, 1, 1, 1, 1]"
proof -
  have "set (map fst (rank_groups cards)) = run_faces h"
    using faces_of_groups assms(2) by (simp add: runs_to_def)
  then have "length (map fst (rank_groups cards)) = 5"
    using distinct_card[OF distinct_rank_groups[of cards]] by (simp add: run_faces_def split: if_splits)
  then show ?thesis using rank_groups_shape[OF assms(1)] by auto
qed

lemma rank_five_tie:
  assumes "length cards = 5" "distinct cards"
  shows "tie_spec cards (tl (rank_five cards))"
proof (cases "\<exists>h. runs_to cards h")
  case True
  then have high: "straight_high cards > 0" "runs_to cards (straight_high cards)"
    using straight_high_runs[OF assms(1)] by blast+
  note shape = straight_groups[OF assms(1) high(2)]
  then have "snd (rank_groups cards ! 0) = 1" by (cases "rank_groups cards") auto
  then have "tl (rank_five cards) = [straight_high cards]"
    using high(1) by (simp add: rank_five_def Let_def)
  then show ?thesis using high(2) True by (auto simp: tie_spec_def)
next
  case False
  then have high: "\<not> straight_high cards > 0" using straight_high_runs(1)[OF assms(1)] by blast
  have "set (tl (rank_five cards)) = face ` set cards \<and>
    sorted_wrt (\<lambda>a b. how_many cards b < how_many cards a \<or> how_many cards b = how_many cards a \<and> b < a)
      (tl (rank_five cards))"
  proof (cases "is_flush cards")
    case True
    then have once: "rank_count cards r \<le> 1" for r using same_suit_once[OF assms(2)] is_flush_same_suit by blast
    have "snd g \<le> 1" if "g \<in> set (rank_groups cards)" for g using that once by (auto simp: set_rank_groups)
    moreover have "rank_groups cards \<noteq> []" using rank_groups_shape[OF assms(1)] by auto
    ultimately have "snd (rank_groups cards ! 0) \<le> 1" by simp
    then have "tl (rank_five cards) = filter (\<lambda>r. rank_count cards r > 0) ranks_down"
      using True high by (simp add: rank_five_def Let_def values_once[OF once])
    then show ?thesis using once_ties[OF assms(2) once] by simp
  next
    case False
    have "tl (rank_five cards) = map fst (rank_groups cards)"
      using rank_groups_shape[OF assms(1)] False high by (auto simp: rank_five_def Let_def)
    then show ?thesis using groups_ties[OF assms(2)] by simp
  qed
  then show ?thesis using False by (simp add: tie_spec_def)
qed


subsection \<open>The order of the vectors\<close>

lemma compare_vec_refl [simp]: "compare_vec a a = 0"
  by (induction a) auto

lemma compare_vec_range: "compare_vec a b \<in> {-1, 0, 1}"
  by (induction a b rule: compare_vec.induct) auto

lemma compare_vec_swap: "compare_vec b a = - compare_vec a b"
  by (induction a b rule: compare_vec.induct) auto

lemma compare_vec_eq: "length a = length b \<Longrightarrow> compare_vec a b = 0 \<longleftrightarrow> a = b"
  by (induction a b rule: compare_vec.induct) auto

lemma compare_vec_trans_length:
  "length a = length b \<Longrightarrow> length b = length c \<Longrightarrow> compare_vec a b \<le> 0 \<Longrightarrow> compare_vec b c \<le> 0 \<Longrightarrow>
   compare_vec a c \<le> 0"
  by (induction a b c rule: list_induct3) (auto split: if_splits)

text \<open>The vectors of the evaluator: the category fixes the length, so a comparison never runs
  past the end of either.\<close>

definition rank_vec :: "int list \<Rightarrow> bool" where
  "rank_vec v \<longleftrightarrow> v \<noteq> [] \<and> length v = vec_length (hd v)"

lemma rank_vec_same_hd: "rank_vec a \<Longrightarrow> rank_vec b \<Longrightarrow> hd a = hd b \<Longrightarrow> length a = length b"
  by (simp add: rank_vec_def)

lemma compare_vec_hd:
  "a \<noteq> [] \<Longrightarrow> b \<noteq> [] \<Longrightarrow> hd a \<noteq> hd b \<Longrightarrow> compare_vec a b = (if hd a > hd b then 1 else -1)"
  by (cases a; cases b) auto

lemma compare_vec_trans:
  assumes "rank_vec a" "rank_vec b" "rank_vec c" "compare_vec a b \<le> 0" "compare_vec b c \<le> 0"
  shows "compare_vec a c \<le> 0"
proof (cases "hd a = hd b \<and> hd b = hd c")
  case True
  then show ?thesis using assms compare_vec_trans_length rank_vec_same_hd by metis
next
  case False
  have ne: "a \<noteq> []" "b \<noteq> []" "c \<noteq> []" using assms by (auto simp: rank_vec_def)
  have "hd a \<le> hd b"
    using compare_vec_hd[OF ne(1,2)] assms(4) by (cases "hd a = hd b") (auto split: if_splits)
  moreover have "hd b \<le> hd c"
    using compare_vec_hd[OF ne(2,3)] assms(5) by (cases "hd b = hd c") (auto split: if_splits)
  ultimately have "hd a < hd c" using False by auto
  then show ?thesis using compare_vec_hd[OF ne(1,3)] by simp
qed

subsection \<open>The ranking looks at the cards only as a set\<close>

lemma is_flush_mset: "mset a = mset b \<Longrightarrow> is_flush a = is_flush b"
proof -
  assume m: "mset a = mset b"
  have *: "is_flush cs \<longleftrightarrow> (\<forall>c\<in>set cs. \<forall>d\<in>set cs. c div 13 = d div 13)" for cs
    by (cases cs) (auto simp: is_flush_def list_all_iff)
  show ?thesis unfolding * mset_eq_setD[OF m] ..
qed

lemma rank_count_mset: "mset a = mset b \<Longrightarrow> rank_count a = rank_count b"
  by (rule ext) (metis rank_count_def mset_filter size_mset)

lemma rank_five_mset:
  assumes "mset a = mset b" shows "rank_five a = rank_five b"
proof -
  note eqs = is_flush_mset[OF assms] rank_count_mset[OF assms]
  have "straight_at a = straight_at b" by (rule ext) (simp only: straight_at_def eqs)
  moreover have "rank_groups a = rank_groups b" by (simp only: rank_groups_def eqs)
  ultimately show ?thesis by (simp only: rank_five_def straight_high_def eqs)
qed

subsection \<open>The best five\<close>

lemma five_of_seven_iff:
  "[a, b, c, d, e] \<in> set five_of_seven \<longleftrightarrow> a < 3 \<and> a < b \<and> b < 4 \<and> b < c \<and> c < 5 \<and> c < d \<and> d < 6 \<and> d < e \<and> e < 7"
    (is "?l \<longleftrightarrow> ?r")
proof
  assume r: ?r
  show ?l
    by (simp add: five_of_seven_def, rule bexI[where x = a], rule bexI[where x = b],
        rule bexI[where x = c], rule bexI[where x = d], rule image_eqI[where x = e])
      (use r in simp_all)
qed (auto simp: five_of_seven_def)

lemma set_five_of_seven:
  "set five_of_seven = {idx. length idx = 5 \<and> sorted_wrt (<) idx \<and> set idx \<subseteq> {..<7}}"
proof (intro equalityI subsetI)
  fix idx assume "idx \<in> set five_of_seven"
  then show "idx \<in> {idx. length idx = 5 \<and> sorted_wrt (<) idx \<and> set idx \<subseteq> {..<7}}"
    by (auto simp: five_of_seven_def)
next
  fix idx :: "nat list"
  assume "idx \<in> {idx. length idx = 5 \<and> sorted_wrt (<) idx \<and> set idx \<subseteq> {..<7}}"
  then obtain a b c d e where "idx = [a, b, c, d, e]" "a < b" "b < c" "c < d" "d < e" "e < 7"
    by (auto simp: length_Suc_conv numeral_eq_Suc)
  then show "idx \<in> set five_of_seven"
    by (auto simp: five_of_seven_iff)
qed

lemma foldl_better:
  assumes "\<forall>idx\<in>set ids. rank_vec (rank_five (pick cards idx))"
    and "case best of None \<Rightarrow> True | Some (v, i) \<Rightarrow> rank_vec v"
    and "ids \<noteq> [] \<or> best \<noteq> None"
  shows "\<exists>v idx. foldl (better_five cards) best ids = Some (v, idx) \<and> rank_vec v \<and>
    ((idx \<in> set ids \<and> v = rank_five (pick cards idx)) \<or> best = Some (v, idx)) \<and>
    (\<forall>i\<in>set ids. compare_vec (rank_five (pick cards i)) v \<le> 0) \<and>
    (\<forall>w i. best = Some (w, i) \<longrightarrow> compare_vec w v \<le> 0)"
  using assms
proof (induction ids arbitrary: best)
  case Nil
  then show ?case by auto
next
  case (Cons x ids)
  let ?x = "rank_five (pick cards x)"
  have x: "rank_vec ?x" using Cons.prems(1) by simp
  have "\<exists>w i. better_five cards best x = Some (w, i) \<and> rank_vec w \<and> compare_vec ?x w \<le> 0 \<and>
    (\<forall>u j. best = Some (u, j) \<longrightarrow> compare_vec u w \<le> 0 \<and> rank_vec u) \<and>
    ((w = ?x \<and> i = x) \<or> best = Some (w, i))"
  proof (cases best)
    case None
    then show ?thesis using x by (simp add: better_five_def)
  next
    case (Some p)
    then obtain u j where u: "best = Some (u, j)" "rank_vec u" using Cons.prems(2) by (cases p) auto
    show ?thesis
      using x u compare_vec_swap[of u ?x]
      by (cases "compare_vec ?x u > 0") (simp_all add: better_five_def)
  qed
  then obtain w i where w: "better_five cards best x = Some (w, i)" "rank_vec w" "compare_vec ?x w \<le> 0"
    "\<forall>u j. best = Some (u, j) \<longrightarrow> compare_vec u w \<le> 0 \<and> rank_vec u"
    "(w = ?x \<and> i = x) \<or> best = Some (w, i)"
    by blast
  from Cons.IH[of "better_five cards best x"] Cons.prems(1) w(1,2)
  obtain v idx where v: "foldl (better_five cards) best (x # ids) = Some (v, idx)" "rank_vec v"
    "(idx \<in> set ids \<and> v = rank_five (pick cards idx)) \<or> (w, i) = (v, idx)"
    "\<forall>i\<in>set ids. compare_vec (rank_five (pick cards i)) v \<le> 0" "compare_vec w v \<le> 0"
    by auto
  have "compare_vec ?x v \<le> 0" by (rule compare_vec_trans[OF x w(2) v(2) w(3) v(5)])
  moreover have "\<forall>u j. best = Some (u, j) \<longrightarrow> compare_vec u v \<le> 0"
    using compare_vec_trans[OF _ w(2) v(2) _ v(5)] w(4) by blast
  ultimately show ?case using v w(5) by auto
qed

lemma pick_ok:
  assumes "idx \<in> set five_of_seven" "length cards = 7" "distinct cards"
  shows "length (pick cards idx) = 5" "distinct (pick cards idx)" "set (pick cards idx) \<subseteq> set cards"
proof -
  have i: "length idx = 5" "sorted_wrt (<) idx" "set idx \<subseteq> {..<7}"
    using assms(1) by (auto simp: set_five_of_seven)
  show "length (pick cards idx) = 5" using i by (simp add: pick_def)
  have "distinct idx" using i(2) by (simp add: strict_sorted_iff)
  moreover have "inj_on ((!) cards) (set idx)"
    using i(3) assms(2,3) by (auto simp: inj_on_def nth_eq_iff_index_eq subset_iff)
  ultimately show "distinct (pick cards idx)" by (simp add: pick_def distinct_map)
  show "set (pick cards idx) \<subseteq> set cards" using i(3) assms(2) by (auto simp: pick_def subset_iff)
qed

lemma five_subset_picked:
  assumes "length cards = 7" "length five = 5" "distinct five" "set five \<subseteq> set cards" "distinct cards"
  shows "\<exists>idx\<in>set five_of_seven. mset (pick cards idx) = mset five"
proof -
  define I where "I = {i. i < 7 \<and> cards ! i \<in> set five}"
  have im: "(!) cards ` I = set five"
  proof (intro equalityI subsetI)
    fix c assume c: "c \<in> set five"
    then obtain i where "i < 7" "cards ! i = c" using assms(1,4) by (metis in_set_conv_nth subsetD)
    then show "c \<in> (!) cards ` I" using c by (auto simp: I_def)
  qed (auto simp: I_def)
  have inj: "inj_on ((!) cards) I"
    using assms(1,5) by (auto simp: inj_on_def I_def nth_eq_iff_index_eq)
  have fin: "finite I" by (simp add: I_def)
  have cardI: "card I = 5" using card_image[OF inj] im assms(2,3) by (simp add: distinct_card)
  define idx where "idx = sorted_list_of_set I"
  have idx: "length idx = 5" "sorted_wrt (<) idx" "set idx = I" "distinct idx"
    using fin cardI by (simp_all add: idx_def)
  have "idx \<in> set five_of_seven" using idx by (auto simp: set_five_of_seven I_def)
  moreover have "mset (pick cards idx) = mset five"
  proof -
    have "distinct (pick cards idx)" using idx inj by (simp add: pick_def distinct_map)
    moreover have "set (pick cards idx) = set five" using idx im by (simp add: pick_def)
    ultimately show ?thesis using assms(3) by (simp add: set_eq_iff_mset_eq_distinct)
  qed
  ultimately show ?thesis by blast
qed


definition seven_cards :: "card \<times> card \<Rightarrow> card list \<Rightarrow> card list" where
  "seven_cards hole board = fst hole # snd hole # board"

lemma evaluate_hand_Ok:
  assumes "length board = 5" "distinct (seven_cards hole board)" "\<forall>c\<in>set (seven_cards hole board). c < 52"
  shows "\<exists>idx\<in>set five_of_seven. let v = rank_five (pick (seven_cards hole board) idx) in
      evaluate_hand hole board evaluator_version_v1
        = Ok \<lparr>hr_category = categories ! nat (hd v), hr_vector = v, hr_best_five = map int idx,
              hr_version = evaluator_version_v1\<rparr>
      \<and> rank_vec v \<and> 0 \<le> hd v \<and> hd v \<le> 8
      \<and> (\<forall>i\<in>set five_of_seven. compare_vec (rank_five (pick (seven_cards hole board) i)) v \<le> 0)"
proof -
  let ?cards = "seven_cards hole board"
  have len: "length ?cards = 7" using assms(1) by (simp add: seven_cards_def)
  have vecs: "\<forall>idx\<in>set five_of_seven. rank_vec (rank_five (pick ?cards idx))"
  proof
    fix idx assume "idx \<in> set five_of_seven"
    note ok = pick_ok[OF this len assms(2)]
    have "list_all (\<lambda>c. c < 52) (pick ?cards idx)" using ok(3) assms(3) by (auto simp: list_all_iff)
    then show "rank_vec (rank_five (pick ?cards idx))"
      using rank_five_hd_length[OF ok(1,2)] rank_five_head[OF ok(1)] by (simp add: rank_vec_def)
  qed
  have ne: "five_of_seven \<noteq> []" by (simp add: five_of_seven_def upt_rec)
  from foldl_better[OF vecs, of None] ne obtain v idx where v:
    "foldl (better_five ?cards) None five_of_seven = Some (v, idx)" "rank_vec v"
    "idx \<in> set five_of_seven" "v = rank_five (pick ?cards idx)"
    "\<forall>i\<in>set five_of_seven. compare_vec (rank_five (pick ?cards i)) v \<le> 0"
    by auto
  have hd: "v ! 0 = hd v" using v(2) by (simp add: rank_vec_def hd_conv_nth)
  have "length (pick ?cards idx) = 5" by (rule pick_ok[OF v(3) len assms(2)])
  from rank_five_head[OF this] have "0 \<le> hd v \<and> hd v \<le> 8" by (simp add: v(4))
  moreover have "evaluate_hand hole board evaluator_version_v1
      = Ok \<lparr>hr_category = categories ! nat (hd v), hr_vector = v, hr_best_five = map int idx,
              hr_version = evaluator_version_v1\<rparr>"
    using assms v(1) hd by (simp add: evaluate_hand_def seven_cards_def list_all_iff Let_def)
  ultimately show ?thesis using v by (intro bexI[of _ idx]) (simp_all add: Let_def)
qed

lemma evaluate_hand_Ok_inputs:
  assumes "evaluate_hand hole board ver = Ok r"
  shows "ver = evaluator_version_v1" "length board = 5" "distinct (seven_cards hole board)"
    "\<forall>c\<in>set (seven_cards hole board). c < 52"
  using assms
  by (auto simp: evaluate_hand_def seven_cards_def list_all_iff Let_def split: if_splits)

lemma evaluate_hand_best:
  assumes "evaluate_hand hole board ver = Ok r"
    and "length five = 5" "distinct five" "set five \<subseteq> set (seven_cards hole board)"
  shows "compare_vec (rank_five five) (hr_vector r) \<le> 0"
proof -
  note ok = evaluate_hand_Ok_inputs[OF assms(1)]
  have len: "length (seven_cards hole board) = 7" using ok(2) by (simp add: seven_cards_def)
  from five_subset_picked[OF len assms(2-4) ok(3)] obtain i where
    i: "i \<in> set five_of_seven" "mset (pick (seven_cards hole board) i) = mset five" by blast
  from evaluate_hand_Ok[OF ok(2-4)] assms(1) ok(1) i(1)
  have "compare_vec (rank_five (pick (seven_cards hole board) i)) (hr_vector r) \<le> 0"
    by (auto simp: Let_def)
  then show ?thesis by (simp add: rank_five_mset[OF i(2)])
qed

subsection \<open>The button\<close>

lemma ordered_seats_Ok:
  "ordered_seats seats = Ok out \<Longrightarrow> out = sort seats \<and> distinct seats \<and> seats \<noteq> [] \<and> (\<forall>s\<in>set seats. 1 \<le> s \<and> s \<le> 9)"
  by (auto simp: ordered_seats_def Let_def list_all_iff split: if_splits)

lemma find_sorted_least:
  "sorted xs \<Longrightarrow> find (\<lambda>s. s > (p::int)) xs = Some y \<Longrightarrow> y \<in> set xs \<and> p < y \<and> (\<forall>x\<in>set xs. p < x \<longrightarrow> y \<le> x)"
  by (induction xs) (auto split: if_splits)

text \<open>The clockwise distance from one seat to another on a table of nine seats, 1 to 9.\<close>

definition clockwise :: "int \<Rightarrow> int \<Rightarrow> int" where
  "clockwise a b = (if b > a then b - a else b - a + 9)"

lemma next_button_first:
  assumes "next_button prev seats = Ok b"
  shows "b \<in> set seats \<and> (\<forall>s\<in>set seats. clockwise prev b \<le> clockwise prev s)"
proof -
  obtain out where out: "ordered_seats seats = Ok out" "1 \<le> prev" "prev \<le> 9"
    "(case find (\<lambda>s. s > prev) out of Some s \<Rightarrow> Ok s | None \<Rightarrow> Ok (out ! 0)) = (Ok b :: (poker_error, int) res)"
    using assms by (auto simp: next_button_def res_simps split: if_splits)
  note o = ordered_seats_Ok[OF out(1)]
  have sorted: "sorted out" "set out = set seats" using o by simp_all
  show ?thesis
  proof (cases "find (\<lambda>s. s > prev) out")
    case (Some y)
    then have "b = y" using out(4) by simp
    with find_sorted_least[OF sorted(1) Some] sorted(2)
    have y: "b \<in> set seats" "prev < b" "\<forall>x\<in>set seats. prev < x \<longrightarrow> b \<le> x" by auto
    have "clockwise prev b \<le> clockwise prev s" if "s \<in> set seats" for s
    proof -
      have "1 \<le> s" "b \<le> 9" using o y(1) that by auto
      then show ?thesis using y(2,3) that by (auto simp: clockwise_def)
    qed
    then show ?thesis using y(1) by blast
  next
    case None
    then have b: "b = out ! 0" using out(4) by simp
    have le: "\<forall>s\<in>set out. s \<le> prev" using None by (auto simp: find_None_iff)
    have ne: "out \<noteq> []" using o by (metis sorted(2) set_empty)
    then have "b \<in> set out" using b by simp
    moreover have "\<forall>s\<in>set out. b \<le> s"
      using sorted(1) b ne by (cases out) auto
    ultimately show ?thesis using le sorted(2) by (auto simp: clockwise_def)
  qed
qed

lemma select_initial_button_valid:
  assumes "select_initial_button seats uniform = Ok c"
  shows "validate_button_choice c (sort seats) = Ok () \<and> bc_seat c \<in> set seats"
proof -
  obtain out i where "ordered_seats seats = Ok out" "0 \<le> i" "i < int (length out)"
    "c = \<lparr>bc_version = button_selection_version, bc_eligible = out, bc_draw = i, bc_seat = out ! nat i\<rparr>"
    using assms by (auto simp: select_initial_button_def res_simps split: if_splits)
  moreover from this(1) have "out = sort seats" using ordered_seats_Ok by blast
  moreover from calculation have "out ! nat i \<in> set out" by (intro nth_mem) (simp add: nat_less_iff)
  ultimately show ?thesis by (auto simp: validate_button_choice_def)
qed

end
