(* ===== verification/PokerFacts.thy ===== *)
theory PokerFacts
  imports PokerEngine PokerRankFacts "HOL-Library.List_Lexorder"
begin

text \<open>
  What the hand engine keeps: chips are neither created nor lost by any step, whole chips stay
  whole, pots share out exactly what the seats committed, and the loops return.
\<close>

named_theorems poker_frame "what the single steps leave unchanged"

subsection \<open>Frames\<close>

lemma emit_frame [poker_frame, simp]:
  "players (emit e now s) = players s" "cfg (emit e now s) = cfg s" "street (emit e now s) = street s"
  "board (emit e now s) = board s" "current_bet (emit e now s) = current_bet s"
  "ranks (emit e now s) = ranks s" "pots (emit e now s) = pots s" "returns (emit e now s) = returns s"
  "initial_total (emit e now s) = initial_total s" "receipts (emit e now s) = receipts s"
  "actor (emit e now s) = actor s" "deck_cursor (emit e now s) = deck_cursor s"
  "recovery_until (emit e now s) = recovery_until s" "full_raise_seq (emit e now s) = full_raise_seq s"
  "last_full_raise (emit e now s) = last_full_raise s"
  by (simp_all add: emit_def)

lemma set_actor_frame [poker_frame, simp]:
  "players (set_actor seat now s) = players s" "cfg (set_actor seat now s) = cfg s"
  "street (set_actor seat now s) = street s" "receipts (set_actor seat now s) = receipts s"
  "initial_total (set_actor seat now s) = initial_total s" "actor (set_actor seat now s) = seat"
  by (simp_all add: set_actor_def)

lemma deal_frame [poker_frame, simp]:
  "players (snd (deal seat v now s)) = players s" "cfg (snd (deal seat v now s)) = cfg s"
  "street (snd (deal seat v now s)) = street s" "board (snd (deal seat v now s)) = board s"
  "deck_cursor (snd (deal seat v now s)) = deck_cursor s + 1"
  "initial_total (snd (deal seat v now s)) = initial_total s"
  "receipts (snd (deal seat v now s)) = receipts s"
  by (simp_all add: deal_def Let_def)

lemma deal_board_frame [poker_frame, simp]:
  "players (deal_board n now s) = players s" "cfg (deal_board n now s) = cfg s"
  "street (deal_board n now s) = street s" "initial_total (deal_board n now s) = initial_total s"
  "receipts (deal_board n now s) = receipts s"
  by (induction n arbitrary: s) (simp_all add: split_def Let_def)

lemma next_street_frame [poker_frame, simp]:
  "players (next_street now s) = map fresh_street (players s)" "cfg (next_street now s) = cfg s"
  "street (next_street now s) = fst (street_after (street s))"
  "initial_total (next_street now s) = initial_total s" "receipts (next_street now s) = receipts s"
  by (simp_all add: next_street_def split_def Let_def)

lemma fresh_street_frame [simp]:
  "stack (fresh_street p) = stack p" "total_committed (fresh_street p) = total_committed p"
  "seat_no (fresh_street p) = seat_no p" "folded (fresh_street p) = folded p"
  by (simp_all add: fresh_street_def)

lemma drop_pending_frame [simp]:
  "stack (drop_pending p) = stack p" "total_committed (drop_pending p) = total_committed p"
  "seat_no (drop_pending p) = seat_no p" "folded (drop_pending p) = folded p"
  "street_committed (drop_pending p) = street_committed p"
  by (simp_all add: drop_pending_def)

lemma commit_frame [simp]:
  "stack (commit p d) = stack p - d" "total_committed (commit p d) = total_committed p + d"
  "street_committed (commit p d) = street_committed p + d"
  "seat_no (commit p d) = seat_no p" "folded (commit p d) = folded p"
  by (simp_all add: commit_def Let_def)

lemma note_actor_frame [simp]:
  "stack (note_actor t n p) = stack p" "total_committed (note_actor t n p) = total_committed p"
  "seat_no (note_actor t n p) = seat_no p" "folded (note_actor t n p) = folded p"
  "street_committed (note_actor t n p) = street_committed p"
  by (simp_all add: note_actor_def Let_def)

subsection \<open>Chips\<close>

definition chip_sum :: "participant list \<Rightarrow> int" where
  "chip_sum ps = sum_list (map (\<lambda>p. stack p + total_committed p) ps)"

definition chips :: "state \<Rightarrow> int" where
  "chips s = chip_sum (players s)"

lemma chip_sum_map:
  "(\<And>p. stack (f p) + total_committed (f p) = stack p + total_committed p) \<Longrightarrow> chip_sum (map f ps) = chip_sum ps"
  by (simp add: chip_sum_def o_def)

lemma chip_sum_upd_first:
  "(\<And>p. stack (f p) + total_committed (f p) = stack p + total_committed p) \<Longrightarrow>
   chip_sum (upd_first P f ps) = chip_sum ps"
  unfolding chip_sum_def by (induction ps) auto

lemma chips_upd_player:
  "(\<And>p. stack (f p) + total_committed (f p) = stack p + total_committed p) \<Longrightarrow>
   chips (upd_player seat f s) = chips s"
  by (simp add: chips_def upd_player_def chip_sum_upd_first)

lemma chips_emit [simp]: "chips (emit e now s) = chips s"
  by (simp add: chips_def)

lemma chips_next_street [simp]: "chips (next_street now s) = chips s"
  by (simp add: chips_def chip_sum_map)

lemma chips_set_actor [simp]: "chips (set_actor seat now s) = chips s"
  by (simp add: chips_def)

lemma chip_sum_list_update:
  "i < length ps \<Longrightarrow> stack q + total_committed q = stack (ps ! i) + total_committed (ps ! i) \<Longrightarrow>
   chip_sum (ps[i := q]) = chip_sum ps"
  unfolding chip_sum_def
  by (induction ps arbitrary: i) (auto split: nat.splits)

subsection \<open>Returning the uncalled top\<close>

lemma top_two_spec:
  "top_two i ps (h, sc, t) = (h', sc', t') \<Longrightarrow> sc \<le> h \<Longrightarrow>
    sc' \<le> h' \<and> h \<le> h' \<and> sc \<le> sc' \<and> (\<forall>p\<in>set ps. total_committed p \<le> h') \<and>
    (h' = h \<and> t' = t \<or> i \<le> t' \<and> t' < i + length ps \<and> total_committed (ps ! (t' - i)) = h')"
proof (induction ps arbitrary: i h sc t)
  case Nil
  then show ?case by simp
next
  case (Cons p ps)
  define acc where "acc = (if total_committed p > h then (total_committed p, h, i)
        else if total_committed p > sc then (h, total_committed p, t) else (h, sc, t))"
  obtain a b c where abc: "acc = (a, b, c)" by (cases acc)
  have step: "top_two (Suc i) ps (a, b, c) = (h', sc', t')"
    using Cons.prems(1) by (simp add: acc_def [symmetric] abc)
  have acc: "b \<le> a" "h \<le> a" "sc \<le> b" "total_committed p \<le> a"
    "(a = h \<and> c = t) \<or> (a = total_committed p \<and> c = i)"
    using abc Cons.prems(2) by (auto simp: acc_def split: if_splits)
  show ?case using Cons.IH[OF step acc(1)] acc by (auto simp: nth_Cons')
qed

lemma return_uncalled_chips [simp]: "chips (return_uncalled now s) = chips s"
proof -
  obtain h sc t where t: "top_two 0 (players s) (0, 0, 0) = (h, sc, t)" by (cases "top_two 0 (players s) (0, 0, 0)")
  show ?thesis
  proof (cases "h > sc")
    case True
    then have "t < length (players s)" using top_two_spec[OF t] by auto
    then have "chip_sum ((players s)[t := take_back (h - sc) (players s ! t)]) = chip_sum (players s)"
      by (rule chip_sum_list_update) (simp add: take_back_def)
    then show ?thesis using True t by (simp add: return_uncalled_def chips_def Let_def)
  qed (simp add: return_uncalled_def t)
qed

lemma return_uncalled_frame [simp]:
  "ranks (return_uncalled now s) = ranks s" "cfg (return_uncalled now s) = cfg s"
  "board (return_uncalled now s) = board s" "initial_total (return_uncalled now s) = initial_total s"
  "map seat_no (players (return_uncalled now s)) = map seat_no (players s)"
  "map folded (players (return_uncalled now s)) = map folded (players s)"
  "map hole (players (return_uncalled now s)) = map hole (players s)"
  "receipts (return_uncalled now s) = receipts s"
  by (auto simp: return_uncalled_def Let_def take_back_def map_list_update_same split: prod.splits)

lemma return_uncalled_maps:
  "(\<And>a p. g (take_back a p) = g p) \<Longrightarrow> map g (players (return_uncalled now s)) = map g (players s)"
  by (auto simp: return_uncalled_def Let_def map_list_update_same split: prod.splits)

subsection \<open>Sharing out one pot\<close>

definition award_of :: "int \<Rightarrow> int \<Rightarrow> nat \<Rightarrow> int \<Rightarrow> award" where
  "award_of base odd_chips i seat =
     (let extra = (if int i < odd_chips then units_per_chip else 0)
      in \<lparr>aw_seat = seat, aw_base = base, aw_odd = extra, aw_amount = base + extra\<rparr>)"

lemma chips_award:
  assumes "seat \<in> set (map seat_no (players s))"
  shows "chips (upd_player seat (\<lambda>p. p\<lparr>stack := stack p + a\<rparr>) s) = chips s + a"
proof -
  obtain p where "find (\<lambda>p. seat_no p = seat) (players s) = Some p"
    using assms by (cases "find (\<lambda>p. seat_no p = seat) (players s)") (auto simp: find_None_iff)
  then show ?thesis
    by (simp add: chips_def chip_sum_def upd_player_def sum_list_upd_first)
qed

lemma upd_player_maps:
  "(\<And>p. g (f p) = g p) \<Longrightarrow> map g (players (upd_player seat f s)) = map g (players s)"
  by (simp add: upd_player_def map_upd_first)

lemma upd_player_frame [poker_frame, simp]:
  "cfg (upd_player seat f s) = cfg s" "ranks (upd_player seat f s) = ranks s"
  "street (upd_player seat f s) = street s" "board (upd_player seat f s) = board s"
  "pots (upd_player seat f s) = pots s" "initial_total (upd_player seat f s) = initial_total s"
  "receipts (upd_player seat f s) = receipts s" "events (upd_player seat f s) = events s"
  "version (upd_player seat f s) = version s" "current_bet (upd_player seat f s) = current_bet s"
  "deck_cursor (upd_player seat f s) = deck_cursor s" "returns (upd_player seat f s) = returns s"
  by (simp_all add: upd_player_def)

lemma award_loop_spec:
  "award_loop i base oc sts now aws s = (aws', s') \<Longrightarrow> set sts \<subseteq> set (map seat_no (players s)) \<Longrightarrow>
   aws' = aws @ map (\<lambda>(j, seat). award_of base oc j seat) (enumerate i sts) \<and>
   chips s' = chips s + sum_list (map (\<lambda>(j, seat). aw_amount (award_of base oc j seat)) (enumerate i sts)) \<and>
   map total_committed (players s') = map total_committed (players s) \<and>
   map seat_no (players s') = map seat_no (players s) \<and> map folded (players s') = map folded (players s) \<and>
   cfg s' = cfg s \<and> ranks s' = ranks s \<and> pots s' = pots s \<and> initial_total s' = initial_total s \<and>
   receipts s' = receipts s \<and> board s' = board s"
proof (induction sts arbitrary: i aws s)
  case Nil
  then show ?case by simp
next
  case (Cons seat sts)
  define a where "a = award_of base oc i seat"
  define s1 where "s1 = emit ((event_of PotAward)\<lparr>ev_seat := seat, ev_delta := aw_amount a\<rparr>) now
      (upd_player seat (\<lambda>p. p\<lparr>stack := stack p + aw_amount a\<rparr>) s)"
  have rest: "award_loop (Suc i) base oc sts now (aws @ [a]) s1 = (aws', s')"
    using Cons.prems(1) by (simp add: s1_def a_def award_of_def Let_def)
  have s1: "chips s1 = chips s + aw_amount a"
    "map total_committed (players s1) = map total_committed (players s)"
    "map seat_no (players s1) = map seat_no (players s)" "map folded (players s1) = map folded (players s)"
    "cfg s1 = cfg s" "ranks s1 = ranks s" "pots s1 = pots s" "initial_total s1 = initial_total s"
    "receipts s1 = receipts s" "board s1 = board s"
    using Cons.prems(2) by (simp_all add: s1_def chips_award upd_player_maps)
  from Cons.IH[OF rest] Cons.prems(2) s1 show ?case by (simp add: a_def)
qed

lemma sum_extra_chips:
  "0 \<le> oc \<Longrightarrow> oc \<le> int (length xs) \<Longrightarrow>
   (\<Sum>(j, x)\<leftarrow>enumerate 0 xs. if int j < oc then units_per_chip else 0) = oc * units_per_chip"
proof (induction xs arbitrary: oc rule: rev_induct)
  case Nil
  then show ?case by simp
next
  case (snoc x xs)
  show ?case
  proof (cases "oc \<le> int (length xs)")
    case True
    then show ?thesis using snoc by (simp add: enumerate_append_eq)
  next
    case False
    then have oc: "oc = int (length xs) + 1" using snoc.prems by simp
    have "(\<Sum>(j, x)\<leftarrow>enumerate 0 xs. if int j < oc then units_per_chip else 0)
        = (\<Sum>(j, x)\<leftarrow>enumerate 0 xs. if int j < int (length xs) then units_per_chip else 0)"
      by (intro arg_cong[where f = sum_list] map_cong refl) (auto simp: in_set_enumerate_eq oc)
    also have "\<dots> = int (length xs) * units_per_chip" using snoc.IH[of "int (length xs)"] by simp
    finally show ?thesis by (simp add: enumerate_append_eq oc algebra_simps)
  qed
qed

text \<open>The shares of one pot add up to the pot, in whole chips, and differ by at most one chip.\<close>

lemma sum_enumerate_const: "(\<Sum>(j, x)\<leftarrow>enumerate n xs. (c::int)) = int (length xs) * c"
  by (induction xs arbitrary: n) (simp_all add: algebra_simps)

lemma award_shares:
  assumes "amount mod units_per_chip = 0" "winners \<noteq> []"
  shows "(\<Sum>(j, seat)\<leftarrow>enumerate 0 winners.
      aw_amount (award_of (amount div units_per_chip div int (length winners) * units_per_chip)
                          (amount div units_per_chip mod int (length winners)) j seat)) = amount"
proof -
  let ?n = "int (length winners)" and ?c = "amount div units_per_chip"
  have n: "0 < ?n" using assms(2) by simp
  have "(\<Sum>(j, seat)\<leftarrow>enumerate 0 winners.
      aw_amount (award_of (?c div ?n * units_per_chip) (?c mod ?n) j seat))
    = (\<Sum>(j, seat)\<leftarrow>enumerate 0 winners. ?c div ?n * units_per_chip)
      + (\<Sum>(j, seat)\<leftarrow>enumerate 0 winners. if int j < ?c mod ?n then units_per_chip else 0)"
    by (simp add: award_of_def Let_def split_def sum_list_addf)
  also have "\<dots> = ?n * (?c div ?n * units_per_chip) + ?c mod ?n * units_per_chip"
    using n by (simp only: sum_enumerate_const sum_extra_chips pos_mod_sign pos_mod_bound order_less_imp_le)
  also have "\<dots> = (?n * (?c div ?n) + ?c mod ?n) * units_per_chip" by (simp only: algebra_simps)
  also have "\<dots> = ?c * units_per_chip" by (simp only: mult_div_mod_eq)
  also have "\<dots> = amount" using assms(1) by (metis add.right_neutral div_mult_mod_eq)
  finally show ?thesis .
qed


subsection \<open>The winners\<close>

text \<open>\<open>compareRanks\<close> is the three-way comparison of the lexicographic order on vectors.\<close>

lemma compare_ranks_lex: "compare_ranks xs ys = (if xs = ys then 0 else if ys < xs then 1 else -1)"
  by (induction xs ys rule: compare_ranks.induct) auto

lemma best_seats_snoc:
  "best_seats vec (xs @ [x]) ws = best_seats vec [x] (best_seats vec xs ws)"
  by (induction xs arbitrary: ws) simp_all

lemma best_seats_eq: "best_seats vec xs [] = filter (\<lambda>x. \<forall>y\<in>set xs. vec y \<le> vec x) xs"
proof (induction xs rule: rev_induct)
  case Nil
  then show ?case by simp
next
  case (snoc x xs)
  let ?best = "filter (\<lambda>x. \<forall>y\<in>set xs. vec y \<le> vec x) xs"
  show ?case
  proof (cases "?best")
    case Nil
    have "xs = []"
    proof (rule ccontr)
      assume "xs \<noteq> []"
      then have "Max (vec ` set xs) \<in> vec ` set xs" by (intro Max_in) auto
      then obtain z where "z \<in> set xs" "vec z = Max (vec ` set xs)" by auto
      then have "z \<in> set ?best" by auto
      then show False using Nil by simp
    qed
    then show ?thesis by simp
  next
    case (Cons w ws)
    then have "w \<in> set ?best" by simp
    then have w: "w \<in> set xs" "\<forall>y\<in>set xs. vec y \<le> vec w" by auto
    consider "vec x < vec w" | "vec x = vec w" | "vec w < vec x" by (rule linorder_cases)
    then show ?thesis
    proof cases
      case 1
      then have "filter (\<lambda>z. (\<forall>y\<in>set xs. vec y \<le> vec z) \<and> vec x \<le> vec z) xs = ?best"
        using w by (intro filter_cong refl) (metis order_less_imp_le order_trans)
      moreover have "\<not> (\<forall>y\<in>set xs. vec y \<le> vec x)" using 1 w(1) by (meson leD)
      ultimately show ?thesis
        using 1 Cons snoc by (auto simp: best_seats_snoc compare_ranks_lex Let_def conj_commute)
    next
      case 2
      then have "filter (\<lambda>z. (\<forall>y\<in>set xs. vec y \<le> vec z) \<and> vec x \<le> vec z) xs = ?best"
        using w by (intro filter_cong refl) auto
      then show ?thesis
        using 2 Cons snoc w by (auto simp: best_seats_snoc compare_ranks_lex Let_def conj_commute)
    next
      case 3
      then have "filter (\<lambda>z. (\<forall>y\<in>set xs. vec y \<le> vec z) \<and> vec x \<le> vec z) xs = []"
        using w by (auto simp: filter_empty_conv not_le intro: le_less_trans)
      moreover have "\<forall>y\<in>set xs. vec y \<le> vec x" using 3 w by (meson less_imp_le order_trans)
      ultimately show ?thesis
        using 3 Cons snoc by (auto simp: best_seats_snoc compare_ranks_lex Let_def conj_commute)
    qed
  qed
qed

lemma best_seats_ne: "xs \<noteq> [] \<Longrightarrow> best_seats vec xs [] \<noteq> []"
proof -
  assume "xs \<noteq> []"
  then have "Max (vec ` set xs) \<in> vec ` set xs" by (intro Max_in) auto
  then obtain z where "z \<in> set xs" "vec z = Max (vec ` set xs)" by auto
  then have "z \<in> set (best_seats vec xs [])" by (auto simp: best_seats_eq)
  then show ?thesis by auto
qed

lemma mset_rotate_first: "mset (if 1 < length ws \<and> Q then tl ws @ [hd ws] else ws) = mset ws"
  by (cases ws) simp_all

lemma mset_from_button [simp]: "mset (from_button b ws) = mset ws"
  unfolding from_button_def Let_def mset_rotate_first by simp

lemma set_from_button [simp]: "set (from_button b ws) = set ws"
  by (metis mset_from_button set_mset_mset)

lemma length_from_button [simp]: "length (from_button b ws) = length ws"
  by (metis mset_from_button size_mset)

definition pot_winners :: "int \<Rightarrow> state \<Rightarrow> int list" where
  "pot_winners level s = from_button (button_seat (cfg s)) (best_seats (rank_vector s) (eligible_seats level (players s)) [])"

lemma set_pot_winners:
  "set (pot_winners level s) = {x \<in> set (eligible_seats level (players s)).
     \<forall>y\<in>set (eligible_seats level (players s)). rank_vector s y \<le> rank_vector s x}"
  by (auto simp: pot_winners_def best_seats_eq)


subsection \<open>One pot, all pots\<close>

text \<open>What the awards of a settlement leave alone.\<close>

definition same_table :: "state \<Rightarrow> state \<Rightarrow> bool" where
  "same_table s s' \<longleftrightarrow>
     map total_committed (players s') = map total_committed (players s) \<and>
     map seat_no (players s') = map seat_no (players s) \<and> map folded (players s') = map folded (players s) \<and>
     cfg s' = cfg s \<and> ranks s' = ranks s \<and> initial_total s' = initial_total s \<and>
     receipts s' = receipts s \<and> board s' = board s"

lemma same_table_refl [simp]: "same_table s s"
  by (simp add: same_table_def)

lemma same_table_trans: "same_table s s' \<Longrightarrow> same_table s' s'' \<Longrightarrow> same_table s s''"
  by (simp add: same_table_def)

lemma pot_layer_map: "pot_layer l p ps = sum_list (map (\<lambda>t. if t \<ge> l then l - p else 0) (map total_committed ps))"
  by (simp add: pot_layer_def o_def)

lemma map_filter_3:
  "map f (filter (\<lambda>p. P (g p) \<and> \<not> h p) ps) =
   map fst (filter (\<lambda>(_, t, b). P t \<and> \<not> b) (zip (map f ps) (zip (map g ps) (map h ps))))"
  by (induction ps) simp_all

lemma same_table_layers:
  assumes "same_table s s'"
  shows "pot_layer l p (players s') = pot_layer l p (players s)"
    "eligible_seats l (players s') = eligible_seats l (players s)"
    "rank_vector s' = rank_vector s"
    "pot_winners l s' = pot_winners l s"
proof -
  show 1: "pot_layer l p (players s') = pot_layer l p (players s)"
    using assms by (simp only: pot_layer_map same_table_def)
  show 2: "eligible_seats l (players s') = eligible_seats l (players s)"
    using assms unfolding eligible_seats_def same_table_def
    by (subst (1 2) map_filter_3[where P = "\<lambda>t. l \<le> t"]) simp
  show 3: "rank_vector s' = rank_vector s"
    using assms by (simp add: rank_vector_def same_table_def fun_eq_iff)
  show "pot_winners l s' = pot_winners l s"
    using assms 2 3 by (simp add: pot_winners_def same_table_def)
qed

definition pot_shares :: "int \<Rightarrow> int list \<Rightarrow> award list" where
  "pot_shares amount winners =
     map (\<lambda>(j, seat). award_of (amount div units_per_chip div int (length winners) * units_per_chip)
        (amount div units_per_chip mod int (length winners)) j seat) (enumerate 0 winners)"

definition pot_made :: "nat \<Rightarrow> int \<Rightarrow> int \<Rightarrow> state \<Rightarrow> pot" where
  "pot_made n level previous s =
     \<lparr>pot_index = n, pot_amount = pot_layer level previous (players s), pot_floor = previous,
      pot_ceiling = level, pot_eligible = eligible_seats level (players s),
      pot_awards = pot_shares (pot_layer level previous (players s)) (pot_winners level s)\<rparr>"

lemma pot_shares_sum:
  "amount mod units_per_chip = 0 \<Longrightarrow> winners \<noteq> [] \<Longrightarrow> sum_list (map aw_amount (pot_shares amount winners)) = amount"
  using award_shares[of amount winners] by (simp add: pot_shares_def o_def split_def)

lemma award_pot_Ok:
  assumes "award_pot level previous now s = Ok s'"
    "pot_layer level previous (players s) mod units_per_chip = 0"
  shows "pots s' = pots s @ [pot_made (length (pots s)) level previous s] \<and> same_table s s' \<and>
    eligible_seats level (players s) \<noteq> [] \<and> chips s' = chips s + pot_layer level previous (players s)"
proof -
  let ?am = "pot_layer level previous (players s)" and ?el = "eligible_seats level (players s)"
  let ?ws = "pot_winners level s"
  let ?base = "?am div units_per_chip div int (length ?ws) * units_per_chip"
  let ?odd = "?am div units_per_chip mod int (length ?ws)"
  have el: "?el \<noteq> []" using assms(1) by (auto simp: award_pot_def Let_def split: if_splits)
  obtain aws s1 where l: "award_loop 0 ?base ?odd ?ws now [] s = (aws, s1)"
    by (cases "award_loop 0 ?base ?odd ?ws now [] s")
  have s': "s' = s1\<lparr>pots := pots s1 @ [\<lparr>pot_index = length (pots s), pot_amount = ?am, pot_floor = previous,
                     pot_ceiling = level, pot_eligible = ?el, pot_awards = aws\<rparr>]\<rparr>"
    using assms(1) el l by (simp add: award_pot_def Let_def pot_winners_def)
  have "set ?ws \<subseteq> set (map seat_no (players s))"
    by (auto simp: set_pot_winners eligible_seats_def)
  note spec = award_loop_spec[OF l this]
  have ws: "?ws \<noteq> []"
    using el best_seats_ne by (metis pot_winners_def length_0_conv length_from_button)
  have sum: "(\<Sum>(j, seat)\<leftarrow>enumerate 0 ?ws. aw_amount (award_of ?base ?odd j seat)) = ?am"
    by (rule award_shares[OF assms(2) ws])
  have aws: "aws = pot_shares ?am ?ws" using spec by (simp add: pot_shares_def)
  show ?thesis
    using spec sum el aws by (simp add: s' same_table_def pot_made_def chips_def)
qed

fun pot_list :: "nat \<Rightarrow> int list \<Rightarrow> int \<Rightarrow> state \<Rightarrow> pot list" where
  "pot_list n [] previous s = []"
| "pot_list n (level # levels) previous s =
     (if level = previous then pot_list n levels previous s
      else pot_made n level previous s # pot_list (Suc n) levels level s)"

lemma pot_made_same: "same_table s s' \<Longrightarrow> pot_made n l p s' = pot_made n l p s"
  by (simp add: pot_made_def same_table_layers)

lemma pot_list_same: "same_table s s' \<Longrightarrow> pot_list n ls p s' = pot_list n ls p s"
  by (induction ls arbitrary: n p) (simp_all add: pot_made_same)

lemma pot_layer_whole:
  "l mod units_per_chip = 0 \<Longrightarrow> p mod units_per_chip = 0 \<Longrightarrow> pot_layer l p ps mod units_per_chip = (0::int)"
  unfolding pot_layer_def
  by (induction ps) (auto simp: mod_eq_0_iff_dvd intro!: dvd_add dvd_diff)

lemma award_pots_Ok:
  assumes "award_pots levels previous now s = Ok s'"
    "\<forall>l\<in>set levels. l mod units_per_chip = 0" "previous mod units_per_chip = 0"
  shows "pots s' = pots s @ pot_list (length (pots s)) levels previous s \<and> same_table s s' \<and>
    chips s' = chips s + sum_list (map pot_amount (pot_list (length (pots s)) levels previous s))"
  using assms
proof (induction levels arbitrary: previous s)
  case Nil
  then show ?case by simp
next
  case (Cons level levels)
  show ?case
  proof (cases "level = previous")
    case True
    then show ?thesis using Cons by simp
  next
    case False
    then obtain s1 where s1: "award_pot level previous now s = Ok s1" "award_pots levels level now s1 = Ok s'"
      using Cons.prems(1) by (auto simp: res_simps)
    have "pot_layer level previous (players s) mod units_per_chip = 0"
      using Cons.prems(2,3) by (simp add: pot_layer_whole)
    note one = award_pot_Ok[OF s1(1) this]
    note rest = Cons.IH[OF s1(2)]
    show ?thesis
      using one rest Cons.prems(2,3) False
      by (auto simp: pot_list_same[of s s1] pot_made_def intro: same_table_trans)
  qed
qed

subsection \<open>The layers add up to the commitments\<close>

text \<open>Over increasing levels that hold every commitment above the floor, the layers of one
  commitment telescope.\<close>

fun layer_sum :: "int list \<Rightarrow> int \<Rightarrow> int \<Rightarrow> int" where
  "layer_sum [] previous t = 0"
| "layer_sum (level # levels) previous t =
     (if level = previous then layer_sum levels previous t
      else (if t \<ge> level then level - previous else 0) + layer_sum levels level t)"

lemma layer_sum_telescopes:
  "sorted (previous # levels) \<Longrightarrow> t \<in> set levels \<or> t \<le> previous \<Longrightarrow> layer_sum levels previous t = max 0 (t - previous)"
proof (induction levels arbitrary: previous)
  case Nil
  then show ?case by simp
next
  case (Cons level levels)
  show ?case
  proof (cases "level = previous")
    case True
    then show ?thesis using Cons.prems Cons.IH[of previous] by auto
  next
    case False
    then have "previous < level" using Cons.prems(1) by auto
    moreover have "t \<in> set levels \<or> t \<le> level" using Cons.prems(2) False \<open>previous < level\<close> by auto
    moreover have "t \<ge> level \<or> t \<le> previous" using Cons.prems by auto
    ultimately show ?thesis using Cons.IH[of level] Cons.prems(1) by auto
  qed
qed

lemma pot_list_sum:
  "sum_list (map pot_amount (pot_list n levels previous s)) =
   (\<Sum>p\<leftarrow>players s. layer_sum levels previous (total_committed p))"
proof (induction levels arbitrary: n previous)
  case Nil
  then show ?case by (simp add: sum_list_0)
next
  case (Cons level levels)
  then show ?case
    by (simp add: pot_made_def pot_layer_def sum_list_addf)
qed

lemma commitment_levels_sum:
  assumes "\<forall>p\<in>set (players s). total_committed p \<ge> 0"
  shows "sum_list (map pot_amount (pot_list n (commitment_levels (players s)) 0 s)) = current_pot s"
  unfolding pot_list_sum current_pot_def
proof (intro arg_cong[where f = sum_list] map_cong refl)
  fix p assume "p \<in> set (players s)"
  then have "layer_sum (commitment_levels (players s)) 0 (total_committed p) = max 0 (total_committed p - 0)"
    using assms by (intro layer_sum_telescopes) (auto simp: commitment_levels_def)
  then show "layer_sum (commitment_levels (players s)) 0 (total_committed p) = total_committed p"
    using assms \<open>p \<in> set (players s)\<close> by auto
qed


subsection \<open>Whole chips\<close>

definition money_ok :: "participant \<Rightarrow> bool" where
  "money_ok p \<longleftrightarrow> whole_units (stack p) \<and> whole_units (total_committed p) \<and>
     whole_units (street_committed p) \<and> street_committed p \<le> total_committed p"

definition table_ok :: "state \<Rightarrow> bool" where
  "table_ok s \<longleftrightarrow> (\<forall>p\<in>set (players s). money_ok p)"

lemma whole_units_arith:
  "whole_units a \<Longrightarrow> whole_units b \<Longrightarrow> whole_units (a + b)"
  "whole_units a \<Longrightarrow> whole_units b \<Longrightarrow> b \<le> a \<Longrightarrow> whole_units (a - b)"
  "whole_units a \<Longrightarrow> whole_units b \<Longrightarrow> whole_units (min a b)"
  "whole_units a \<Longrightarrow> whole_units b \<Longrightarrow> whole_units (max a b)"
  "whole_units 0"
  by (auto simp: whole_units_def mod_eq_0_iff_dvd min_def max_def)

lemma whole_units_share: "0 \<le> c \<Longrightarrow> whole_units (c * units_per_chip)"
  by (simp add: whole_units_def units_per_chip_def)

lemma whole_chip: "whole_units units_per_chip"
  by (simp add: whole_units_def units_per_chip_def)

lemma top_two_whole:
  "top_two i ps (h, sc, t) = (h', sc', t') \<Longrightarrow> whole_units h \<Longrightarrow> whole_units sc \<Longrightarrow>
   \<forall>p\<in>set ps. whole_units (total_committed p) \<Longrightarrow> whole_units h' \<and> whole_units sc'"
  by (induction ps arbitrary: i h sc t) (auto split: if_splits)

lemma table_ok_return_uncalled [simp]:
  assumes "table_ok s"
  shows "table_ok (return_uncalled now s)"
proof -
  obtain h sc t where t: "top_two 0 (players s) (0, 0, 0) = (h, sc, t)" by (cases "top_two 0 (players s) (0, 0, 0)")
  have w: "whole_units h" "whole_units sc"
    using top_two_whole[OF t] assms by (auto simp: table_ok_def money_ok_def whole_units_arith)
  show ?thesis
  proof (cases "h > sc")
    case True
    have "h \<noteq> 0" using True w by (auto simp: whole_units_def)
    then have i: "t < length (players s)" and tc: "total_committed (players s ! t) = h"
      using top_two_spec[OF t] by auto
    have "0 \<le> sc" using w by (simp add: whole_units_def)
    have m: "money_ok (players s ! t)" using assms i by (auto simp: table_ok_def)
    have "whole_units (h - sc)" using w True by (simp add: whole_units_arith)
    then have "money_ok (take_back (h - sc) (players s ! t))"
      using m tc w True \<open>0 \<le> sc\<close> by (auto simp: money_ok_def take_back_def whole_units_arith min_def)
    then have "\<forall>p\<in>set ((players s)[t := take_back (h - sc) (players s ! t)]). money_ok p"
      using assms set_update_subset_insert by (fastforce simp: table_ok_def)
    then show ?thesis using True t by (simp add: return_uncalled_def table_ok_def Let_def)
  qed (use assms t in \<open>simp add: return_uncalled_def\<close>)
qed

lemma table_ok_upd:
  "table_ok s \<Longrightarrow> (\<And>p. p \<in> set (players s) \<Longrightarrow> seat_no p = seat \<Longrightarrow> money_ok p \<Longrightarrow> money_ok (f p)) \<Longrightarrow>
   table_ok (upd_player seat f s)"
  by (auto simp: table_ok_def upd_player_def dest!: upd_first_member)

lemma table_ok_emit [simp]: "table_ok (emit e now s) = table_ok s"
  by (simp add: table_ok_def)

lemma table_ok_pots [simp]: "table_ok (s\<lparr>pots := x\<rparr>) = table_ok s"
  by (simp add: table_ok_def)

lemma table_ok_award_loop:
  "award_loop i base oc sts now aws s = (aws', s') \<Longrightarrow> whole_units base \<Longrightarrow> table_ok s \<Longrightarrow> table_ok s'"
proof (induction sts arbitrary: i aws s)
  case Nil
  then show ?case by simp
next
  case (Cons seat sts)
  have w: "whole_units (base + (if int i < oc then units_per_chip else 0))"
    using Cons.prems(2) by (simp add: whole_units_arith whole_chip)
  show ?case
    by (rule Cons.IH[OF Cons.prems(1)[unfolded award_loop.simps Let_def award.simps] Cons.prems(2)])
       (use Cons.prems w in \<open>auto intro!: table_ok_upd simp: money_ok_def whole_units_arith\<close>)
qed

lemma pot_layer_nonneg: "p \<le> l \<Longrightarrow> 0 \<le> pot_layer l p ps"
  unfolding pot_layer_def by (auto intro!: sum_list_nonneg)

lemma table_ok_award_pot:
  assumes "award_pot level previous now s = Ok s'" "previous \<le> level" "table_ok s"
  shows "table_ok s'"
proof -
  let ?am = "pot_layer level previous (players s)" and ?ws = "pot_winners level s"
  let ?base = "?am div units_per_chip div int (length ?ws) * units_per_chip"
  let ?odd = "?am div units_per_chip mod int (length ?ws)"
  obtain aws s1 where l: "award_loop 0 ?base ?odd ?ws now [] s = (aws, s1)"
    by (cases "award_loop 0 ?base ?odd ?ws now [] s")
  have "0 \<le> ?am div units_per_chip"
    using pot_layer_nonneg[OF assms(2), of "players s"] by (simp add: units_per_chip_def)
  then have "0 \<le> ?am div units_per_chip div int (length ?ws)"
    by (cases "length ?ws = 0") (simp_all add: pos_imp_zdiv_nonneg_iff)
  then have "table_ok s1" using table_ok_award_loop[OF l] assms(3) by (simp add: whole_units_share)
  then show ?thesis
    using assms(1) l by (auto simp: award_pot_def Let_def pot_winners_def split: if_splits)
qed

lemma table_ok_award_pots:
  "award_pots levels previous now s = Ok s' \<Longrightarrow> sorted (previous # levels) \<Longrightarrow> table_ok s \<Longrightarrow> table_ok s'"
proof (induction levels arbitrary: previous s)
  case (Cons level levels)
  then show ?case
    by (auto simp: res_simps split: if_splits) (metis table_ok_award_pot)+
qed simp

subsection \<open>Settlement\<close>

lemma showdown_frame:
  "showdown ev now s = Ok s' \<Longrightarrow>
   players s' = players s \<and> cfg s' = cfg s \<and> pots s' = pots s \<and> returns s' = returns s \<and>
   initial_total s' = initial_total s \<and> receipts s' = receipts s \<and> street s' = street s"
  by (auto simp: showdown_def Let_def res_simps split: if_splits)

lemma clear_seat_chips: "sum_list (map (\<lambda>p. stack p + total_committed p) (map clear_seat ps)) =
    sum_list (map (\<lambda>p. stack p + total_committed p) ps) - sum_list (map total_committed ps)"
  by (induction ps) (simp_all add: clear_seat_def)

text \<open>The state between the showdown and the awards: the one the pots are computed from.\<close>

theorem settle_Ok:
  assumes "settle ev now s = Ok s'" "table_ok s"
  obtains t where "showdown ev now (return_uncalled now s) = Ok t"
    "pots s' = pots s @ pot_list (length (pots s)) (commitment_levels (players t)) 0 t"
    "chips s' = chips s" "table_ok s'" "street s' = Settled" "actor s' = 0"
    "\<forall>p\<in>set (players s'). total_committed p = 0 \<and> street_committed p = 0 \<and> \<not> pending p"
    "map seat_no (players s') = map seat_no (players s)" "map folded (players s') = map folded (players s)"
    "cfg s' = cfg s" "initial_total s' = initial_total s" "receipts s' = receipts s"
    "\<forall>p\<in>set (players t). money_ok p"
    "sum_list (map pot_amount (pot_list (length (pots s)) (commitment_levels (players t)) 0 t)) = current_pot t"
proof -
  let ?r = "return_uncalled now s"
  obtain t u where t: "showdown ev now ?r = Ok t"
    and u: "award_pots (commitment_levels (players ?r)) 0 now t = Ok u"
    and s': "s' = emit (event_of SystemSettlement) now
       (u\<lparr>players := map clear_seat (players u), actor := 0, current_bet := 0, started_at := 0, deadline := 0, street := Settled\<rparr>)"
    using assms(1) by (auto simp: settle_def Let_def res_simps)
  note sf = showdown_frame[OF t]
  have tok: "table_ok t" using sf table_ok_return_uncalled[OF assms(2), of now] by (simp add: table_ok_def)
  let ?ls = "commitment_levels (players t)"
  have ls: "\<forall>l\<in>set ?ls. l mod units_per_chip = 0"
    using tok by (auto simp: commitment_levels_def table_ok_def money_ok_def whole_units_def)
  have u': "award_pots ?ls 0 now t = Ok u" using u sf by simp
  have sorted: "sorted (0 # ?ls)" by (auto simp: commitment_levels_def)
  note ap = award_pots_Ok[OF u' ls]
  have pr: "pots ?r = pots s" by (auto simp: return_uncalled_def Let_def split: prod.splits)
  have nn: "\<forall>p\<in>set (players t). total_committed p \<ge> 0"
    using tok by (auto simp: table_ok_def money_ok_def whole_units_def)
  have cp: "current_pot u = current_pot t" using ap by (simp add: current_pot_def same_table_def)
  have "chips u = chips t + current_pot t"
    using ap commitment_levels_sum[OF nn] by simp
  moreover have "chips t = chips s" using sf return_uncalled_chips[of now s] by (simp add: chips_def)
  moreover have "chips s' = chips u - current_pot u"
    by (simp add: s' chips_def chip_sum_def clear_seat_chips current_pot_def del: map_map)
  ultimately have c: "chips s' = chips s" using cp by simp
  have uok: "table_ok u" by (rule table_ok_award_pots[OF u' sorted tok])
  show ?thesis
  proof (rule that[OF t])
    show "pots s' = pots s @ pot_list (length (pots s)) ?ls 0 t" using ap pr sf by (simp add: s')
    show "chips s' = chips s" by (rule c)
    show "table_ok s'" using uok by (auto simp: s' table_ok_def money_ok_def clear_seat_def whole_units_arith)
    show "map seat_no (players s') = map seat_no (players s)" "map folded (players s') = map folded (players s)"
      using ap sf by (simp_all add: s' same_table_def o_def clear_seat_def)
    show "\<forall>p\<in>set (players s'). total_committed p = 0 \<and> street_committed p = 0 \<and> \<not> pending p"
      by (simp add: s' clear_seat_def)
    show "sum_list (map pot_amount (pot_list (length (pots s)) ?ls 0 t)) = current_pot t"
      by (rule commitment_levels_sum[OF nn])
    show "\<forall>p\<in>set (players t). money_ok p" using tok by (simp add: table_ok_def)
  qed (use ap sf in \<open>simp_all add: s' same_table_def\<close>)
qed


subsection \<open>The progress loop\<close>

text \<open>What every operation on a running hand keeps.\<close>

definition kept :: "state \<Rightarrow> state \<Rightarrow> bool" where
  "kept s s' \<longleftrightarrow> chips s' = chips s \<and> cfg s' = cfg s \<and> initial_total s' = initial_total s \<and>
     receipts s' = receipts s \<and> map seat_no (players s') = map seat_no (players s)"

lemma kept_trans: "kept s t \<Longrightarrow> kept t u \<Longrightarrow> kept s u"
  by (simp add: kept_def)

lemma kept_refl [simp]: "kept s s"
  by (simp add: kept_def)

lemma kept_simple [simp]:
  "kept s (emit e now s)" "kept s (set_actor seat now s)"
  "kept s (s\<lparr>players := map drop_pending (players s)\<rparr>)"
  by (simp_all add: kept_def chips_def chip_sum_map o_def)

lemma kept_next_street [simp]: "kept s (next_street now s)"
  by (simp add: kept_def o_def)

lemma kept_settle: "settle ev now s = Ok s' \<Longrightarrow> table_ok s \<Longrightarrow> kept s s'"
  by (elim settle_Ok) (simp_all add: kept_def)

lemma table_ok_settle: "settle ev now s = Ok s' \<Longrightarrow> table_ok s \<Longrightarrow> table_ok s'"
  by (elim settle_Ok)

lemma money_ok_fresh [simp]: "money_ok p \<Longrightarrow> money_ok (fresh_street p)"
  by (auto simp: money_ok_def fresh_street_def whole_units_def)

lemma table_ok_simple [simp]:
  "table_ok s \<Longrightarrow> table_ok (set_actor seat now s)"
  "table_ok s \<Longrightarrow> table_ok (s\<lparr>players := map drop_pending (players s)\<rparr>)"
  "table_ok s \<Longrightarrow> table_ok (next_street now s)"
  by (simp_all add: table_ok_def, simp add: money_ok_def)

lemma runout_Ok:
  "runout n now s = Ok s' \<Longrightarrow> table_ok s \<Longrightarrow> kept s s' \<and> table_ok s' \<and> street s' = River"
proof (induction n arbitrary: s)
  case (Suc n)
  then show ?case
    using kept_trans[OF kept_next_street, of now s s'] by (auto split: if_splits)
qed (auto split: if_splits)

lemma progress_loop_Ok:
  "progress_loop n ev after now s = Ok s' \<Longrightarrow> table_ok s \<Longrightarrow> kept s s' \<and> table_ok s'"
proof (induction n arbitrary: after s)
  case (Suc n)
  define d where "d = s\<lparr>players := map drop_pending (players s)\<rparr>"
  have d: "kept s d" "table_ok d" using Suc.prems(2) by (simp_all add: d_def)
  define live where "live = filter (\<lambda>p. \<not> folded p) (players s)"
  define active where "active = filter (\<lambda>p. stack p > 0) live"
  define needs where "needs = (active \<noteq> [] \<and> list_ex (\<lambda>p. seat_no p \<noteq> seat_no (last active) \<and>
                              street_committed p > street_committed (last active)) (players d))"
  define nxt where "nxt = next_seat d after (\<lambda>p. pending p \<and> \<not> folded p \<and> stack p > 0)"
  have eq: "progress_loop (Suc n) ev after now s =
     (if length live = 1 then settle ev now d
      else if length active \<le> 1 \<and> \<not> needs then bindr (runout 3 now (emit (event_of AllInRunout) now d)) (settle ev now)
      else if nxt \<noteq> 0 then Ok (set_actor nxt now d)
      else if street d = River then settle ev now d
      else progress_loop n ev (button_seat (cfg d)) now (next_street now d))"
    by (simp only: progress_loop.simps Let_def d_def live_def active_def needs_def nxt_def)
  consider (settle) "settle ev now d = Ok s'"
    | (run) t where "runout 3 now (emit (event_of AllInRunout) now d) = Ok t" "settle ev now t = Ok s'"
    | (act) "s' = set_actor nxt now d"
    | (loop) "progress_loop n ev (button_seat (cfg d)) now (next_street now d) = Ok s'"
    using Suc.prems(1)[unfolded eq]
    by (cases "length live = 1"; cases "length active \<le> 1 \<and> \<not> needs"; cases "nxt \<noteq> 0"; cases "street d = River")
       (simp_all only: if_True if_False bindr_Ok_iff res.inject simp_thms, blast+)
  then show ?case
  proof cases
    case settle
    then show ?thesis using d kept_settle table_ok_settle kept_trans by blast
  next
    case run
    then have "kept (emit (event_of AllInRunout) now d) t \<and> table_ok t" using runout_Ok d(2) by fastforce
    then show ?thesis using run(2) d kept_settle table_ok_settle kept_trans kept_simple(1) by metis
  next
    case act
    then show ?thesis using d kept_trans by auto
  next
    case loop
    then show ?thesis using Suc.IH[OF loop] d kept_trans kept_next_street table_ok_simple(3) by blast
  qed
qed simp

lemma progress_Ok: "progress ev after now s = Ok s' \<Longrightarrow> table_ok s \<Longrightarrow> kept s s' \<and> table_ok s'"
  unfolding progress_def by (rule progress_loop_Ok)

text \<open>Three changes of street separate a hand from the river, so the fuel of both loops suffices.\<close>

fun streets_left :: "street \<Rightarrow> nat option" where
  "streets_left Preflop = Some 3"
| "streets_left Flop = Some 2"
| "streets_left Turn = Some 1"
| "streets_left River = Some 0"
| "streets_left _ = None"

lemma streets_left_next: "streets_left st = Some (Suc k) \<Longrightarrow> streets_left (fst (street_after st)) = Some k"
  by (cases st) auto

lemma streets_left_0: "streets_left st = Some 0 \<longleftrightarrow> st = River"
  by (cases st) auto

lemma runout_returns: "streets_left (street s) = Some k \<Longrightarrow> k \<le> n \<Longrightarrow> \<exists>s'. runout n now s = Ok s'"
proof (induction n arbitrary: s k)
  case 0
  then show ?case by (simp add: streets_left_0)
next
  case (Suc n)
  show ?case
  proof (cases k)
    case 0
    then show ?thesis using Suc.prems by (simp add: streets_left_0)
  next
    case (Suc j)
    have "streets_left (street (next_street now s)) = Some j"
      using Suc Suc.prems(1) by (simp add: streets_left_next)
    moreover have "j \<le> n" using Suc Suc.prems(2) by simp
    ultimately show ?thesis using Suc.IH by auto
  qed
qed

lemma award_pots_returns: "award_pots ls p now s \<noteq> Hang"
proof (induction ls arbitrary: p s)
  case (Cons l ls)
  have "award_pot l p now s \<noteq> Hang" by (simp add: award_pot_def Let_def split: prod.splits)
  then show ?case using Cons by (auto simp: bindr_Hang_iff)
qed simp

text \<open>The contract between the engine and its evaluator: it returns, and a rank it returns is
  well-formed for the version asked for.\<close>

locale returning_evaluator =
  fixes ev :: evaluator
  assumes returns: "ev h b v \<noteq> Hang"
begin

lemma rank_players_returns: "rank_players ev s ps \<noteq> Hang"
  by (induction ps) (auto simp: bindr_Hang_iff returns)

lemma settle_returns: "settle ev now s \<noteq> Hang"
  by (auto simp: settle_def showdown_def Let_def bindr_Hang_iff award_pots_returns rank_players_returns
      split: if_splits)

lemma progress_loop_returns:
  "streets_left (street s) = Some k \<Longrightarrow> k < n \<Longrightarrow> progress_loop n ev after now s \<noteq> Hang"
proof (induction n arbitrary: after s k)
  case (Suc n)
  have run: "bindr (runout 3 now t) (settle ev now) \<noteq> Hang" if "street t = street s" for t
  proof -
    have "k \<le> 3" using Suc.prems(1) by (cases "street s") auto
    then obtain u where "runout 3 now t = Ok u" using runout_returns[of t k 3] Suc.prems(1) \<open>street t = street s\<close> by auto
    then show ?thesis by (simp add: settle_returns)
  qed
  show ?case
  proof (cases k)
    case 0
    then have "street s = River" using Suc.prems by (simp add: streets_left_0)
    then show ?thesis using run settle_returns by (auto simp: Let_def)
  next
    case (Suc j)
    have "streets_left (street (next_street now t)) = Some j" if "street t = street s" for t
      using Suc Suc.prems(1) that by (simp add: streets_left_next)
    then have "progress_loop n ev a now (next_street now t) \<noteq> Hang" if "street t = street s" for a t
      using Suc.IH Suc Suc.prems(2) that by auto
    then show ?thesis using run settle_returns by (auto simp: Let_def)
  qed
qed simp

lemma progress_returns:
  "street s \<in> {Preflop, Flop, Turn, River} \<Longrightarrow> progress ev after now s \<noteq> Hang"
proof -
  assume "street s \<in> {Preflop, Flop, Turn, River}"
  then obtain k where "streets_left (street s) = Some k" "k < 4" by auto
  then show ?thesis unfolding progress_def by (rule progress_loop_returns)
qed

end

end
