(* ===== verification/PokerPlay.thy ===== *)
theory PokerPlay
  imports PokerFacts
begin

text \<open>
  What the operations on a validated hand do: actions move only the actor's own chips and never
  more than the stack, every operation conserves chips, replays and stale or late requests
  change nothing, and the events count the versions.
\<close>

subsection \<open>What validation says\<close>

lemma check_seats_Some:
  "check_seats s ps prev ids tot ini = Some (t, i) \<Longrightarrow> 0 \<le> tot \<Longrightarrow> tot \<le> max_int64 \<Longrightarrow>
   (\<forall>p\<in>set ps. money_ok p \<and> 1 \<le> seat_no p \<and> seat_no p \<le> 9 \<and> prev < seat_no p \<and> 0 < initial_stack p \<and>
      stack p + total_committed p \<le> max_int64) \<and>
   t = tot + chip_sum ps \<and> t \<le> max_int64 \<and> i = ini + sum_list (map initial_stack ps) \<and>
   sorted_wrt (<) (map seat_no ps)"
proof (induction ps arbitrary: prev ids tot ini)
  case Nil
  then show ?case by (auto simp: chip_sum_def)
next
  case (Cons p ps)
  then have step: "check_seats s ps (seat_no p) (player_id p # ids) (tot + stack p + total_committed p)
      (ini + initial_stack p) = Some (t, i)"
    and p: "money_ok p" "1 \<le> seat_no p" "seat_no p \<le> 9" "prev < seat_no p" "0 < initial_stack p"
      "tot + stack p + total_committed p \<le> max_int64"
    by (auto simp: money_ok_def split: if_splits)
  have nn: "0 \<le> stack p" "0 \<le> total_committed p" using p(1) by (auto simp: money_ok_def whole_units_def)
  from Cons.IH[OF step] nn Cons.prems p show ?case
    by (fastforce simp: chip_sum_def)
qed

lemma validate_state_money:
  assumes "validate_state s"
  shows "table_ok s" "chips s = initial_total s" "initial_total s \<le> max_int64"
    "sum_list (map initial_stack (players s)) = initial_total s" "distinct (map seat_no (players s))"
    "\<forall>p\<in>set (players s). stack p + total_committed p \<le> max_int64"
    "\<forall>p\<in>set (players s). 1 \<le> seat_no p \<and> seat_no p \<le> 9"
proof -
  have "check_seats s (players s) 0 [] 0 0 = Some (initial_total s, initial_total s)"
    using assms by (simp add: validate_state_def)
  note c = check_seats_Some[OF this]
  show "table_ok s" "chips s = initial_total s" "initial_total s \<le> max_int64"
    "sum_list (map initial_stack (players s)) = initial_total s" "distinct (map seat_no (players s))"
    "\<forall>p\<in>set (players s). stack p + total_committed p \<le> max_int64"
    "\<forall>p\<in>set (players s). 1 \<le> seat_no p \<and> seat_no p \<le> 9"
    using c by (auto simp: table_ok_def chips_def strict_sorted_iff)
qed

lemma foldl_max_ge:
  fixes f :: "'a \<Rightarrow> int"
  shows "b \<le> foldl (\<lambda>m p. max m (f p)) b ps \<and> (\<forall>p\<in>set ps. f p \<le> foldl (\<lambda>m p. max m (f p)) b ps)"
proof (induction ps arbitrary: b)
  case (Cons p ps)
  from Cons.IH[of "max b (f p)"] show ?case by auto
qed simp

lemma expected_bet_max: "p \<in> set (players s) \<Longrightarrow> street_committed p \<le> expected_bet s"
  using foldl_max_ge[of 0 street_committed "players s"] by (fastforce simp: expected_bet_def Let_def)

lemma validate_state_bets:
  assumes "validate_state s"
  shows "whole_units (current_bet s)" "whole_units (last_full_raise s)" "0 < last_full_raise s"
    "street s \<noteq> Settled \<Longrightarrow> p \<in> set (players s) \<Longrightarrow> street_committed p \<le> current_bet s"
    "version s = length (events s)" "validate_config (cfg s)"
  using assms expected_bet_max by (auto simp: validate_state_def check_actor_def)

lemma player_Some:
  "player s seat = Some p \<Longrightarrow> p \<in> set (players s) \<and> seat_no p = seat"
  unfolding player_def by (rule find_Some_mem)

lemma validate_config_blinds:
  "validate_config c \<Longrightarrow> whole_units (big_blind c) \<and> 0 < big_blind c \<and> whole_units (small_blind c) \<and>
     2 * small_blind c = big_blind c"
  by (auto simp: validate_config_def blind_presets_def whole_units_def units_per_chip_def)

subsection \<open>An action moves the actor's chips\<close>

lemma max_whole: "whole_units a \<Longrightarrow> a \<le> max_int64 \<Longrightarrow> a \<le> max_whole_units"
proof -
  assume a: "whole_units a" "a \<le> max_int64"
  then have "a div units_per_chip \<le> max_int64 div units_per_chip"
    by (intro zdiv_mono1) auto
  moreover have "a = a div units_per_chip * units_per_chip"
    using a(1) by (auto simp: whole_units_def mult.commute)
  ultimately show ?thesis unfolding max_whole_units_def
    by (metis mult_right_mono order_less_imp_le units_per_chip_pos(1))
qed

lemma add_cap_ge: "0 \<le> b \<Longrightarrow> c \<le> a \<Longrightarrow> c \<le> max_whole_units \<Longrightarrow> c \<le> add_cap a b"
  by (simp add: add_cap_def)

theorem action_delta:
  assumes v: "validate_state s" and play: "street s \<noteq> Settled" and p: "player s (actor s) = Some p"
    and legal: "act_kind a \<in> set (lg_actions (legal_actions s))"
    and target: "action_target (legal_actions s) p a = Some target" and w: "whole_units (act_to a)"
  shows "whole_units (target - street_committed p)" "target - street_committed p \<le> stack p"
    "street_committed p \<le> target"
proof -
  note mem = player_Some[OF p]
  have ok: "money_ok p" using validate_state_money(1)[OF v] mem by (auto simp: table_ok_def)
  then have nn: "whole_units (stack p)" "whole_units (street_committed p)" "0 \<le> stack p" "0 \<le> street_committed p"
    "street_committed p \<le> total_committed p"
    by (auto simp: money_ok_def whole_units_def)
  have cb: "street_committed p \<le> current_bet s" using validate_state_bets(4)[OF v play] mem by simp
  have "street_committed p \<le> max_int64" using validate_state_money(6)[OF v] mem nn by force
  then have cap: "street_committed p \<le> max_whole_units" using max_whole nn by blast
  let ?l = "legal_actions s"
  have l: "lg_to_call ?l = max 0 (current_bet s - street_committed p)" "lg_minimum_bet ?l = big_blind (cfg s)"
    "lg_minimum_raise_to ?l = add_cap (current_bet s) (last_full_raise s)"
    "lg_maximum_raise_to ?l = stack p + street_committed p"
    "act_kind a = Bet \<Longrightarrow> current_bet s = 0"
    using legal p by (auto simp: legal_actions_def Let_def split: if_splits)
  have bet: "whole_units (current_bet s - street_committed p)"
    using validate_state_bets(1)[OF v] nn cb by (simp add: whole_units_arith)
  have raise_ge: "street_committed p \<le> add_cap (current_bet s) (last_full_raise s)"
    using validate_state_bets(3)[OF v] cb cap by (intro add_cap_ge) auto
  have bb: "0 < big_blind (cfg s)"
    using validate_config_blinds validate_state_bets(6)[OF v] by blast
  have "whole_units (target - street_committed p) \<and> target - street_committed p \<le> stack p \<and> street_committed p \<le> target"
  proof (cases "act_kind a")
    case Bet
    then have "street_committed p = 0" using l(5) cb nn by simp
    then show ?thesis using target Bet l bb w by (auto simp: action_target_def split: if_splits)
  next
    case Raise
    then show ?thesis
      using target l raise_ge w nn by (auto simp: action_target_def whole_units_arith split: if_splits)
  qed (use target l nn bet cb in \<open>auto simp: action_target_def whole_units_arith\<close>)
  then show "whole_units (target - street_committed p)" "target - street_committed p \<le> stack p"
    "street_committed p \<le> target" by auto
qed

lemma chips_raise_bet [simp]: "chips (raise_bet seat t s) = chips s"
  by (simp add: raise_bet_def chips_def chip_sum_map o_def Let_def)

lemma raise_bet_frame [simp]:
  "cfg (raise_bet seat t s) = cfg s" "initial_total (raise_bet seat t s) = initial_total s"
  "receipts (raise_bet seat t s) = receipts s" "street (raise_bet seat t s) = street s"
  "events (raise_bet seat t s) = events s" "version (raise_bet seat t s) = version s"
  "map seat_no (players (raise_bet seat t s)) = map seat_no (players s)"
  by (simp_all add: raise_bet_def Let_def o_def if_distrib[of seat_no] cong: if_cong)

lemma table_ok_raise_bet [simp]: "table_ok s \<Longrightarrow> table_ok (raise_bet seat t s)"
  by (auto simp: raise_bet_def table_ok_def money_ok_def Let_def)

lemma kept_perform: "kept s (perform a target delta now timeout s)"
  by (simp add: perform_def kept_def chips_upd_player upd_player_maps Let_def)

lemma upd_first_twice:
  "(\<And>p. P p \<Longrightarrow> P (f p)) \<Longrightarrow> upd_first P g (upd_first P f xs) = upd_first P (\<lambda>p. g (f p)) xs"
  by (induction xs) auto

lemma table_ok_perform:
  assumes "table_ok s" "player s (act_seat a) = Some p" "distinct (map seat_no (players s))"
    "whole_units delta" "delta \<le> stack p"
  shows "table_ok (perform a target delta now timeout s)"
proof -
  let ?s1 = "if act_kind a = Fold then upd_player (act_seat a) (\<lambda>p. p\<lparr>folded := True\<rparr>) s else s"
  let ?s2 = "upd_player (act_seat a) (\<lambda>p. commit p delta) ?s1"
  have only: "q = p" if "q \<in> set (players s)" "seat_no q = act_seat a" for q
    using player_Some[OF assms(2)] assms(3) that by (metis distinct_map inj_on_contraD)
  have stack1: "stack q = stack p" if "q \<in> set (players ?s1)" "seat_no q = act_seat a" for q
    using that only by (auto simp: upd_player_def dest!: upd_first_member split: if_splits)
  have "table_ok ?s1" using assms(1) by (auto intro!: table_ok_upd simp: money_ok_def)
  then have "table_ok ?s2"
    by (rule table_ok_upd) (use assms(4,5) stack1 in \<open>auto simp: money_ok_def whole_units_arith\<close>)
  then have "table_ok (raise_bet (act_seat a) target ?s2)" by simp
  then show ?thesis unfolding perform_def Let_def table_ok_emit
    by (rule table_ok_upd) (simp add: money_ok_def)
qed


subsection \<open>The log only grows\<close>

definition grows :: "state \<Rightarrow> state \<Rightarrow> bool" where
  "grows s s' \<longleftrightarrow> (\<exists>es. events s' = events s @ es \<and> version s' = version s + length es)"

lemma grows_refl [simp]: "grows s s"
  by (simp add: grows_def)

lemma grows_trans: "grows s t \<Longrightarrow> grows t u \<Longrightarrow> grows s u"
  by (auto simp: grows_def)

lemma grows_emit: "events t = events s \<Longrightarrow> version t = version s \<Longrightarrow> grows s (emit e now t)"
  by (simp add: grows_def emit_def)

lemma grows_simple [simp]:
  "grows s (emit e now s)" "grows s (set_actor seat now s)" "grows s (snd (deal seat v now s))"
  by (auto simp: set_actor_def deal_def Let_def intro: grows_emit)

lemma grows_cong: "grows s t \<Longrightarrow> events t = events u \<Longrightarrow> version t = version u \<Longrightarrow> grows s u"
  by (simp add: grows_def)

lemma grows_deal_board: "grows s (deal_board n now s)"
proof (induction n arbitrary: s)
  case (Suc n)
  let ?t = "snd (deal 0 Public now s)\<lparr>board := board (snd (deal 0 Public now s)) @ [fst (deal 0 Public now s)]\<rparr>"
  have "grows s ?t" by (rule grows_cong[of s "snd (deal 0 Public now s)"]) simp_all
  moreover have "grows ?t (deal_board n now ?t)" by (rule Suc)
  ultimately show ?case by (auto simp: split_def Let_def intro: grows_trans)
qed simp

lemma grows_next_street: "grows s (next_street now s)"
  unfolding next_street_def split_def Let_def
  by (rule grows_trans[OF _ grows_deal_board]) (auto intro: grows_emit)

lemma grows_return_uncalled: "grows s (return_uncalled now s)"
  by (auto simp: return_uncalled_def Let_def intro!: grows_emit split: prod.splits)

lemma grows_award_loop: "award_loop i base oc sts now aws s = (aws', s') \<Longrightarrow> grows s s'"
proof (induction sts arbitrary: i aws s)
  case (Cons seat sts)
  show ?case
    by (rule grows_trans[OF _ Cons.IH[OF Cons.prems[unfolded award_loop.simps Let_def]]]) (rule grows_emit; simp)
qed simp

lemma grows_award_pot: "award_pot l p now s = Ok s' \<Longrightarrow> grows s s'"
  by (auto simp: award_pot_def Let_def split: if_splits prod.splits dest!: grows_award_loop intro: grows_cong)

lemma grows_award_pots: "award_pots ls p now s = Ok s' \<Longrightarrow> grows s s'"
proof (induction ls arbitrary: p s)
  case (Cons l ls)
  then show ?case by (auto simp: res_simps split: if_splits intro: grows_trans grows_award_pot)
qed simp

lemma grows_showdown: "showdown ev now s = Ok s' \<Longrightarrow> grows s s'"
  by (auto simp: showdown_def Let_def res_simps split: if_splits intro: grows_cong[OF grows_simple(1)])

lemma grows_settle:
  assumes "settle ev now s = Ok s'"
  shows "grows s s'"
proof -
  obtain t u where t: "showdown ev now (return_uncalled now s) = Ok t" "award_pots (commitment_levels (players (return_uncalled now s))) 0 now t = Ok u"
    and s': "s' = emit (event_of SystemSettlement) now
       (u\<lparr>players := map clear_seat (players u), actor := 0, current_bet := 0, started_at := 0, deadline := 0, street := Settled\<rparr>)"
    using assms by (auto simp: settle_def Let_def res_simps)
  have "grows s u"
    using grows_return_uncalled grows_showdown[OF t(1)] grows_award_pots[OF t(2)] grows_trans by blast
  moreover have "grows u s'" unfolding s' by (rule grows_emit) simp_all
  ultimately show ?thesis by (rule grows_trans)
qed

lemma grows_runout: "runout n now s = Ok s' \<Longrightarrow> grows s s'"
proof (induction n arbitrary: s)
  case (Suc n)
  then show ?case using grows_trans[OF grows_next_street, of now s s'] by (auto split: if_splits)
qed (auto split: if_splits)

lemma grows_progress_loop: "progress_loop n ev after now s = Ok s' \<Longrightarrow> grows s s'"
proof (induction n arbitrary: after s)
  case (Suc n)
  define d where "d = s\<lparr>players := map drop_pending (players s)\<rparr>"
  have d: "grows d t \<Longrightarrow> grows s t" for t by (simp add: grows_def d_def)
  consider "settle ev now d = Ok s'"
    | t where "runout 3 now (emit (event_of AllInRunout) now d) = Ok t" "settle ev now t = Ok s'"
    | nxt where "s' = set_actor nxt now d"
    | "progress_loop n ev (button_seat (cfg d)) now (next_street now d) = Ok s'"
    using Suc.prems[unfolded progress_loop.simps Let_def, folded d_def]
    by (auto simp only: bindr_Ok_iff res.inject split: if_splits)
  then show ?case
  proof cases
    case 1
    then show ?thesis using d grows_settle by blast
  next
    case 2
    then show ?thesis using d grows_settle grows_runout grows_trans grows_simple(1) by blast
  next
    case 3
    then show ?thesis using d by simp
  next
    case 4
    then show ?thesis using d grows_next_street Suc.IH grows_trans by blast
  qed
qed simp

lemma length_events_emit [simp]: "length (events (emit e now s)) = Suc (length (events s))"
  by (simp add: emit_def)

lemma grows_perform:
  "grows s (perform a target delta now timeout s)"
  "length (events (perform a target delta now timeout s)) = Suc (length (events s))"
  by (auto simp: perform_def Let_def intro!: grows_emit)

subsection \<open>The operations\<close>

lemma apply_checked_Ok:
  assumes "apply_checked ev a now timeout s = Ok (s', r)"
  obtains p target n where "player s (act_seat a) = Some p" "actor s = act_seat a"
    "act_kind a \<in> set (lg_actions (legal_actions s))" "action_target (legal_actions s) p a = Some target"
    "whole_units (act_to a)" "street s \<noteq> Settled" "recovery_until s = None" "expected_version a = version s"
    "progress ev (act_seat a) now (perform a target (target - street_committed p) now timeout s) = Ok n"
    "s' = n\<lparr>receipts := receipts n @ [\<lparr>rc_action = a, rc_first = length (events s), rc_last = length (events n)\<rparr>]\<rparr>"
    "validate_state s'" "r = result_from (length (events s)) s'"
  using assms
  by (auto simp: apply_checked_def Let_def res_simps split: if_splits option.splits)

lemma apply_checked_kept:
  assumes "apply_checked ev a now timeout s = Ok (s', r)" "validate_state s"
  shows "chips s' = chips s" "cfg s' = cfg s" "initial_total s' = initial_total s" "validate_state s'"
    "map seat_no (players s') = map seat_no (players s)" "grows s s'"
    "length (events s) < length (events s')"
    "receipts s' = receipts s @ [\<lparr>rc_action = a, rc_first = length (events s), rc_last = length (events s')\<rparr>]"
    "rs_events r = drop (length (events s)) (events s')" "rs_version r = version s'"
    "\<not> rs_duplicate r" "\<not> rs_noop r"
proof -
  obtain p target n where *: "player s (act_seat a) = Some p" "actor s = act_seat a"
    "act_kind a \<in> set (lg_actions (legal_actions s))" "action_target (legal_actions s) p a = Some target"
    "whole_units (act_to a)" "street s \<noteq> Settled"
    "progress ev (act_seat a) now (perform a target (target - street_committed p) now timeout s) = Ok n"
    "s' = n\<lparr>receipts := receipts n @ [\<lparr>rc_action = a, rc_first = length (events s), rc_last = length (events n)\<rparr>]\<rparr>"
    "validate_state s'" "r = result_from (length (events s)) s'"
    using assms(1) by (rule apply_checked_Ok)
  let ?m = "perform a target (target - street_committed p) now timeout s"
  note money = validate_state_money[OF assms(2)]
  have delta: "whole_units (target - street_committed p)" "target - street_committed p \<le> stack p"
    using action_delta[OF assms(2) *(6)] * by auto
  have "table_ok ?m" by (rule table_ok_perform[OF money(1) *(1) money(5) delta])
  then have "kept ?m n" using progress_Ok[OF *(7)] by simp
  then have "kept s n" using kept_perform kept_trans by blast
  then show "chips s' = chips s" "cfg s' = cfg s" "initial_total s' = initial_total s"
    "map seat_no (players s') = map seat_no (players s)"
    "receipts s' = receipts s @ [\<lparr>rc_action = a, rc_first = length (events s), rc_last = length (events s')\<rparr>]"
    by (simp_all add: *(8) kept_def chips_def)
  have g: "grows ?m n" using *(7) unfolding progress_def by (rule grows_progress_loop)
  then have "grows s n" using grows_perform(1) grows_trans by blast
  then show "grows s s'" by (simp add: *(8) grows_def)
  have "length (events ?m) \<le> length (events n)" using g by (auto simp: grows_def)
  then show "length (events s) < length (events s')" by (simp add: *(8) grows_perform(2))
  show "validate_state s'" by (rule *(9))
  show "rs_events r = drop (length (events s)) (events s')" "rs_version r = version s'"
    "\<not> rs_duplicate r" "\<not> rs_noop r"
    by (simp_all add: *(10) result_from_def)
qed

lemma find_append_none: "find P xs = None \<Longrightarrow> find P (xs @ ys) = find P ys"
  by (induction xs) (auto split: if_splits)

lemma apply_action_replay:
  assumes "apply_action ev a now s = Ok (s', r)" "\<not> rs_duplicate r" "validate_state s"
  shows "apply_action ev a later s' = Ok (s', \<lparr>rs_version = version s', rs_events = rs_events r,
           rs_duplicate = True, rs_noop = False\<rparr>)"
proof -
  have none: "find (\<lambda>r. act_id (rc_action r) = act_id a) (receipts s) = None"
    and ok: "apply_checked ev a now False s = Ok (s', r)"
    using assms(1,2) by (auto simp: apply_action_def split: option.splits if_splits)
  note k = apply_checked_kept[OF ok assms(3)]
  show ?thesis
    by (simp add: apply_action_def k(8,9) find_append_none[OF none])
qed

lemma apply_action_conflict:
  assumes "apply_action ev a now s = Ok (s', r)" "validate_state s" "\<not> rs_duplicate r"
    "act_id b = act_id a" "b \<noteq> a"
  shows "apply_action ev b later s' = Fail ErrConflict"
proof -
  have none: "find (\<lambda>r. act_id (rc_action r) = act_id a) (receipts s) = None"
    and ok: "apply_checked ev a now False s = Ok (s', r)"
    using assms by (auto simp: apply_action_def split: option.splits if_splits)
  show ?thesis
    using assms(4,5) by (simp add: apply_action_def apply_checked_kept(8)[OF ok assms(2)] find_append_none[OF none])
qed

text \<open>The action a timeout makes: a check where that is free, a fold otherwise. Both are legal and
  neither moves a chip.\<close>

lemma timeout_kind_legal:
  assumes "player s (actor s) = Some p" "street s \<noteq> Settled" "recovery_until s = None"
  shows "(if lg_to_call (legal_actions s) = 0 then Check else Fold) \<in> set (lg_actions (legal_actions s))"
  using assms by (simp add: legal_actions_def Let_def)

lemma timeout_action_Ok:
  assumes "timeout_action ev n now s = Ok (s', r)" "\<not> rs_noop r"
  obtains a where "apply_checked ev a now True s = Ok (s', r)" "act_kind a \<in> {Check, Fold}"
    "act_kind a = Check \<longleftrightarrow> lg_to_call (legal_actions s) = 0" "act_seat a = actor s"
    "n = action_seq s" "deadline s \<le> now"
  using assms by (auto simp: timeout_action_def noop_def Let_def split: if_splits)

lemma stacks_perform_idle:
  assumes "act_kind a \<in> {Check, Fold}"
  shows "map stack (players (perform a target 0 now timeout s)) = map stack (players s)"
    "map total_committed (players (perform a target 0 now timeout s)) = map total_committed (players s)"
  using assms
  by (auto simp: perform_def Let_def upd_player_maps raise_bet_def o_def if_distrib cong: if_cong)


subsection \<open>Connection and recovery\<close>

lemma set_connected_kept:
  assumes "set_connected seat c now s = Ok (s', r)"
  shows "chips s' = chips s" "grows s s'" "map stack (players s') = map stack (players s)"
    "map total_committed (players s') = map total_committed (players s)" "street s' = street s" "actor s' = actor s"
    "deadline s' = deadline s" "receipts s' = receipts s"
  using assms
  by (auto simp: set_connected_def Let_def chips_upd_player upd_player_maps upd_player_def emit_def grows_def
      chips_def chip_sum_upd_first map_upd_first split: option.splits if_splits)

lemma recovery_freezes:
  assumes "recovery_until s \<noteq> None"
  shows "apply_checked ev a now timeout s = Fail ErrRecovering"
    "timeout_action ev n now s = Ok (s, noop s)" "begin_recovery now s \<in> {Fail ErrInvalid, Ok (s, noop s)}"
    "lg_actions (legal_actions s) = []"
  using assms
  by (auto simp: apply_checked_def timeout_action_def begin_recovery_def legal_actions_def Let_def split: option.splits)

lemma recovery_round_trip:
  assumes "begin_recovery now s = Ok (s1, r1)" "\<not> rs_noop r1" "now + decision_window \<le> later"
  shows "\<exists>s2 r2. resume later s1 = Ok (s2, r2) \<and> recovery_until s2 = None \<and> players s2 = players s \<and>
    actor s2 = actor s \<and> deadline s2 = later + decision_window \<and> action_seq s2 = action_seq s + 1 \<and>
    length (events s2) = length (events s) + 3"
    "\<forall>t. t < now + decision_window \<longrightarrow> resume t s1 = Ok (s1, noop s1)"
  using assms
  by (auto simp: begin_recovery_def resume_def noop_def emit_def set_actor_def Let_def split: if_splits)

subsection \<open>Who wins a pot, and how much\<close>

text \<open>The bundle of facts on the shares of one pot.\<close>

lemma pot_shares_facts:
  assumes "amount mod units_per_chip = 0" "0 \<le> amount" "winners \<noteq> []"
  shows "sum_list (map aw_amount (pot_shares amount winners)) = amount"
    "map aw_seat (pot_shares amount winners) = winners"
    "\<forall>x\<in>set (pot_shares amount winners). \<forall>y\<in>set (pot_shares amount winners). aw_amount x \<le> aw_amount y + units_per_chip"
    "\<forall>x\<in>set (pot_shares amount winners). whole_units (aw_amount x)"
proof -
  show "sum_list (map aw_amount (pot_shares amount winners)) = amount" by (rule pot_shares_sum[OF assms(1,3)])
  have "map aw_seat (pot_shares amount winners) = map snd (enumerate 0 winners)"
    by (simp add: pot_shares_def award_of_def Let_def o_def split_def)
  then show "map aw_seat (pot_shares amount winners) = winners" by (simp add: enumerate_eq_zip)
  show "\<forall>x\<in>set (pot_shares amount winners). \<forall>y\<in>set (pot_shares amount winners). aw_amount x \<le> aw_amount y + units_per_chip"
    by (auto simp: pot_shares_def award_of_def Let_def units_per_chip_def)
  have "0 \<le> amount div units_per_chip div int (length winners)"
    using assms(2,3) by (simp add: units_per_chip_def pos_imp_zdiv_nonneg_iff)
  then show "\<forall>x\<in>set (pot_shares amount winners). whole_units (aw_amount x)"
    by (auto simp: pot_shares_def award_of_def Let_def whole_units_arith whole_chip whole_units_share)
qed

lemma pot_winners_distinct:
  assumes "distinct (map seat_no (players s))"
  shows "distinct (pot_winners level s)"
proof -
  have "distinct (eligible_seats level (players s))"
    unfolding eligible_seats_def using assms by (simp add: distinct_map_filter)
  then have "distinct (best_seats (rank_vector s) (eligible_seats level (players s)) [])"
    by (simp add: best_seats_eq)
  then show ?thesis
    unfolding pot_winners_def by (metis mset_from_button mset_eq_imp_distinct_iff)
qed

subsection \<open>The evaluator's contract\<close>

definition good_cards :: "card \<times> card \<Rightarrow> card list \<Rightarrow> bool" where
  "good_cards h b \<longleftrightarrow> length b = 5 \<and> distinct (seven_cards h b) \<and> (\<forall>c\<in>set (seven_cards h b). c < 52)"

locale sound_evaluator = returning_evaluator +
  fixes ver :: string
  assumes sound: "ev h b v = Ok r \<Longrightarrow> validate_rank r v"
    and complete: "good_cards h b \<Longrightarrow> \<exists>r. ev h b ver = Ok r"
begin

lemma rank_players_Ok:
  assumes "evaluator_version (cfg s) = ver" "\<forall>p\<in>set ps. \<not> folded p \<longrightarrow> good_cards (hole p) (board s)"
  shows "\<exists>rs. rank_players ev s ps = Ok rs \<and> map fst rs = map seat_no (filter (\<lambda>p. \<not> folded p) ps) \<and>
    (\<forall>p\<in>set ps. \<not> folded p \<longrightarrow> (\<exists>r. (seat_no p, r) \<in> set rs \<and> ev (hole p) (board s) ver = Ok r))"
  using assms(2)
proof (induction ps)
  case (Cons p ps)
  have good: "\<not> folded p \<Longrightarrow> good_cards (hole p) (board s)" using Cons.prems by simp
  from Cons obtain rs where rs: "rank_players ev s ps = Ok rs" "map fst rs = map seat_no (filter (\<lambda>p. \<not> folded p) ps)"
    "\<forall>p\<in>set ps. \<not> folded p \<longrightarrow> (\<exists>r. (seat_no p, r) \<in> set rs \<and> ev (hole p) (board s) ver = Ok r)" by auto
  show ?case
  proof (cases "folded p")
    case True
    then show ?thesis using rs by simp
  next
    case False
    then obtain r where r: "ev (hole p) (board s) ver = Ok r" using complete[OF good] by blast
    then show ?thesis using False rs assms(1) sound[OF r] by auto
  qed
qed simp

lemma showdown_ranks:
  assumes "evaluator_version (cfg s) = ver" "\<forall>p\<in>set (players s). \<not> folded p \<longrightarrow> good_cards (hole p) (board s)"
    "distinct (map seat_no (players s))" "length (filter (\<lambda>p. \<not> folded p) (players s)) > 1"
  shows "\<exists>s'. showdown ev now s = Ok s' \<and>
    (\<forall>p\<in>set (players s). \<not> folded p \<longrightarrow> (\<exists>r. ev (hole p) (board s) ver = Ok r \<and> rank_vector s' (seat_no p) = hr_vector r))"
proof -
  let ?s = "emit (event_of Showdown) now s"
  obtain rs where rs: "rank_players ev ?s (players s) = Ok rs" "map fst rs = map seat_no (filter (\<lambda>p. \<not> folded p) (players s))"
    "\<forall>p\<in>set (players s). \<not> folded p \<longrightarrow> (\<exists>r. (seat_no p, r) \<in> set rs \<and> ev (hole p) (board ?s) ver = Ok r)"
    using rank_players_Ok[of ?s "players s"] assms(1,2) by auto
  have "distinct (map fst rs)" using rs(2) assms(3) by (simp add: distinct_map_filter)
  then have look: "(k, r) \<in> set rs \<Longrightarrow> map_of rs k = Some r" for k r by simp
  have "showdown ev now s = Ok (?s\<lparr>ranks := rs\<rparr>)"
    using assms(4) rs(1) by (simp add: showdown_def Let_def)
  moreover have "\<forall>p\<in>set (players s). \<not> folded p \<longrightarrow> (\<exists>r. ev (hole p) (board s) ver = Ok r \<and>
      rank_vector (?s\<lparr>ranks := rs\<rparr>) (seat_no p) = hr_vector r)"
    using rs(3) look by (fastforce simp: rank_vector_def)
  ultimately show ?thesis by blast
qed

end

lemma five_of_seven_bounds: "idx \<in> set five_of_seven \<Longrightarrow> distinct idx \<and> (\<forall>i\<in>set idx. i < 7)"
proof -
  have "list_all (\<lambda>idx. distinct idx \<and> list_all (\<lambda>i. i < 7) idx) five_of_seven" by code_simp
  then show "idx \<in> set five_of_seven \<Longrightarrow> distinct idx \<and> (\<forall>i\<in>set idx. i < 7)"
    by (auto simp: list_all_iff)
qed

lemma evaluate_hand_sound:
  assumes "evaluate_hand h b v = Ok r"
  shows "validate_rank r v"
proof -
  note ok = evaluate_hand_Ok_inputs[OF assms]
  obtain idx where idx: "idx \<in> set five_of_seven"
    and r: "hr_best_five r = map int idx" "hr_version r = v" "rank_vec (hr_vector r)"
      "hr_category r = categories ! nat (hd (hr_vector r))" "0 \<le> hd (hr_vector r)" "hd (hr_vector r) \<le> 8"
    using evaluate_hand_Ok[OF ok(2-4)] assms ok(1) by (auto simp: Let_def)
  have "nat (hd (hr_vector r)) < length categories" using r by (simp add: categories_def)
  then have "hr_category r \<in> set categories" using r by simp
  moreover have "'''' \<notin> set categories" by (simp add: categories_def)
  ultimately have "hr_category r \<noteq> ''''" by metis
  moreover have "hr_vector r \<noteq> []" "length (hr_vector r) \<le> 6" using r(3) by (auto simp: rank_vec_def vec_length_def)
  ultimately show ?thesis
    using five_of_seven_bounds[OF idx] r
    by (auto simp: validate_rank_def list_all_iff distinct_map)
qed

lemma foldl_better_five_returns: "evaluate_hand h b v \<noteq> Hang"
  by (simp add: evaluate_hand_def Let_def split: option.splits prod.splits)

interpretation standard: sound_evaluator evaluate_hand evaluator_version_v1
proof unfold_locales
  show "evaluate_hand h b v \<noteq> Hang" for h b v by (rule foldl_better_five_returns)
  show "evaluate_hand h b v = Ok r \<Longrightarrow> validate_rank r v" for h b v r by (rule evaluate_hand_sound)
  show "good_cards h b \<Longrightarrow> \<exists>r. evaluate_hand h b evaluator_version_v1 = Ok r" for h b
    using evaluate_hand_Ok[of b h] by (auto simp: good_cards_def Let_def)
qed


subsection \<open>Dealing follows the frozen deck\<close>

fun board_cards :: "street \<Rightarrow> nat option" where
  "board_cards Preflop = Some 0"
| "board_cards Flop = Some 3"
| "board_cards Turn = Some 4"
| "board_cards River = Some 5"
| "board_cards _ = None"

text \<open>On a street of play the board is the stretch of the deck right behind the hole cards.\<close>

definition dealt_ok :: "state \<Rightarrow> bool" where
  "dealt_ok s \<longleftrightarrow> length (players s) \<le> 9 \<and> length (frozen_deck (cfg s)) = 52 \<and>
     (case board_cards (street s) of None \<Rightarrow> False
      | Some k \<Rightarrow> deck_cursor s = 2 * length (players s) + k \<and>
          board s = take k (drop (2 * length (players s)) (frozen_deck (cfg s))))"

lemma deal_in_deck: "dealt_ok s \<Longrightarrow> street s \<noteq> River \<Longrightarrow> deck_cursor s + 3 \<le> length (frozen_deck (cfg s))"
  by (cases "street s") (auto simp: dealt_ok_def)

lemma deal_board_cards:
  "deck_cursor s + n \<le> length (frozen_deck (cfg s)) \<Longrightarrow>
   deck_cursor (deal_board n now s) = deck_cursor s + n \<and>
   board (deal_board n now s) = board s @ take n (drop (deck_cursor s) (frozen_deck (cfg s)))"
proof (induction n arbitrary: s)
  case (Suc n)
  let ?t = "snd (deal 0 Public now s)\<lparr>board := board (snd (deal 0 Public now s)) @ [fst (deal 0 Public now s)]\<rparr>"
  have t: "deck_cursor ?t = deck_cursor s + 1" "cfg ?t = cfg s"
    "board ?t = board s @ [frozen_deck (cfg s) ! deck_cursor s]"
    by (simp_all add: deal_def Let_def)
  have "take (Suc n) (drop (deck_cursor s) (frozen_deck (cfg s))) =
    frozen_deck (cfg s) ! deck_cursor s # take n (drop (Suc (deck_cursor s)) (frozen_deck (cfg s)))"
    using Suc.prems by (simp flip: Cons_nth_drop_Suc)
  with Suc.IH[of ?t] Suc.prems t show ?case by (simp add: split_def Let_def)
qed simp

lemma next_street_dealt:
  assumes "dealt_ok s" "street s \<noteq> River"
  shows "dealt_ok (next_street now s)"
proof -
  obtain st n where st: "street_after (street s) = (st, n)" by (cases "street_after (street s)")
  obtain k where k: "board_cards (street s) = Some k" "board_cards st = Some (k + n)" "n \<le> 3"
    using assms st by (cases "street s") (auto simp: dealt_ok_def)
  let ?t = "emit (event_of (DealStreet st)) now (s\<lparr>street := st, current_bet := 0,
      last_full_raise := big_blind (cfg s), full_raise_seq := 0, players := map fresh_street (players s)\<rparr>)"
  have eq: "next_street now s = deal_board n now ?t" by (simp add: next_street_def st)
  have t: "deck_cursor ?t = deck_cursor s" "board ?t = board s" by simp_all
  have b: "deck_cursor ?t + n \<le> length (frozen_deck (cfg ?t))" using deal_in_deck[OF assms] k(3) by simp
  note d = deal_board_cards[OF b, of now]
  have s: "deck_cursor s = 2 * length (players s) + k"
    "board s = take k (drop (2 * length (players s)) (frozen_deck (cfg s)))"
    using assms(1) k(1) by (simp_all add: dealt_ok_def)
  have "board s @ take n (drop (deck_cursor s) (frozen_deck (cfg s))) =
      take (k + n) (drop (2 * length (players s)) (frozen_deck (cfg s)))"
    by (simp add: s take_add add.commute)
  then show ?thesis
    using d assms(1) k s unfolding eq by (simp add: dealt_ok_def)
qed

lemma runout_dealt: "runout n now s = Ok s' \<Longrightarrow> dealt_ok s \<Longrightarrow> dealt_ok s' \<and> street s' = River"
  by (induction n arbitrary: s) (auto simp: next_street_dealt split: if_splits)

subsection \<open>A new hand\<close>

lemma seat_players_Ok:
  "seat_players ts prev ids tot = Ok (ps, tot') \<Longrightarrow>
   ps = map new_participant ts \<and> tot' = tot + sum_list (map stack ts) \<and>
   (\<forall>t\<in>set ts. 0 < stack t \<and> whole_units (stack t)) \<and> sorted_wrt (<) (map seat_no ts)
   \<and> (\<forall>t\<in>set ts. prev < seat_no t)"
proof (induction ts arbitrary: prev ids tot ps)
  case (Cons t ts)
  then obtain ps' where rest: "seat_players ts (seat_no t) (player_id t # ids) (tot + stack t) = Ok (ps', tot')"
    and p: "ps = new_participant t # ps'" "0 < stack t" "whole_units (stack t)" "prev < seat_no t"
    by (auto simp: res_simps split: if_splits)
  from Cons.IH[OF rest] p show ?case by fastforce
qed simp

lemma post_blind_facts:
  assumes "table_ok s" "distinct (map seat_no (players s))" "whole_units amount"
  shows "kept s (post_blind k seat amount now s)" "table_ok (post_blind k seat amount now s)"
    "street (post_blind k seat amount now s) = street s"
proof -
  show "kept s (post_blind k seat amount now s)"
    by (simp add: post_blind_def kept_def chips_upd_player upd_player_maps Let_def split: option.split)
  show "street (post_blind k seat amount now s) = street s"
    by (simp add: post_blind_def Let_def split: option.split)
  show "table_ok (post_blind k seat amount now s)"
  proof (cases "player s seat")
    case None
    then show ?thesis using assms(1) by (simp add: post_blind_def)
  next
    case (Some p)
    have p: "money_ok p" "p \<in> set (players s)" "seat_no p = seat"
      using player_Some[OF Some] assms(1) by (auto simp: table_ok_def)
    have only: "q = p" if "q \<in> set (players s)" "seat_no q = seat" for q
      using p assms(2) that by (metis distinct_map inj_on_contraD)
    have w: "whole_units (min (stack p) amount)" using p assms(3) by (simp add: money_ok_def whole_units_arith)
    have "table_ok (upd_player seat (\<lambda>q. commit q (min (stack p) amount)) s)"
      by (rule table_ok_upd[OF assms(1)]) (use only w in \<open>auto simp: money_ok_def whole_units_arith\<close>)
    then show ?thesis using Some by (simp add: post_blind_def Let_def)
  qed
qed

lemma deal_pass_facts:
  "i + n \<le> length (players s) \<Longrightarrow> kept s (deal_pass first i n now s) \<and>
   (table_ok s \<longrightarrow> table_ok (deal_pass first i n now s)) \<and> street (deal_pass first i n now s) = street s \<and>
   length (players (deal_pass first i n now s)) = length (players s)"
proof (induction n arbitrary: i s)
  case (Suc n)
  define d where "d = deal (seat_no (players s ! i)) Private now s"
  define p where "p = (players s ! i)\<lparr>hole := (if first then (fst d, snd (hole (players s ! i))) else (fst (hole (players s ! i)), fst d))\<rparr>"
  define t where "t = (snd d)\<lparr>players := (players s)[i := p]\<rparr>"
  have step: "deal_pass first i (Suc n) now s = deal_pass first (Suc i) n now t"
    by (simp add: t_def p_def d_def split_def Let_def)
  have pl: "players t = (players s)[i := p]" by (simp add: t_def)
  have "kept s t"
    using Suc.prems by (simp add: kept_def t_def d_def p_def chips_def chip_sum_list_update map_list_update_same)
  moreover have "table_ok s \<longrightarrow> table_ok t"
  proof
    assume ok: "table_ok s"
    then have "money_ok (players s ! i)" using Suc.prems by (simp add: table_ok_def)
    then have "money_ok p" by (simp add: p_def money_ok_def)
    then show "table_ok t"
      using ok set_update_subset_insert[of "players s" i p] unfolding table_ok_def pl by blast
  qed
  moreover have "street t = street s" by (simp add: t_def d_def)
  ultimately show ?case
    using Suc.IH[of "Suc i" t] Suc.prems unfolding step by (auto simp: pl intro: kept_trans)
qed simp

definition keeps :: "state \<Rightarrow> state \<Rightarrow> bool" where
  "keeps s s' \<longleftrightarrow> kept s s' \<and> table_ok s'"

lemma keeps_trans: "keeps s t \<Longrightarrow> keeps t u \<Longrightarrow> keeps s u"
  by (auto simp: keeps_def intro: kept_trans)

lemma keeps_distinct: "keeps s t \<Longrightarrow> distinct (map seat_no (players s)) \<Longrightarrow> distinct (map seat_no (players t))"
  by (simp add: keeps_def kept_def)

lemma open_hand_facts:
  assumes "table_ok s" "distinct (map seat_no (players s))" "validate_config (cfg s)"
  shows "keeps s (open_hand now s)"
proof -
  define s1 where "s1 = place_blinds (emit (event_of HandCommitted) now s)"
  define s2 where "s2 = post_blind PostSB (sb_seat s1) (small_blind (cfg s1)) now s1"
  define s3 where "s3 = post_blind PostBB (bb_seat s2) (big_blind (cfg s2)) now s2"
  define s4 where "s4 = s3\<lparr>current_bet := big_blind (cfg s3)\<rparr>"
  define s5 where "s5 = deal_pass True 0 (length (players s4)) now s4"
  have eq: "open_hand now s = deal_pass False 0 (length (players s5)) now s5"
    by (simp only: open_hand_def Let_def s1_def s2_def s3_def s4_def s5_def)
  have w: "whole_units (small_blind (cfg s))" "whole_units (big_blind (cfg s))"
    using validate_config_blinds[OF assms(3)] by auto
  have k1: "keeps s s1"
    using assms(1) by (simp add: s1_def place_blinds_def Let_def keeps_def kept_def chips_def table_ok_def)
  have blind: "keeps t (post_blind k seat x now t)" if "keeps s t" "whole_units x" for t k seat x
    using post_blind_facts(1,2)[OF _ keeps_distinct[OF that(1) assms(2)] that(2)] that(1) by (simp add: keeps_def)
  have c: "keeps s t \<Longrightarrow> cfg t = cfg s" for t by (simp add: keeps_def kept_def)
  have k2: "keeps s s2" unfolding s2_def by (rule keeps_trans[OF k1 blind[OF k1]]) (simp only: c[OF k1] w)
  have k3: "keeps s s3" unfolding s3_def by (rule keeps_trans[OF k2 blind[OF k2]]) (simp only: c[OF k2] w)
  then have k4: "keeps s s4" by (simp add: s4_def keeps_def kept_def chips_def table_ok_def)
  have pass: "keeps t (deal_pass f 0 (length (players t)) now t)" if "keeps s t" for t f
    using deal_pass_facts[of 0 "length (players t)" t f now] that by (simp add: keeps_def)
  have "keeps s s5" unfolding s5_def by (rule keeps_trans[OF k4 pass[OF k4]])
  then show ?thesis unfolding eq using keeps_trans pass by blast
qed

theorem new_hand_Ok:
  assumes "new_hand c ts now ev = Ok s"
  shows "validate_state s \<and> cfg s = c \<and> chips s = sum_list (map stack ts) \<and> initial_total s = chips s \<and>
    map seat_no (players s) = sort (map seat_no ts)"
proof -
  let ?ts = "sort_by (\<lambda>a b. seat_no a < seat_no b) ts"
  obtain ps tot where sp: "seat_players ?ts 0 [] 0 = Ok (ps, tot)"
    and run: "progress ev (bb_seat (open_hand now (empty_hand c ps tot))) now (open_hand now (empty_hand c ps tot)) = Ok s"
    and val: "validate_state s" and vc: "validate_config c"
    using assms by (auto simp: new_hand_def res_simps Let_def split: if_splits)
  note sp' = seat_players_Ok[OF sp]
  let ?s0 = "empty_hand c ps tot"
  have zero: "total_committed (new_participant t) = 0" "street_committed (new_participant t) = 0"
    "stack (new_participant t) = stack t" "seat_no (new_participant t) = seat_no t" for t
    by (simp_all add: new_participant_def)
  have ok0: "table_ok ?s0"
    using sp' by (auto simp: empty_hand_def table_ok_def money_ok_def zero whole_units_def)
  have d0: "distinct (map seat_no (players ?s0))"
    using sp' by (simp add: empty_hand_def zero o_def strict_sorted_iff)
  have open0: "keeps ?s0 (open_hand now ?s0)"
    by (rule open_hand_facts[OF ok0 d0]) (simp add: empty_hand_def vc)
  then have k: "kept ?s0 s" using progress_Ok[OF run] kept_trans unfolding keeps_def by blast
  have "sum_mset (image_mset stack (mset ?ts)) = sum_mset (image_mset stack (mset ts))" by simp
  then have tsum: "sum_list (map stack ?ts) = sum_list (map stack ts)"
    by (simp only: mset_map[symmetric] sum_mset_sum_list)
  have c0: "chips ?s0 = sum_list (map stack ts)" "initial_total ?s0 = sum_list (map stack ts)" "cfg ?s0 = c"
    using sp' tsum by (simp_all add: chips_def empty_hand_def chip_sum_def zero o_def)
  have srt: "sorted (map seat_no ?ts)" using sp' by (simp add: strict_sorted_iff)
  have "mset (map seat_no ?ts) = mset (map seat_no ts)" by simp
  from properties_for_sort[OF this srt] have "map seat_no ?ts = sort (map seat_no ts)" ..
  then have "map seat_no (players ?s0) = sort (map seat_no ts)" using sp' by (simp add: empty_hand_def zero o_def)
  then show ?thesis using k c0 val by (simp add: kept_def)
qed


subsection \<open>Every operation returns\<close>

lemma validate_state_street:
  "validate_state s \<Longrightarrow> street s \<noteq> Settled \<Longrightarrow> street s \<in> {Preflop, Flop, Turn, River}"
  by (cases "street s") (auto simp: validate_state_def check_board_count_def)

lemma perform_street [simp]: "street (perform a target delta now timeout s) = street s"
  by (simp add: perform_def Let_def)

lemma street_deal_pass [simp]: "street (deal_pass f i n now s) = street s"
  by (induction n arbitrary: i s) (simp_all add: Let_def split_def)

lemma street_post_blind [simp]: "street (post_blind k seat x now s) = street s"
  by (simp add: post_blind_def Let_def split: option.split)

lemma street_open_hand [simp]: "street (open_hand now s) = street s"
  by (simp add: open_hand_def place_blinds_def Let_def)

lemma seat_players_returns: "seat_players ts prev ids tot \<noteq> Hang"
  by (induction ts arbitrary: prev ids tot) (auto simp: bindr_Hang_iff)

context returning_evaluator
begin

lemma apply_checked_returns:
  assumes "validate_state s"
  shows "apply_checked ev a now timeout s \<noteq> Hang"
proof (cases "street s = Settled")
  case True
  then show ?thesis by (simp add: apply_checked_def)
next
  case False
  have "street (perform a t d now timeout s) \<in> {Preflop, Flop, Turn, River}" for t d
    using validate_state_street[OF assms False] by (simp only: perform_street)
  then have "progress ev x now (perform a t d now timeout s) \<noteq> Hang" for x t d
    by (rule progress_returns)
  then show ?thesis
    by (auto simp: apply_checked_def Let_def bindr_Hang_iff split: option.splits)
qed

lemma operations_return:
  assumes "validate_state s"
  shows "apply_action ev a now s \<noteq> Hang" "timeout_action ev n now s \<noteq> Hang"
  using apply_checked_returns[OF assms] by (auto simp: apply_action_def timeout_action_def Let_def split: option.splits)

lemma new_hand_returns: "new_hand c ts now ev \<noteq> Hang"
proof -
  have "progress ev x now (open_hand now (empty_hand c ps tot)) \<noteq> Hang" for x ps tot
    by (rule progress_returns) (simp add: empty_hand_def)
  then show ?thesis
    by (auto simp: new_hand_def bindr_Hang_iff seat_players_returns Let_def split: prod.splits option.splits)
qed

end

end
