(* ===== verification/PokerAward.thy ===== *)
theory PokerAward
  imports PokerPlay
begin

text \<open>
  The awards of a pot: the odd chips go clockwise from the seat left of the button, the winners
  are the eligible seats with the best rank, and an action touches only the actor's chips.
\<close>

subsection \<open>The order of the odd chips\<close>

definition button_gap :: "int \<Rightarrow> int \<Rightarrow> int" where
  "button_gap button a = (a - button + 9) mod 9"

interpretation button_order: strict_order "\<lambda>a b. (a - button + 9) mod 9 < (b - button + 9) mod (9::int)" for button
  by unfold_locales auto

lemma clockwise_gap:
  assumes "1 \<le> a" "a \<le> 9" "1 \<le> button" "button \<le> 9"
  shows "clockwise button a = (if a = button then 9 else button_gap button a)"
proof -
  have "button_gap button a = a - button" if "a > button"
    using mod_pos_pos_trivial[of "a - button" 9] that assms by (simp add: button_gap_def mod_add_self2)
  moreover have "button_gap button a = a - button + 9" if "a < button"
    unfolding button_gap_def by (rule mod_pos_pos_trivial) (use that assms in auto)
  ultimately show ?thesis using assms by (auto simp: clockwise_def)
qed

lemma gap_0: "1 \<le> a \<Longrightarrow> a \<le> 9 \<Longrightarrow> 1 \<le> button \<Longrightarrow> button \<le> 9 \<Longrightarrow> button_gap button a = 0 \<longleftrightarrow> a = button"
  using clockwise_gap[of a button] by (auto simp: clockwise_def button_gap_def split: if_splits)

lemma gap_nonneg: "0 \<le> button_gap button a"
  by (simp add: button_gap_def)

lemma from_button_clockwise:
  assumes "distinct ws" "\<forall>a\<in>set ws. 1 \<le> a \<and> a \<le> 9" "1 \<le> button" "button \<le> 9"
  shows "sorted (map (clockwise button) (from_button button ws))"
proof -
  let ?lt = "\<lambda>a b. (a - button + 9) mod 9 < (b - button + 9) mod (9::int)"
  define xs where "xs = sort_by ?lt ws"
  have sorted: "sorted_wrt (\<lambda>a b. button_gap button a \<le> button_gap button b) xs"
    using button_order.sorted_sort_by[of button ws] by (simp add: xs_def button_gap_def not_less)
  have xs: "distinct xs" "\<forall>a\<in>set xs. 1 \<le> a \<and> a \<le> 9" using assms(1,2) by (simp_all add: xs_def)
  have eq: "from_button button ws = (if length xs > 1 \<and> xs ! 0 = button then tl xs @ [hd xs] else xs)"
    by (simp add: from_button_def Let_def xs_def)
  have cw: "clockwise button a = button_gap button a" if "a \<in> set xs" "a \<noteq> button" for a
    using clockwise_gap[of a button] assms(3,4) xs(2) that by auto
  have mono: "sorted_wrt (\<lambda>a b. clockwise button a \<le> clockwise button b) ys"
    if "sorted_wrt (\<lambda>a b. button_gap button a \<le> button_gap button b) ys" "set ys \<subseteq> set xs" "button \<notin> set ys" for ys
  proof (rule sorted_wrt_mono_rel[OF _ that(1)])
    fix x y assume "x \<in> set ys" "y \<in> set ys" "button_gap button x \<le> button_gap button y"
    moreover from this have "x \<noteq> button" "y \<noteq> button" "x \<in> set xs" "y \<in> set xs" using that(2,3) by auto
    ultimately show "clockwise button x \<le> clockwise button y" using cw by simp
  qed
  show ?thesis
  proof (cases xs)
    case Nil
    then show ?thesis by (simp add: eq)
  next
    case (Cons x r)
    have rest: "button \<notin> set r"
    proof
      assume b: "button \<in> set r"
      then have "button_gap button x \<le> 0" using sorted Cons gap_0[of button button] assms(3,4) by auto
      then have "x = button" using gap_nonneg[of button x] gap_0[of x button] xs(2) Cons assms(3,4) by auto
      then show False using xs(1) b Cons by auto
    qed
    have r: "sorted_wrt (\<lambda>a b. clockwise button a \<le> clockwise button b) r"
      using mono[of r] sorted Cons rest by auto
    show ?thesis
    proof (cases "x = button")
      case False
      then have "sorted_wrt (\<lambda>a b. clockwise button a \<le> clockwise button b) xs"
        using mono[of xs] sorted rest Cons by auto
      then show ?thesis using Cons False by (simp add: eq sorted_map)
    next
      case True
      have "clockwise button a \<le> 9" if "a \<in> set r" for a
        using xs(2) Cons that assms(3,4) by (auto simp: clockwise_def)
      then show ?thesis
        using r Cons True assms(3,4) by (auto simp: eq sorted_map sorted_wrt_append clockwise_def)
    qed
  qed
qed

subsection \<open>One pot\<close>

lemma pot_shares_Nil: "pot_shares amount ws = [] \<longleftrightarrow> ws = []"
  by (cases ws) (simp_all add: pot_shares_def)

theorem award_pot_fair:
  assumes ok: "award_pot level previous now s = Ok s'"
    and whole: "whole_units level" "whole_units previous" "previous < level"
    and dist: "distinct (map seat_no (players s))"
  obtains po where "pots s' = pots s @ [po]"
    "pot_amount po = pot_layer level previous (players s)" "0 < pot_amount po"
    "set (map aw_seat (pot_awards po)) = {x \<in> set (eligible_seats level (players s)).
       \<forall>y\<in>set (eligible_seats level (players s)). rank_vector s y \<le> rank_vector s x}"
    "distinct (map aw_seat (pot_awards po))" "pot_awards po \<noteq> []"
    "sum_list (map aw_amount (pot_awards po)) = pot_amount po"
    "\<forall>x\<in>set (pot_awards po). whole_units (aw_amount x)"
    "\<forall>x\<in>set (pot_awards po). \<forall>y\<in>set (pot_awards po). aw_amount x \<le> aw_amount y + units_per_chip"
    "chips s' = chips s + pot_amount po"
proof -
  let ?am = "pot_layer level previous (players s)" and ?ws = "pot_winners level s"
  have m: "?am mod units_per_chip = 0" using whole by (simp add: pot_layer_whole whole_units_def)
  note a = award_pot_Ok[OF ok m]
  have nn: "0 \<le> ?am" using whole(3) by (intro pot_layer_nonneg) simp
  have el: "eligible_seats level (players s) \<noteq> []" using a by simp
  then have ws: "?ws \<noteq> []"
    using best_seats_ne by (metis pot_winners_def length_0_conv length_from_button)
  note f = pot_shares_facts[OF m nn ws]
  obtain p where p: "p \<in> set (players s)" "level \<le> total_committed p"
    using el by (auto simp: eligible_seats_def filter_empty_conv)
  have "(if level \<le> total_committed p then level - previous else 0) \<le> ?am"
    unfolding pot_layer_def using p(1) whole(3)
    by (intro member_le_sum_list) auto
  then have pos: "0 < ?am" using p(2) whole(3) by simp
  show ?thesis
  proof (rule that[of "pot_made (length (pots s)) level previous s"], goal_cases)
    case 10
    then show ?case using a by (simp add: pot_made_def)
  qed (use a f pos ws pot_winners_distinct[OF dist] set_pot_winners[of level s] in
       \<open>simp_all add: pot_made_def pot_shares_Nil\<close>)
qed

subsection \<open>Only the actor pays\<close>

lemma filter_upd_first:
  "(\<And>x. P x \<Longrightarrow> \<not> Q x \<and> \<not> Q (f x)) \<Longrightarrow> filter Q (upd_first P f xs) = filter Q xs"
  by (induction xs) auto

lemma perform_others:
  "map (\<lambda>p. (seat_no p, stack p, total_committed p, folded p))
     (filter (\<lambda>p. seat_no p \<noteq> act_seat a) (players (perform a target delta now timeout s)))
   = map (\<lambda>p. (seat_no p, stack p, total_committed p, folded p))
     (filter (\<lambda>p. seat_no p \<noteq> act_seat a) (players s))"
proof -
  have up: "filter (\<lambda>p. seat_no p \<noteq> x) (players (upd_player x f t)) = filter (\<lambda>p. seat_no p \<noteq> x) (players t)"
    if "\<And>p. seat_no (f p) = seat_no p" for x f t
    using that by (simp add: upd_player_def filter_upd_first)
  have rb: "map (\<lambda>p. (seat_no p, stack p, total_committed p, folded p))
      (filter (\<lambda>p. seat_no p \<noteq> x) (players (raise_bet x y t)))
    = map (\<lambda>p. (seat_no p, stack p, total_committed p, folded p)) (filter (\<lambda>p. seat_no p \<noteq> x) (players t))" for x y t
    by (auto simp: raise_bet_def Let_def filter_map o_def if_distrib[of seat_no] cong: if_cong)
  show ?thesis
    by (simp add: perform_def Let_def up rb)
qed

end
