(* ===== verification/PokerRun.thy ===== *)
theory PokerRun
  imports PokerAward
begin

text \<open>
  Whole runs of a hand: from \<open>new_hand\<close> through actions, timeouts, connections and recoveries. The
  cards on the table are those the frozen deck has at their places, and an automatic action puts
  nothing into the pot. Both are shown of the computation before \<open>validate_state\<close> looks at its result.
\<close>

subsection \<open>Cards\<close>

definition holes_follow :: "state \<Rightarrow> bool" where
  "holes_follow s \<longleftrightarrow> (let n = length (players s); deck = frozen_deck (cfg s) in
     map hole (players s) = map (\<lambda>i. (deck ! i, deck ! (n + i))) [0..<n])"

text \<open>The seats hold the first two rounds of the deck, the board is the stretch behind them, as long as
  the street demands, and the next card comes right after.\<close>

definition follows_deck :: "state \<Rightarrow> bool" where
  "follows_deck s \<longleftrightarrow> holes_follow s \<and> length (players s) \<le> 9 \<and> length (frozen_deck (cfg s)) = 52 \<and>
     (\<exists>k. (if street s = Settled then k \<in> {0, 3, 4, 5} else board_cards (street s) = Some k) \<and>
        deck_cursor s = 2 * length (players s) + k \<and>
        board s = take k (drop (2 * length (players s)) (frozen_deck (cfg s))))"

lemma dealt_follows: "street s \<noteq> Settled \<Longrightarrow> follows_deck s \<longleftrightarrow> dealt_ok s \<and> holes_follow s"
  by (cases "board_cards (street s)") (auto simp: follows_deck_def dealt_ok_def)

lemma dealt_street: "dealt_ok s \<Longrightarrow> street s \<noteq> Settled"
  by (auto simp: dealt_ok_def)

definition cards_kept :: "state \<Rightarrow> state \<Rightarrow> bool" where
  "cards_kept s t \<longleftrightarrow> cfg t = cfg s \<and> board t = board s \<and> deck_cursor t = deck_cursor s \<and>
     map hole (players t) = map hole (players s)"

lemma cards_kept_trans: "cards_kept s t \<Longrightarrow> cards_kept t u \<Longrightarrow> cards_kept s u"
  by (simp add: cards_kept_def)

lemma cards_kept_length: "cards_kept s t \<Longrightarrow> length (players t) = length (players s)"
  unfolding cards_kept_def by (metis length_map)

lemma cards_kept_dealt:
  assumes "cards_kept s t"
  shows "holes_follow t = holes_follow s" "street t = street s \<Longrightarrow> dealt_ok t = dealt_ok s"
    "street t = street s \<Longrightarrow> follows_deck t = follows_deck s"
proof -
  note n = cards_kept_length[OF assms]
  show h: "holes_follow t = holes_follow s" using assms n by (simp add: holes_follow_def cards_kept_def)
  show "street t = street s \<Longrightarrow> dealt_ok t = dealt_ok s" using assms n by (simp add: dealt_ok_def cards_kept_def split: option.split)
  show "street t = street s \<Longrightarrow> follows_deck t = follows_deck s" using assms n h by (simp add: follows_deck_def cards_kept_def)
qed

lemma cards_kept_simple [simp]:
  "cards_kept s s" "cards_kept s (emit e now s)" "cards_kept s (set_actor seat now s)"
  "cards_kept s (s\<lparr>players := map drop_pending (players s)\<rparr>)"
  by (simp_all add: cards_kept_def set_actor_def drop_pending_def o_def)

lemma cards_kept_upd: "(\<And>p. hole (f p) = hole p) \<Longrightarrow> cards_kept s (upd_player seat f s)"
  by (simp add: cards_kept_def upd_player_maps)

lemma cards_kept_uncalled: "cards_kept s (return_uncalled now s)"
  by (auto simp: cards_kept_def return_uncalled_def Let_def take_back_def map_list_update_same split: prod.splits)

lemma cards_kept_showdown: "showdown ev now s = Ok t \<Longrightarrow> cards_kept s t"
  by (auto simp: showdown_def cards_kept_def Let_def res_simps split: if_splits)

lemma cards_kept_award_loop: "award_loop i base oc sts now aws s = (aws', t) \<Longrightarrow> cards_kept s t"
proof (induction sts arbitrary: i aws s)
  case (Cons seat sts)
  from Cons.IH[OF Cons.prems[unfolded award_loop.simps Let_def]]
  show ?case by (rule cards_kept_trans[rotated]) (rule cards_kept_trans[OF cards_kept_upd cards_kept_simple(2)], simp)
qed simp

lemma cards_kept_award_pots: "award_pots ls p now s = Ok t \<Longrightarrow> cards_kept s t"
proof (induction ls arbitrary: p s)
  case (Cons l ls)
  have one: "cards_kept s u" if "award_pot l p now s = Ok u" for u
    using that by (auto simp: award_pot_def Let_def split: if_splits prod.splits dest!: cards_kept_award_loop)
      (auto simp: cards_kept_def)
  show ?case using Cons one by (auto simp: res_simps split: if_splits intro: cards_kept_trans)
qed simp

lemma settle_parts:
  assumes "settle ev now s = Ok s'"
  obtains t u where "showdown ev now (return_uncalled now s) = Ok t"
    "award_pots (commitment_levels (players (return_uncalled now s))) 0 now t = Ok u"
    "s' = emit (event_of SystemSettlement) now
       (u\<lparr>players := map clear_seat (players u), actor := 0, current_bet := 0, started_at := 0, deadline := 0, street := Settled\<rparr>)"
  using assms by (auto simp: settle_def Let_def res_simps)

lemma settle_follows:
  assumes "settle ev now s = Ok s'" "dealt_ok s" "holes_follow s"
  shows "follows_deck s'"
proof -
  from assms(1) obtain t u where t: "showdown ev now (return_uncalled now s) = Ok t"
    and u: "award_pots (commitment_levels (players (return_uncalled now s))) 0 now t = Ok u"
    and s': "s' = emit (event_of SystemSettlement) now
       (u\<lparr>players := map clear_seat (players u), actor := 0, current_bet := 0, started_at := 0, deadline := 0, street := Settled\<rparr>)"
    by (rule settle_parts)
  have "cards_kept s u" using cards_kept_trans[OF cards_kept_uncalled cards_kept_trans[OF cards_kept_showdown[OF t] cards_kept_award_pots[OF u]]] .
  moreover have "cards_kept u s'" by (simp add: cards_kept_def s' clear_seat_def o_def)
  ultimately have k: "cards_kept s s'" by (rule cards_kept_trans)
  obtain n where n: "board_cards (street s) = Some n" "n \<in> {0, 3, 4, 5}"
    using assms(2) by (cases "street s") (auto simp: dealt_ok_def)
  have "deck_cursor s = 2 * length (players s) + n" "board s = take n (drop (2 * length (players s)) (frozen_deck (cfg s)))"
    "length (players s) \<le> 9" "length (frozen_deck (cfg s)) = 52"
    using assms(2) n(1) by (simp_all add: dealt_ok_def)
  then show ?thesis using k cards_kept_length[OF k] cards_kept_dealt(1)[OF k] assms(3) n(2)
    by (auto simp: follows_deck_def cards_kept_def s')
qed

lemma holes_next_street: "holes_follow (next_street now s) = holes_follow s"
proof -
  have "hole (fresh_street p) = hole p" for p by (simp add: fresh_street_def)
  then have "map hole (map fresh_street (players s)) = map hole (players s)" by (simp add: o_def)
  then show ?thesis by (simp only: holes_follow_def Let_def next_street_frame length_map)
qed

lemma holes_runout: "runout n now s = Ok t \<Longrightarrow> holes_follow t = holes_follow s"
  by (induction n arbitrary: s) (auto simp: holes_next_street split: if_splits)

subsection \<open>Progress\<close>

lemma progress_loop_cases:
  assumes "progress_loop (Suc n) ev after now s = Ok t"
  defines "d \<equiv> s\<lparr>players := map drop_pending (players s)\<rparr>"
  obtains (settled) "settle ev now d = Ok t"
  | (run) u where "runout 3 now (emit (event_of AllInRunout) now d) = Ok u" "settle ev now u = Ok t"
  | (act) nxt where "t = set_actor nxt now d"
  | (street) "street d \<noteq> River" "progress_loop n ev (button_seat (cfg d)) now (next_street now d) = Ok t"
  using assms(1)[unfolded progress_loop.simps Let_def, folded d_def] that
  by (auto simp only: bindr_Ok_iff res.inject split: if_splits)

lemma progress_loop_follows:
  "progress_loop n ev after now s = Ok t \<Longrightarrow> dealt_ok s \<Longrightarrow> holes_follow s \<Longrightarrow> follows_deck t"
proof (induction n arbitrary: after s)
  case (Suc n)
  let ?d = "s\<lparr>players := map drop_pending (players s)\<rparr>"
  have d: "dealt_ok ?d" "holes_follow ?d" using Suc.prems cards_kept_dealt[OF cards_kept_simple(4)[of s]] by simp_all
  from Suc.prems(1) show ?case
  proof (cases rule: progress_loop_cases)
    case settled
    then show ?thesis using settle_follows d by blast
  next
    case (run u)
    have "dealt_ok (emit (event_of AllInRunout) now ?d)" "holes_follow (emit (event_of AllInRunout) now ?d)"
      using d cards_kept_dealt[OF cards_kept_simple(2)[of ?d]] by simp_all
    then show ?thesis using settle_follows[OF run(2)] runout_dealt[OF run(1)] holes_runout[OF run(1)] by simp
  next
    case (act nxt)
    have "dealt_ok t" "holes_follow t" using d cards_kept_dealt[OF cards_kept_simple(3)[of ?d nxt now]] by (simp_all add: act)
    then show ?thesis using dealt_follows[OF dealt_street] by blast
  next
    case street
    then show ?thesis using Suc.IH d next_street_dealt holes_next_street by blast
  qed
qed simp

lemma progress_follows: "progress ev after now s = Ok t \<Longrightarrow> dealt_ok s \<Longrightarrow> holes_follow s \<Longrightarrow> follows_deck t"
  unfolding progress_def by (rule progress_loop_follows)

lemma hole_frame [simp]: "hole (commit p x) = hole p" "hole (note_actor v w p) = hole p"
  by (simp_all add: commit_def note_actor_def Let_def)

lemma raise_bet_cards: "cards_kept s (raise_bet seat target s)"
  by (auto simp: cards_kept_def raise_bet_def Let_def)

lemma perform_cards: "cards_kept s (perform a target delta now timeout s)"
proof -
  let ?f = "if act_kind a = Fold then upd_player (act_seat a) (\<lambda>p. p\<lparr>folded := True\<rparr>) s else s"
  have "cards_kept s ?f" by (simp add: cards_kept_upd)
  moreover have "cards_kept ?f (upd_player (act_seat a) (\<lambda>p. commit p delta) ?f)" by (rule cards_kept_upd) simp
  moreover have upd: "cards_kept u (emit e now (upd_player (act_seat a) (note_actor timeout x) u))" for u x e
    by (rule cards_kept_trans[OF cards_kept_upd cards_kept_simple(2)]) simp
  ultimately show ?thesis unfolding perform_def Let_def
    by (meson cards_kept_trans raise_bet_cards upd)
qed

subsection \<open>Dealing the hole cards\<close>

lemma deal_pass_cards:
  "i + n \<le> length (players s) \<Longrightarrow>
   cfg (deal_pass first i n now s) = cfg s \<and> board (deal_pass first i n now s) = board s \<and>
   deck_cursor (deal_pass first i n now s) = deck_cursor s + n \<and>
   length (players (deal_pass first i n now s)) = length (players s) \<and>
   (\<forall>j<length (players s). hole (players (deal_pass first i n now s) ! j) =
      (let h = hole (players s ! j); c = frozen_deck (cfg s) ! (deck_cursor s + (j - i)) in
       if i \<le> j \<and> j < i + n then (if first then (c, snd h) else (fst h, c)) else h))"
proof (induction n arbitrary: i s)
  case (Suc n)
  define d where "d = deal (seat_no (players s ! i)) Private now s"
  define p where "p = (players s ! i)\<lparr>hole := (if first then (fst d, snd (hole (players s ! i))) else (fst (hole (players s ! i)), fst d))\<rparr>"
  define t where "t = (snd d)\<lparr>players := (players s)[i := p]\<rparr>"
  have step: "deal_pass first i (Suc n) now s = deal_pass first (Suc i) n now t"
    by (simp add: t_def p_def d_def split_def Let_def)
  have c: "fst d = frozen_deck (cfg s) ! deck_cursor s" by (simp add: d_def deal_def Let_def)
  have t: "cfg t = cfg s" "board t = board s" "deck_cursor t = deck_cursor s + 1" "players t = (players s)[i := p]"
    by (simp_all add: t_def d_def)
  have i: "i < length (players s)" using Suc.prems by simp
  note ih = Suc.IH[of "Suc i" t]
  have "hole (players (deal_pass first (Suc i) n now t) ! j) =
      (let h = hole (players s ! j); c = frozen_deck (cfg s) ! (deck_cursor s + (j - i)) in
       if i \<le> j \<and> j < i + Suc n then (if first then (c, snd h) else (fst h, c)) else h)" if j: "j < length (players s)" for j
  proof (cases "j = i")
    case True
    then show ?thesis using ih Suc.prems j by (simp add: t Let_def p_def c)
  next
    case False
    then have "i \<le> j \<Longrightarrow> deck_cursor s + 1 + (j - Suc i) = deck_cursor s + (j - i)" by simp
    then show ?thesis using ih Suc.prems j False by (auto simp: t Let_def)
  qed
  then show ?case unfolding step using ih Suc.prems t by simp
qed (auto simp: Let_def)

lemma blind_cards: "cards_kept s (post_blind k seat amount now s)"
proof (cases "player s seat")
  case None
  then show ?thesis by (simp add: post_blind_def)
next
  case (Some p)
  have "cards_kept s (upd_player seat (\<lambda>p. commit p x) s)" for x by (rule cards_kept_upd) simp
  then show ?thesis using Some cards_kept_trans[OF _ cards_kept_simple(2)] by (simp add: post_blind_def Let_def)
qed

lemma open_hand_cards:
  assumes "deck_cursor s = 0" "board s = []" "street s = Preflop" "length (players s) \<le> 9" "length (frozen_deck (cfg s)) = 52"
  shows "dealt_ok (open_hand now s) \<and> holes_follow (open_hand now s)"
proof -
  define s1 where "s1 = place_blinds (emit (event_of HandCommitted) now s)"
  define s2 where "s2 = post_blind PostSB (sb_seat s1) (small_blind (cfg s1)) now s1"
  define s3 where "s3 = post_blind PostBB (bb_seat s2) (big_blind (cfg s2)) now s2"
  define s4 where "s4 = s3\<lparr>current_bet := big_blind (cfg s3)\<rparr>"
  define s5 where "s5 = deal_pass True 0 (length (players s4)) now s4"
  define s6 where "s6 = deal_pass False 0 (length (players s5)) now s5"
  have eq: "open_hand now s = s6"
    by (simp only: open_hand_def Let_def s1_def s2_def s3_def s4_def s5_def s6_def)
  have "cards_kept s s1" by (simp add: s1_def place_blinds_def Let_def cards_kept_def)
  moreover have "cards_kept s1 s3" unfolding s3_def s2_def by (rule cards_kept_trans[OF blind_cards blind_cards])
  moreover have "cards_kept s3 s4" by (simp add: s4_def cards_kept_def)
  ultimately have k: "cards_kept s s4" using cards_kept_trans by blast
  define n where "n = length (players s)"
  define deck where "deck = frozen_deck (cfg s)"
  have s4: "length (players s4) = n" "cfg s4 = cfg s" "board s4 = []" "deck_cursor s4 = 0"
    using cards_kept_length[OF k] k assms(1,2) by (simp_all add: cards_kept_def n_def)
  note a = deal_pass_cards[of 0 n s4 True now, folded s5_def[unfolded s4(1)]]
  have s5: "cfg s5 = cfg s" "board s5 = []" "deck_cursor s5 = n" "length (players s5) = n"
    "\<forall>j<n. fst (hole (players s5 ! j)) = deck ! j"
    using a s4 by (simp_all add: deck_def Let_def)
  note b = deal_pass_cards[of 0 n s5 False now, folded s6_def[unfolded s5(4)]]
  have s6: "cfg s6 = cfg s" "board s6 = []" "deck_cursor s6 = n + n" "length (players s6) = n"
    "\<forall>j<n. hole (players s6 ! j) = (deck ! j, deck ! (n + j))"
    using b s5 by (simp_all add: deck_def Let_def)
  have "street s6 = Preflop" using assms(3) street_open_hand[of now s] eq by simp
  moreover have "map hole (players s6) = map (\<lambda>i. (deck ! i, deck ! (n + i))) [0..<n]"
    using s6(4,5) by (intro nth_equalityI) simp_all
  ultimately show ?thesis unfolding eq using s6 assms(4,5)
    by (simp add: dealt_ok_def holes_follow_def Let_def n_def deck_def)
qed

lemma new_hand_follows:
  assumes "new_hand c ts now ev = Ok s"
  shows "follows_deck s"
proof -
  let ?ts = "sort_by (\<lambda>a b. seat_no a < seat_no b) ts"
  obtain ps tot where sp: "seat_players ?ts 0 [] 0 = Ok (ps, tot)" and few: "length ts \<le> 9"
    and run: "progress ev (bb_seat (open_hand now (empty_hand c ps tot))) now (open_hand now (empty_hand c ps tot)) = Ok s"
    and vc: "validate_config c"
    using assms by (auto simp: new_hand_def res_simps Let_def split: if_splits)
  have "length ps = length ts" using seat_players_Ok[OF sp] by simp
  moreover have "length (frozen_deck c) = 52" using vc by (simp add: validate_config_def)
  ultimately show ?thesis using progress_follows[OF run] open_hand_cards[of "empty_hand c ps tot" now] few
    by (simp add: empty_hand_def)
qed

subsection \<open>Runs\<close>

inductive hand_reach :: "evaluator \<Rightarrow> state \<Rightarrow> bool" for ev where
  opened: "new_hand c ts now ev = Ok s \<Longrightarrow> hand_reach ev s"
| acted: "hand_reach ev s \<Longrightarrow> apply_action ev a now s = Ok (t, r) \<Longrightarrow> hand_reach ev t"
| timed_out: "hand_reach ev s \<Longrightarrow> timeout_action ev n now s = Ok (t, r) \<Longrightarrow> hand_reach ev t"
| connection: "hand_reach ev s \<Longrightarrow> set_connected seat c now s = Ok (t, r) \<Longrightarrow> hand_reach ev t"
| frozen: "hand_reach ev s \<Longrightarrow> begin_recovery now s = Ok (t, r) \<Longrightarrow> hand_reach ev t"
| resumed: "hand_reach ev s \<Longrightarrow> resume now s = Ok (t, r) \<Longrightarrow> hand_reach ev t"

lemma perform_follows:
  assumes "follows_deck s" "street s \<noteq> Settled" "progress ev after now (perform a target delta now timeout s) = Ok t"
  shows "follows_deck t"
proof -
  have "dealt_ok s" "holes_follow s" using assms(1) dealt_follows[OF assms(2)] by simp_all
  then show ?thesis using progress_follows[OF assms(3)] cards_kept_dealt[OF perform_cards[of s a target delta now timeout]] by simp
qed

lemma checked_follows:
  assumes "apply_checked ev a now timeout s = Ok (t, r)" "follows_deck s"
  shows "follows_deck t"
proof -
  from assms(1) obtain p target n where "player s (act_seat a) = Some p" "street s \<noteq> Settled"
    "progress ev (act_seat a) now (perform a target (target - street_committed p) now timeout s) = Ok n"
    and t: "t = n\<lparr>receipts := receipts n @ [\<lparr>rc_action = a, rc_first = length (events s), rc_last = length (events n)\<rparr>]\<rparr>"
    by (elim apply_checked_Ok) blast
  from perform_follows[OF assms(2) this(2,3)] have "follows_deck n" .
  moreover have "cards_kept n t \<and> street t = street n" by (simp add: t cards_kept_def)
  ultimately show ?thesis using cards_kept_dealt(3) by blast
qed

lemma hand_reach_follows: "hand_reach ev s \<Longrightarrow> follows_deck s"
proof (induction rule: hand_reach.induct)
  case (opened c ts now s)
  then show ?case by (rule new_hand_follows)
next
  case (acted s a now t r)
  then show ?case using checked_follows by (auto simp: apply_action_def split: option.splits if_splits)
next
  case (timed_out s n now t r)
  then show ?case using checked_follows by (auto simp: timeout_action_def Let_def split: if_splits)
next
  case (connection s seat c now t r)
  have "cards_kept s t \<and> street t = street s"
    using connection(2)
    by (auto simp: set_connected_def Let_def intro!: cards_kept_trans[OF cards_kept_upd cards_kept_simple(2)]
        split: option.splits if_splits)
  then show ?case using connection(3) cards_kept_dealt(3) by blast
next
  case (frozen s now t r)
  have "cards_kept s t \<and> street t = street s"
    using frozen(2) by (auto simp: begin_recovery_def Let_def cards_kept_def split: if_splits)
  then show ?case using frozen(3) cards_kept_dealt(3) by blast
next
  case (resumed s now t r)
  have "cards_kept s t \<and> street t = street s"
    using resumed(2) by (auto simp: resume_def Let_def cards_kept_def set_actor_def split: if_splits option.splits)
  then show ?case using resumed(3) cards_kept_dealt(3) by blast
qed

subsection \<open>What automatic actions leave alone\<close>

text \<open>The chips the hand has taken from the seats: committed, in a pot or returned.\<close>

definition pot_total :: "state \<Rightarrow> int" where
  "pot_total s = current_pot s + sum_list (map pot_amount (pots s)) + sum_list (map rt_amount (returns s))"

lemma pot_total_cong:
  "map total_committed (players t) = map total_committed (players s) \<Longrightarrow> pots t = pots s \<Longrightarrow> returns t = returns s \<Longrightarrow>
     pot_total t = pot_total s"
  by (simp add: pot_total_def current_pot_def)

lemma deal_board_pots [simp]: "pots (deal_board n now s) = pots s" "returns (deal_board n now s) = returns s"
  by (induction n arbitrary: s) (simp_all add: deal_def Let_def)

lemma next_street_pots [simp]: "pots (next_street now s) = pots s" "returns (next_street now s) = returns s"
  by (simp_all add: next_street_def split_def Let_def)

lemma sum_list_replace: "i < length xs \<Longrightarrow> sum_list (xs[i := x]) = sum_list xs + x - xs ! i" for xs :: "int list"
proof (induction xs arbitrary: i)
  case (Cons a xs)
  then show ?case by (cases i) auto
qed simp

lemma uncalled_total: "pot_total (return_uncalled now s) = pot_total s"
proof -
  obtain h sc t where t: "top_two 0 (players s) (0, 0, 0) = (h, sc, t)" by (cases "top_two 0 (players s) (0, 0, 0)")
  show ?thesis
  proof (cases "h > sc")
    case True
    then have i: "t < length (players s)" using top_two_spec[OF t] by auto
    let ?q = "take_back (h - sc) (players s ! t)"
    have "sum_list ((map total_committed (players s))[t := total_committed ?q]) =
        sum_list (map total_committed (players s)) + total_committed ?q - total_committed (players s ! t)"
      using i by (simp add: sum_list_replace)
    then show ?thesis using True t
      by (simp add: return_uncalled_def pot_total_def current_pot_def Let_def map_update take_back_def)
  qed (simp add: return_uncalled_def t)
qed

text \<open>An automatic action cannot change what the seats have paid, and the streets and the settlement that
  follow only move it from the commitments into pots and returns.\<close>

definition idle_for_pot :: "state \<Rightarrow> state \<Rightarrow> bool" where
  "idle_for_pot s t \<longleftrightarrow> pot_total t = pot_total s \<and> map folded (players t) = map folded (players s) \<and>
     (street t \<noteq> Settled \<longrightarrow> map stack (players t) = map stack (players s) \<and>
        map total_committed (players t) = map total_committed (players s))"

lemma award_loop_returned: "award_loop i base oc sts now aws s = (aws', t) \<Longrightarrow> returns t = returns s"
proof (induction sts arbitrary: i aws s)
  case (Cons seat sts)
  from Cons.IH[OF Cons.prems[unfolded award_loop.simps Let_def]] show ?case by simp
qed simp

lemma award_pots_returned: "award_pots ls p now s = Ok t \<Longrightarrow> returns t = returns s"
proof (induction ls arbitrary: p s)
  case (Cons l ls)
  have one: "returns u = returns s" if "award_pot l p now s = Ok u" for u
    using that by (auto simp: award_pot_def Let_def split: if_splits prod.splits dest!: award_loop_returned)
  show ?case using Cons one by (auto simp: res_simps split: if_splits)
qed simp

lemma settle_idle:
  assumes "settle ev now s = Ok t" "table_ok s"
  shows "idle_for_pot s t \<and> street t = Settled"
proof -
  from assms obtain u where u: "showdown ev now (return_uncalled now s) = Ok u"
    and p: "pots t = pots s @ pot_list (length (pots s)) (commitment_levels (players u)) 0 u"
    and z: "\<forall>p\<in>set (players t). total_committed p = 0 \<and> street_committed p = 0 \<and> \<not> pending p"
    and f: "map folded (players t) = map folded (players s)" "street t = Settled"
    and c: "sum_list (map pot_amount (pot_list (length (pots s)) (commitment_levels (players u)) 0 u)) = current_pot u"
    by (rule settle_Ok)
  have "sum_list (map total_committed (players t)) = sum_list (map (\<lambda>p. 0) (players t))"
    using z by (intro arg_cong[of _ _ sum_list] map_cong) auto
  then have "current_pot t = 0" by (simp add: current_pot_def)
  moreover have "returns t = returns u"
  proof -
    from assms(1) obtain u' v where "showdown ev now (return_uncalled now s) = Ok u'"
      "award_pots (commitment_levels (players (return_uncalled now s))) 0 now u' = Ok v"
      "t = emit (event_of SystemSettlement) now
        (v\<lparr>players := map clear_seat (players v), actor := 0, current_bet := 0, started_at := 0, deadline := 0, street := Settled\<rparr>)"
      by (rule settle_parts)
    moreover from this(2) have "returns v = returns u'" by (rule award_pots_returned)
    ultimately show ?thesis using u by simp
  qed
  moreover have "current_pot u = current_pot (return_uncalled now s)" "returns u = returns (return_uncalled now s)"
    using showdown_frame[OF u] by (simp_all add: current_pot_def)
  moreover have "pots (return_uncalled now s) = pots s" by (auto simp: return_uncalled_def Let_def split: prod.splits)
  ultimately have "pot_total t = pot_total (return_uncalled now s)" using p c by (simp add: pot_total_def)
  then show ?thesis using f uncalled_total by (simp add: idle_for_pot_def)
qed

lemma idle_trans: "idle_for_pot s t \<Longrightarrow> street t \<noteq> Settled \<Longrightarrow> idle_for_pot t u \<Longrightarrow> idle_for_pot s u"
  by (simp add: idle_for_pot_def)

lemma idle_simple:
  "idle_for_pot s (emit e now s)" "idle_for_pot s (set_actor seat now s)"
  "idle_for_pot s (s\<lparr>players := map drop_pending (players s)\<rparr>)" "idle_for_pot s (next_street now s)"
  by (auto simp: idle_for_pot_def o_def set_actor_def intro!: pot_total_cong)

lemma next_street_running: "street s \<noteq> Settled \<Longrightarrow> street (next_street now s) \<noteq> Settled"
  by (cases "street s") simp_all

lemma runout_idle: "runout n now s = Ok t \<Longrightarrow> street s \<noteq> Settled \<Longrightarrow> idle_for_pot s t \<and> street t \<noteq> Settled"
proof (induction n arbitrary: s)
  case (Suc n)
  show ?case
  proof (cases "street s = River")
    case True
    then show ?thesis using Suc.prems by (simp add: idle_for_pot_def)
  next
    case False
    then have "runout n now (next_street now s) = Ok t" using Suc.prems(1) by simp
    then have "idle_for_pot (next_street now s) t \<and> street t \<noteq> Settled"
      using Suc.IH next_street_running[OF Suc.prems(2)] by blast
    then show ?thesis using idle_trans[OF idle_simple(4) next_street_running[OF Suc.prems(2)]] by blast
  qed
qed (auto simp: idle_for_pot_def split: if_splits)

lemma progress_loop_idle:
  "progress_loop n ev after now s = Ok t \<Longrightarrow> table_ok s \<Longrightarrow> street s \<noteq> Settled \<Longrightarrow> idle_for_pot s t"
proof (induction n arbitrary: after s)
  case (Suc n)
  let ?d = "s\<lparr>players := map drop_pending (players s)\<rparr>"
  have d: "table_ok ?d" "street ?d \<noteq> Settled" using Suc.prems by simp_all
  have "idle_for_pot ?d t"
    using Suc.prems(1)
  proof (cases rule: progress_loop_cases)
    case settled
    then show ?thesis using settle_idle d by blast
  next
    case (run u)
    let ?e = "emit (event_of AllInRunout) now ?d"
    have u: "idle_for_pot ?e u" "street u \<noteq> Settled" using runout_idle[OF run(1)] d by simp_all
    have "table_ok u" using runout_Ok[OF run(1)] d by simp
    then have "idle_for_pot u t" using settle_idle run(2) by blast
    then show ?thesis using idle_trans[OF idle_trans[OF idle_simple(1) _ u(1)] u(2)] d by simp
  next
    case (act nxt)
    then show ?thesis by (simp only: idle_simple(2))
  next
    case street
    have "table_ok (next_street now ?d)" "street (next_street now ?d) \<noteq> Settled"
      using d next_street_running by simp_all
    then show ?thesis using Suc.IH[OF street(2)] idle_trans[OF idle_simple(4)] by blast
  qed
  then show ?case using idle_trans[OF idle_simple(3) d(2)] by blast
qed simp

lemma perform_event:
  "events (perform a target delta now timeout s) ! length (events s) =
     (event_of (if timeout then AutoActed (act_kind a) else Acted (act_kind a)))
       \<lparr>ev_seat := act_seat a, ev_delta := delta, ev_to := target, ev_action_id := act_id a, ev_sequence := length (events s) + 1,
        ev_version := version s + 1, ev_street := street s, ev_at := now\<rparr>"
  by (simp add: perform_def Let_def emit_def nth_append)

lemma perform_folds:
  assumes "distinct (map seat_no (players s))"
  shows "map folded (players (perform a target delta now timeout s)) =
    map (\<lambda>p. folded p \<or> act_kind a = Fold \<and> seat_no p = act_seat a) (players s)"
proof -
  have keep: "map folded (players (upd_player seat f t)) = map folded (players t)" if "\<And>p. folded (f p) = folded p" for seat f t
    using that by (rule upd_player_maps)
  have "map folded (players (upd_player seat (\<lambda>p. p\<lparr>folded := True\<rparr>) s)) = map (\<lambda>p. folded p \<or> seat_no p = seat) (players s)" for seat
    unfolding upd_player_def using assms
  proof (induction "players s" arbitrary: s)
    case (Cons p ps)
    have "map (\<lambda>q. folded q \<or> seat_no q = seat) ps = map folded ps" if "seat_no p = seat"
      using Cons.prems that unfolding Cons.hyps(2)[symmetric] by (auto simp: image_iff)
    then show ?case using Cons.hyps(1)[of "s\<lparr>players := ps\<rparr>"] Cons.prems unfolding Cons.hyps(2)[symmetric]
      by (auto simp flip: Cons.hyps(2))
  qed simp
  moreover have "map folded (players (raise_bet seat x t)) = map folded (players t)" for seat x t
    by (simp add: raise_bet_def Let_def o_def if_distrib cong: if_cong)
  ultimately show ?thesis by (simp add: perform_def Let_def keep)
qed

lemma timeout_due:
  assumes "timeout_action ev n now s = Ok (s', r)"
  shows "(rs_noop r \<longleftrightarrow> \<not> (street s \<noteq> Settled \<and> recovery_until s = None \<and> n = action_seq s \<and> deadline s \<le> now)) \<and>
    (\<not> (street s \<noteq> Settled \<and> recovery_until s = None \<and> n = action_seq s \<and> deadline s \<le> now) \<longrightarrow> s' = s)"
proof (cases "street s \<noteq> Settled \<and> recovery_until s = None \<and> n = action_seq s \<and> deadline s \<le> now")
  case True
  then obtain a where "apply_checked ev a now True s = Ok (s', r)"
    using assms by (auto simp: timeout_action_def Let_def split: if_splits)
  then have "\<not> rs_noop r" by (elim apply_checked_Ok) (simp add: result_from_def)
  then show ?thesis using True by blast
next
  case False
  then have "s' = s \<and> r = noop s" using assms by (auto simp: timeout_action_def split: if_splits)
  then show ?thesis using False by (simp add: noop_def)
qed

lemma timeout_idle:
  assumes "timeout_action ev n now s = Ok (s', r)" "\<not> rs_noop r" "validate_state s"
  defines "kind \<equiv> if lg_to_call (legal_actions s) = 0 then Check else Fold"
  shows "pot_total s' = pot_total s" "street s' \<noteq> Settled \<Longrightarrow> map stack (players s') = map stack (players s) \<and>
       map total_committed (players s') = map total_committed (players s)"
    "map folded (players s') = map (\<lambda>p. folded p \<or> kind = Fold \<and> seat_no p = actor s) (players s)"
    "ev_type (events s' ! length (events s)) = AutoActed kind" "ev_seat (events s' ! length (events s)) = actor s"
    "ev_delta (events s' ! length (events s)) = 0" "n = action_seq s" "deadline s \<le> now" "chips s' = chips s"
proof -
  obtain a where a: "apply_checked ev a now True s = Ok (s', r)" "act_kind a \<in> {Check, Fold}"
    "act_kind a = Check \<longleftrightarrow> lg_to_call (legal_actions s) = 0" "act_seat a = actor s"
    and seq: "n = action_seq s" "deadline s \<le> now"
    using assms(1,2) by (rule timeout_action_Ok)
  have kind: "act_kind a = kind" using a(2,3) by (auto simp: kind_def)
  from a(1) obtain p target m where p: "player s (act_seat a) = Some p" "street s \<noteq> Settled"
    "action_target (legal_actions s) p a = Some target"
    and run: "progress ev (act_seat a) now (perform a target (target - street_committed p) now True s) = Ok m"
    and s': "s' = m\<lparr>receipts := receipts m @ [\<lparr>rc_action = a, rc_first = length (events s), rc_last = length (events m)\<rparr>]\<rparr>"
    by (elim apply_checked_Ok) blast
  have target: "target - street_committed p = 0" using p(3) a(2) by (auto simp: action_target_def)
  let ?m = "perform a target 0 now True s"
  note money = validate_state_money[OF assms(3)]
  have ok: "table_ok ?m" by (rule table_ok_perform[OF money(1) p(1) money(5)])
      (use player_Some[OF p(1)] money(1) in \<open>auto simp: whole_units_def table_ok_def money_ok_def\<close>)
  have run0: "progress ev (act_seat a) now ?m = Ok m" using run by (simp only: target)
  have idle: "idle_for_pot ?m m"
    using progress_loop_idle[OF run0[unfolded progress_def] ok] p(2) by simp
  have "pots ?m = pots s" "returns ?m = returns s"
    by (simp_all add: perform_def Let_def raise_bet_def)
  then have pot: "pot_total ?m = pot_total s" using stacks_perform_idle(2)[OF a(2)] by (intro pot_total_cong)
  show "pot_total s' = pot_total s" using idle pot by (simp add: idle_for_pot_def s' pot_total_def current_pot_def)
  show "map stack (players s') = map stack (players s) \<and> map total_committed (players s') = map total_committed (players s)"
    if "street s' \<noteq> Settled" using that idle stacks_perform_idle[OF a(2)] by (simp add: idle_for_pot_def s')
  show "map folded (players s') = map (\<lambda>p. folded p \<or> kind = Fold \<and> seat_no p = actor s) (players s)"
    using idle perform_folds[OF money(5), of a target 0 now True] by (simp add: idle_for_pot_def s' kind a(4))
  have "grows ?m m" using run0 unfolding progress_def by (rule grows_progress_loop)
  then obtain es where "events m = events ?m @ es" by (auto simp: grows_def)
  then have "events s' ! length (events s) = events ?m ! length (events s)"
    using grows_perform(2)[of a target 0 now True s] by (simp add: s' nth_append)
  then show "ev_type (events s' ! length (events s)) = AutoActed kind" "ev_seat (events s' ! length (events s)) = actor s"
    "ev_delta (events s' ! length (events s)) = 0"
    by (simp_all add: perform_event kind a(4) event_of_def)
  show "n = action_seq s" "deadline s \<le> now" by (rule seq)+
  show "chips s' = chips s" by (rule apply_checked_kept(1)[OF a(1) assms(3)])
qed

end
