(* ===== verification/PokerSamples.thy ===== *)
theory PokerSamples
  imports PokerRun
begin

text \<open>
  A concrete heads-up hand, dealt and played by evaluation, on which the properties of the hand
  engine are instantiated.
\<close>

definition sample_config :: config where
  "sample_config = \<lparr>hand_id = ''h'', button_seat = 1, small_blind = 5 * units_per_chip,
     big_blind = 10 * units_per_chip, frozen_deck = [0..<52], evaluator_version = evaluator_version_v1,
     button_selection = None\<rparr>"

definition sample_seat :: "int \<Rightarrow> string \<Rightarrow> seat" where
  "sample_seat n who = \<lparr>seat_no = n, player_id = who, stack = 100 * units_per_chip,
     consecutive_timeouts = 0, timeout_sit_out = False\<rparr>"

definition sample_seats :: "seat list" where
  "sample_seats = [sample_seat 2 ''b'', sample_seat 1 ''a'']"

definition sample_hand :: state where
  "sample_hand = (case new_hand sample_config sample_seats 1 evaluate_hand of Ok s \<Rightarrow> s
     | _ \<Rightarrow> empty_hand sample_config [] 0)"

definition sample_action :: "action_kind \<Rightarrow> action" where
  "sample_action k = \<lparr>act_id = ''x'', act_seat = 1, expected_version = 8, act_kind = k, act_to = 0\<rparr>"

definition sample_checks :: "state \<Rightarrow> bool" where
  "sample_checks s \<longleftrightarrow>
     (case apply_action evaluate_hand (sample_action AllIn) 2 s of
        Ok (t, r) \<Rightarrow> \<not> rs_duplicate r \<and> street t = Preflop | _ \<Rightarrow> False) \<and>
     (case timeout_action evaluate_hand 1 (1 + decision_window) s of
        Ok (t, r) \<Rightarrow> \<not> rs_noop r \<and> street t = Settled | _ \<Rightarrow> False) \<and>
     street s = Preflop \<and> dealt_ok s \<and> recovery_until s = None \<and>
     map_option stack (player s (actor s)) = Some (95 * units_per_chip) \<and>
     AllIn \<in> set (lg_actions (legal_actions s))"

lemma sample_run:
  "case new_hand sample_config sample_seats 1 evaluate_hand of Ok s \<Rightarrow> sample_checks s | _ \<Rightarrow> False"
  by code_simp

lemma sample_new: "new_hand sample_config sample_seats 1 evaluate_hand = Ok sample_hand"
  and sample_ok: "sample_checks sample_hand"
  using sample_run by (auto simp: sample_hand_def split: res.splits)

lemma sample_valid: "validate_state sample_hand"
  using new_hand_Ok[OF sample_new] by blast

lemma sample_all_in: "\<exists>t r. apply_action evaluate_hand (sample_action AllIn) 2 sample_hand = Ok (t, r) \<and> \<not> rs_duplicate r"
  using sample_ok by (auto simp: sample_checks_def split: res.splits prod.splits)

lemma sample_timeout: "\<exists>t r. timeout_action evaluate_hand 1 (1 + decision_window) sample_hand = Ok (t, r) \<and> \<not> rs_noop r"
  using sample_ok by (auto simp: sample_checks_def split: res.splits prod.splits)

text \<open>A table at the end of a hand: seat 2 has folded, seat 1 has matched and raised.\<close>

definition sample_player :: "int \<Rightarrow> int \<Rightarrow> bool \<Rightarrow> participant" where
  "sample_player n paid out = \<lparr>seat_no = n, player_id = ''a'', stack = 90 * units_per_chip,
     consecutive_timeouts = 0, timeout_sit_out = False, initial_stack = 100 * units_per_chip,
     hole = (0, 1), street_committed = paid * units_per_chip, total_committed = paid * units_per_chip,
     folded = out, last_acted_full_raise = 0, pending = False, disconnected_since = None,
     disconnect_sit_out = False\<rparr>"

definition sample_table :: state where
  "sample_table = empty_hand sample_config
     [sample_player 1 20 False, sample_player 2 10 True, sample_player 3 5 True] (300 * units_per_chip)"

end
