(* ===== verification/Fairness.thy ===== *)
theory Fairness
  imports Prelude
begin

text \<open>
  \<open>internal/games/fairness\<close> and \<open>internal/poker/fairness\<close>: the deterministic random streams
  every game draws from. HMAC-SHA-256 is a parameter; what the code relies on is that it
  returns 32 bytes (\<open>hmac_ok\<close>). A round's public inputs are byte strings, as Go strings are.
\<close>

datatype game_error =
    ErrInvalidInput | ErrSeedMismatch | ErrConfigMismatch | ErrInvalidConfig
  | ErrStreamExhausted | ErrActionInvalid | ErrPokerUniformRange | ErrPokerSeed | ErrPokerUUID
  | ErrParticipantCount | ErrContribution | SliceBoundsPanic

type_synonym hmac = "byte list \<Rightarrow> byte list \<Rightarrow> byte list"

definition hmac_ok :: "hmac \<Rightarrow> bool" where
  "hmac_ok mac \<longleftrightarrow> (\<forall>k m. length (mac k m) = 32)"

subsection \<open>Labels and client seeds\<close>

definition valid_label :: "byte list \<Rightarrow> nat \<Rightarrow> bool" where
  "valid_label s max_bytes \<longleftrightarrow>
     \<not> (s = [] \<or> length s > max_bytes) \<and> list_all (\<lambda>b. 33 \<le> unat b \<and> unat b \<le> 126) s"

definition utf8_cont :: "nat \<Rightarrow> bool" where
  "utf8_cont b \<longleftrightarrow> 128 \<le> b \<and> b \<le> 191"

text \<open>Go's UTF-8 decoder (\<open>utf8.ValidString\<close> and \<open>range\<close> over a string): the runes of a valid
  byte string, \<open>None\<close> for surrogates, overlong forms and truncated sequences.\<close>

fun utf8_runes :: "nat list \<Rightarrow> nat list option" where
  "utf8_runes [] = Some []"
| "utf8_runes (a # bs) =
     (if a < 128 then map_option ((#) a) (utf8_runes bs)
      else if a < 194 then None
      else if a < 224 then
        (case bs of b # r \<Rightarrow>
           if utf8_cont b then map_option ((#) ((a - 192) * 64 + (b - 128))) (utf8_runes r) else None
         | [] \<Rightarrow> None)
      else if a < 240 then
        (case bs of b # c # r \<Rightarrow>
           if utf8_cont b \<and> utf8_cont c \<and> (a = 224 \<longrightarrow> 160 \<le> b) \<and> (a = 237 \<longrightarrow> b \<le> 159)
           then map_option ((#) ((a - 224) * 4096 + (b - 128) * 64 + (c - 128))) (utf8_runes r)
           else None
         | _ \<Rightarrow> None)
      else if a < 245 then
        (case bs of b # c # d # r \<Rightarrow>
           if utf8_cont b \<and> utf8_cont c \<and> utf8_cont d \<and> (a = 240 \<longrightarrow> 144 \<le> b) \<and> (a = 244 \<longrightarrow> b \<le> 143)
           then map_option ((#) ((a - 240) * 262144 + (b - 128) * 4096 + (c - 128) * 64 + (d - 128)))
                  (utf8_runes r)
           else None
         | _ \<Rightarrow> None)
      else None)"

definition is_control :: "nat \<Rightarrow> bool" where
  "is_control r \<longleftrightarrow> r < 32 \<or> 127 \<le> r \<and> r < 160"

definition valid_client_seed :: "byte list \<Rightarrow> bool" where
  "valid_client_seed s \<longleftrightarrow> 1 \<le> length s \<and> length s \<le> 128 \<and>
     (case utf8_runes (map unat s) of None \<Rightarrow> False | Some rs \<Rightarrow> \<not> list_ex is_control rs)"

subsection \<open>The canonical stream message\<close>

record round =
  rd_id :: "byte list"
  rd_game :: "byte list"
  rd_client_seed :: "byte list"
  rd_nonce :: int
  rd_stream_version :: "byte list"
  rd_algorithm_version :: "byte list"
  rd_config_version :: "byte list"
  rd_config_hash :: "byte list"
  rd_server_seed_hash :: "byte list"

definition ascii :: "string \<Rightarrow> byte list" where
  "ascii s = map (\<lambda>c. word_of_nat (of_char c)) s"

definition append_lp16 :: "byte list \<Rightarrow> byte list \<Rightarrow> byte list" where
  "append_lp16 dst s = dst @ be_bytes 2 (length s) @ s"

text \<open>\<open>uint64(nonce)\<close>: the two's complement reading of an \<open>int64\<close>.\<close>

definition uint64_of :: "int \<Rightarrow> nat" where
  "uint64_of x = nat (x mod 2 ^ 64)"

definition canonical_stream_message :: "round \<Rightarrow> byte list \<Rightarrow> nat \<Rightarrow> byte list" where
  "canonical_stream_message r domain block =
     (let b = ascii ''CHALDEA-PF-HMAC-SHA256-V1'' @ [0];
          b = append_lp16 b (rd_game r);
          b = b @ rd_id r;
          b = b @ be_bytes 8 (uint64_of (rd_nonce r));
          b = append_lp16 b (rd_client_seed r);
          b = append_lp16 b (rd_algorithm_version r);
          b = append_lp16 b domain
      in b @ be_bytes 8 block)"

subsection \<open>The stream\<close>

record stream =
  st_seed :: "byte list"
  st_message :: "byte list"
  st_block :: "byte list"
  st_offset :: nat
  st_index :: nat
  st_exhausted :: bool

definition stream_version :: "byte list" where
  "stream_version = ascii ''chaldea-pf-hmac-sha256-v1''"

definition max_uint64 :: nat where "max_uint64 = 18446744073709551615"

definition new_stream ::
  "(byte list \<Rightarrow> byte list) \<Rightarrow> byte list \<Rightarrow> round \<Rightarrow> byte list \<Rightarrow> (game_error, stream) res" where
  "new_stream sha server_seed r domain =
     (if length server_seed \<noteq> 32 then Fail ErrInvalidInput
      else if \<not> valid_label (rd_game r) 128 \<or> \<not> valid_label (rd_algorithm_version r) 128 \<or>
              \<not> valid_label (rd_config_version r) 128 \<or> \<not> valid_label domain 65535 \<or>
              rd_stream_version r \<noteq> stream_version \<or> rd_nonce r < 0 \<or>
              unat (rd_id r ! 6) div 16 \<noteq> 7 \<or> unat (rd_id r ! 8) div 64 \<noteq> 2 \<or>
              rd_config_hash r = replicate 32 0 \<or> \<not> valid_client_seed (rd_client_seed r)
      then Fail ErrInvalidInput
      else if sha server_seed \<noteq> rd_server_seed_hash r then Fail ErrSeedMismatch
      else Ok \<lparr>st_seed = server_seed, st_message = canonical_stream_message r domain 0,
               st_block = replicate 32 0, st_offset = 32, st_index = 0, st_exhausted = False\<rparr>)"

text \<open>Writing the block index into the last eight bytes of the message and hashing it.\<close>

definition refill :: "hmac \<Rightarrow> stream \<Rightarrow> stream" where
  "refill mac s =
     (let msg = take (length (st_message s) - 8) (st_message s) @ be_bytes 8 (st_index s);
          s = s\<lparr>st_message := msg, st_block := mac (st_seed s) msg, st_offset := 0\<rparr>
      in if st_index s = max_uint64 then s\<lparr>st_exhausted := True\<rparr>
         else s\<lparr>st_index := st_index s + 1\<rparr>)"

text \<open>\<open>Stream.Read\<close>: the bytes copied so far, the bytes still wanted, the error if any. The
  block is an array of 32 bytes, so an offset beyond 32 is a slice panic.\<close>

function stream_read_loop ::
  "hmac \<Rightarrow> stream \<Rightarrow> nat \<Rightarrow> byte list \<Rightarrow> byte list \<times> game_error option \<times> stream" where
  "stream_read_loop mac s want got =
     (if want = 0 then (got, None, s)
      else if st_offset s = 32 \<and> st_exhausted s then (got, Some ErrStreamExhausted, s)
      else if st_offset s > 32 then (got, Some SliceBoundsPanic, s)
      else let s1 = (if st_offset s = 32 then refill mac s else s);
               copied = min want (32 - st_offset s1)
           in stream_read_loop mac (s1\<lparr>st_offset := st_offset s1 + copied\<rparr>) (want - copied)
                (got @ take copied (drop (st_offset s1) (st_block s1))))"
  by pat_completeness auto
termination
  by (relation "measure (\<lambda>(mac, s, want, got). want)") (auto simp: refill_def Let_def)

declare stream_read_loop.simps [simp del]

definition stream_read :: "hmac \<Rightarrow> stream \<Rightarrow> nat \<Rightarrow> byte list \<times> game_error option \<times> stream" where
  "stream_read mac s n = stream_read_loop mac s n []"

text \<open>\<open>io.ReadFull\<close> of four bytes, read big-endian.\<close>

definition stream_word :: "hmac \<Rightarrow> stream \<Rightarrow> (game_error, nat \<times> stream) res" where
  "stream_word mac s =
     (case stream_read mac s 4 of
        (bs, Some e, s') \<Rightarrow> Fail e
      | (bs, None, s') \<Rightarrow> Ok (be_val bs, s'))"

subsection \<open>Rejection sampling\<close>

text \<open>
  The loop of \<open>UniformInt\<close>: draw 32-bit words until one lies below the limit. Nothing in the
  source bounds the number of draws, so the loop is a partial function.
\<close>

partial_function (option) reject_loop ::
  "('s \<Rightarrow> ('e, nat \<times> 's) res) \<Rightarrow> nat \<Rightarrow> nat \<Rightarrow> 's \<Rightarrow> ('e, nat \<times> 's) res option" where
  "reject_loop next limit n s =
     (case next s of
        Fail e \<Rightarrow> Some (Fail e)
      | Hang \<Rightarrow> Some Hang
      | Ok v \<Rightarrow> if fst v < limit then Some (Ok (fst v mod n, snd v))
                else reject_loop next limit n (snd v))"

declare reject_loop.simps [code]

definition returned :: "('e, 'a) res option \<Rightarrow> ('e, 'a) res" where
  "returned r = (case r of None \<Rightarrow> Hang | Some x \<Rightarrow> x)"

definition uniform_limit :: "nat \<Rightarrow> nat" where
  "uniform_limit n = 2 ^ 32 - 2 ^ 32 mod n"

definition uniform_int ::
  "('s \<Rightarrow> (game_error, nat \<times> 's) res) \<Rightarrow> 's \<Rightarrow> nat \<Rightarrow> (game_error, nat \<times> 's) res" where
  "uniform_int next s n =
     (if n = 0 \<or> n > 2 ^ 32 then Fail ErrInvalidInput
      else returned (reject_loop next (uniform_limit n) n s))"

text \<open>The Poker-local copy differs only in its error value.\<close>

definition poker_uniform ::
  "('s \<Rightarrow> (game_error, nat \<times> 's) res) \<Rightarrow> 's \<Rightarrow> nat \<Rightarrow> (game_error, nat \<times> 's) res" where
  "poker_uniform next s n =
     (if n < 1 \<or> n > 2 ^ 32 then Fail ErrPokerUniformRange
      else returned (reject_loop next (uniform_limit n) n s))"

lemma reject_loop_range:
  assumes "reject_loop next limit n s = Some r" "0 < n" "r = Ok (v, s')"
  shows "v < n"
proof -
  have "0 < n \<longrightarrow> (\<forall>v s'. r = Ok (v, s') \<longrightarrow> v < n)"
  proof (rule reject_loop.raw_induct
      [where P = "\<lambda>next limit n s r. 0 < n \<longrightarrow> (\<forall>v s'. r = Ok (v, s') \<longrightarrow> v < n)", OF _ assms(1)],
      goal_cases)
    case (1 f nxt limit n s r)
    then show ?case
      by (fastforce split: res.splits if_splits)
  qed
  then show ?thesis using assms by blast
qed

text \<open>The loop only reports errors of the source of words.\<close>

lemma reject_loop_fail:
  assumes "reject_loop next limit n s = Some r" "r = Fail e"
  shows "\<exists>t. next t = Fail e"
proof -
  have "\<forall>e. r = Fail e \<longrightarrow> (\<exists>t. next t = Fail e)"
  proof (rule reject_loop.raw_induct
      [where P = "\<lambda>next limit n s r. \<forall>e. r = Fail e \<longrightarrow> (\<exists>t. next t = Fail e)", OF _ assms(1)],
      goal_cases)
    case (1 f nxt limit n s r)
    then show ?case by (fastforce split: res.splits if_splits)
  qed
  then show ?thesis using assms(2) by blast
qed

lemma returned_Ok: "returned r = Ok x \<longleftrightarrow> r = Some (Ok x)"
  by (simp add: returned_def split: option.splits)

lemma uniform_int_less: "uniform_int next s n = Ok (v, s') \<Longrightarrow> v < n"
  by (auto simp: uniform_int_def returned_Ok split: if_splits dest: reject_loop_range)

lemma poker_uniform_less: "poker_uniform next s n = Ok (v, s') \<Longrightarrow> v < n"
  by (auto simp: poker_uniform_def returned_Ok split: if_splits dest: reject_loop_range)

lemma uniform_int_fail:
  "uniform_int next s n = Fail e \<Longrightarrow> 0 < n \<Longrightarrow> n \<le> 2 ^ 32 \<Longrightarrow> \<exists>t. next t = Fail e"
  by (auto simp: uniform_int_def returned_def split: option.splits dest: reject_loop_fail)

end
