(* ===== verification/StreamFacts.thy ===== *)
theory StreamFacts
  imports Fairness
begin

text \<open>
  What the streams deliver: reading is the HMAC key stream, in order, whatever the chunks;
  rejection sampling is unbiased and returns on an exhaustible stream; the canonical message
  separates rounds, domains and blocks.
\<close>

subsection \<open>The key stream\<close>

definition keystream :: "hmac \<Rightarrow> byte list \<Rightarrow> byte list \<Rightarrow> nat \<Rightarrow> byte" where
  "keystream mac seed prefix k = mac seed (prefix @ be_bytes 8 (k div 32)) ! (k mod 32)"

definition blocks_done :: "stream \<Rightarrow> nat" where
  "blocks_done s = (if st_exhausted s then Suc max_uint64 else st_index s)"

definition stream_pos :: "stream \<Rightarrow> nat" where
  "stream_pos s = 32 * blocks_done s - (32 - st_offset s)"

definition stream_limit :: nat where
  "stream_limit = 32 * Suc max_uint64"

definition stream_inv :: "hmac \<Rightarrow> byte list \<Rightarrow> byte list \<Rightarrow> stream \<Rightarrow> bool" where
  "stream_inv mac seed prefix s \<longleftrightarrow>
     st_seed s = seed \<and> length (st_message s) = length prefix + 8 \<and>
     take (length prefix) (st_message s) = prefix \<and>
     st_offset s \<le> 32 \<and> st_index s \<le> max_uint64 \<and>
     (if blocks_done s = 0 then st_offset s = 32
      else st_block s = mac seed (prefix @ be_bytes 8 (blocks_done s - 1)))"

lemma refill_inv:
  assumes "stream_inv mac seed prefix s" "st_offset s = 32" "\<not> st_exhausted s"
  shows "stream_inv mac seed prefix (refill mac s)" "st_offset (refill mac s) = 0"
    "stream_pos (refill mac s) = stream_pos s" "0 < blocks_done (refill mac s)"
  using assms
  by (auto simp: refill_def stream_inv_def blocks_done_def stream_pos_def Let_def)

lemma block_chunk:
  assumes "stream_inv mac seed prefix s" "0 < blocks_done s" "st_offset s + c \<le> 32"
  shows "take c (drop (st_offset s) (st_block s))
       = map (keystream mac seed prefix) [stream_pos s ..< stream_pos s + c] \<or> length (st_block s) \<noteq> 32"
proof (rule disjCI, simp)
  assume len: "length (st_block s) = 32"
  obtain b where b: "blocks_done s = Suc b" using assms(2) by (cases "blocks_done s") auto
  have blk: "st_block s = mac seed (prefix @ be_bytes 8 b)"
    using assms(1) b by (simp add: stream_inv_def)
  have pos: "stream_pos s = 32 * b + st_offset s"
    using b assms(3) by (simp add: stream_pos_def)
  show "take c (drop (st_offset s) (st_block s))
      = map (keystream mac seed prefix) [stream_pos s ..< stream_pos s + c]"
  proof (rule nth_equalityI)
    show "length (take c (drop (st_offset s) (st_block s)))
        = length (map (keystream mac seed prefix) [stream_pos s ..< stream_pos s + c])"
      using assms(3) len by simp
  next
    fix i assume "i < length (take c (drop (st_offset s) (st_block s)))"
    then have i: "i < c" "st_offset s + i < 32" using len assms(3) by auto
    then have "(32 * b + (st_offset s + i)) div 32 = b" "(32 * b + (st_offset s + i)) mod 32 = st_offset s + i"
      by simp_all
    then show "take c (drop (st_offset s) (st_block s)) ! i
        = map (keystream mac seed prefix) [stream_pos s ..< stream_pos s + c] ! i"
      using i len pos blk by (simp add: keystream_def add.assoc)
  qed
qed

lemma stream_inv_block_length:
  "hmac_ok mac \<Longrightarrow> stream_inv mac seed prefix s \<Longrightarrow> 0 < blocks_done s \<Longrightarrow> length (st_block s) = 32"
  by (auto simp: stream_inv_def hmac_ok_def)

lemma advance_inv:
  assumes "stream_inv mac seed prefix s" "0 < blocks_done s" "st_offset s + c \<le> 32"
  shows "stream_inv mac seed prefix (s\<lparr>st_offset := st_offset s + c\<rparr>)"
    "stream_pos (s\<lparr>st_offset := st_offset s + c\<rparr>) = stream_pos s + c"
  using assms
  by (auto simp: stream_inv_def blocks_done_def stream_pos_def split: if_splits)

lemma stream_read_loop_keystream:
  "hmac_ok mac \<Longrightarrow> stream_inv mac seed prefix s \<Longrightarrow> stream_pos s + want \<le> stream_limit \<Longrightarrow>
     \<exists>s'. stream_read_loop mac s want got
            = (got @ map (keystream mac seed prefix) [stream_pos s ..< stream_pos s + want], None, s')
          \<and> stream_inv mac seed prefix s' \<and> stream_pos s' = stream_pos s + want"
proof (induction mac s want got rule: stream_read_loop.induct)
  case (1 mac s want got)
  show ?case
  proof (cases "want = 0")
    case True
    then show ?thesis using 1 by (subst stream_read_loop.simps) simp
  next
    case False
    have off: "\<not> (st_offset s > 32)" using 1(3) by (simp add: stream_inv_def)
    have nex: "\<not> (st_offset s = 32 \<and> st_exhausted s)"
      using 1(4) False by (auto simp: stream_pos_def blocks_done_def stream_limit_def)
    define s1 where "s1 = (if st_offset s = 32 then refill mac s else s)"
    define c where "c = min want (32 - st_offset s1)"
    have s1: "stream_inv mac seed prefix s1" "stream_pos s1 = stream_pos s"
      "0 < blocks_done s1" "st_offset s1 < 32"
      using refill_inv[OF 1(3)] 1(3) off nex
      by (auto simp: s1_def stream_inv_def split: if_splits)
    have c: "st_offset s1 + c \<le> 32" "c \<le> want" using s1(4) by (auto simp: c_def)
    define s2 where "s2 = s1\<lparr>st_offset := st_offset s1 + c\<rparr>"
    have s2: "stream_inv mac seed prefix s2" "stream_pos s2 = stream_pos s + c"
      using advance_inv[OF s1(1,3) c(1)] s1(2) by (simp_all add: s2_def)
    let ?part = "take c (drop (st_offset s1) (st_block s1))"
    have chunk: "?part = map (keystream mac seed prefix) [stream_pos s ..< stream_pos s + c]"
      using block_chunk[OF s1(1,3) c(1)] stream_inv_block_length[OF 1(2) s1(1,3)] s1(2) by simp
    have step: "stream_read_loop mac s want got = stream_read_loop mac s2 (want - c) (got @ ?part)"
      using False off nex
      by (subst stream_read_loop.simps) (auto simp: s1_def c_def s2_def Let_def)
    have "\<exists>s'. stream_read_loop mac s2 (want - c) (got @ ?part)
            = ((got @ ?part) @ map (keystream mac seed prefix) [stream_pos s2 ..< stream_pos s2 + (want - c)], None, s')
          \<and> stream_inv mac seed prefix s' \<and> stream_pos s' = stream_pos s2 + (want - c)"
      unfolding s2_def c_def s1_def
      by (rule 1(1)[OF False nex off refl refl 1(2)])
        (use s2 1(4) c in \<open>simp_all add: s2_def c_def s1_def\<close>)
    moreover have "[stream_pos s ..< stream_pos s + want]
        = [stream_pos s ..< stream_pos s + c] @ [stream_pos s + c ..< stream_pos s + c + (want - c)]"
      using upt_add_eq_append[of "stream_pos s" "stream_pos s + c" "want - c"] c by simp
    ultimately show ?thesis
      using c s2(2) by (simp add: step chunk)
  qed
qed

theorem stream_read_keystream:
  assumes "hmac_ok mac" "stream_inv mac seed prefix s" "stream_pos s + n \<le> stream_limit"
  obtains s' where "stream_read mac s n
      = (map (keystream mac seed prefix) [stream_pos s ..< stream_pos s + n], None, s')"
    "stream_inv mac seed prefix s'" "stream_pos s' = stream_pos s + n"
  using stream_read_loop_keystream[OF assms, of "[]"] by (auto simp: stream_read_def)

text \<open>A fresh stream stands at position 0 of the key stream of its own message.\<close>

definition stream_prefix :: "round \<Rightarrow> byte list \<Rightarrow> byte list" where
  "stream_prefix r domain =
     ascii ''CHALDEA-PF-HMAC-SHA256-V1'' @ [0] @ be_bytes 2 (length (rd_game r)) @ rd_game r @ rd_id r @
     be_bytes 8 (uint64_of (rd_nonce r)) @ be_bytes 2 (length (rd_client_seed r)) @ rd_client_seed r @
     be_bytes 2 (length (rd_algorithm_version r)) @ rd_algorithm_version r @
     be_bytes 2 (length domain) @ domain"

lemma canonical_stream_message_block:
  "canonical_stream_message r domain k = stream_prefix r domain @ be_bytes 8 k"
  by (simp add: canonical_stream_message_def stream_prefix_def append_lp16_def Let_def)

lemma lp16_cancel:
  assumes "length a < 65536" "length b < 65536"
  shows "be_bytes 2 (length a) = be_bytes 2 (length b) \<and> a @ x = b @ y \<longleftrightarrow> a = b \<and> x = y"
proof -
  have "be_bytes 2 (length a) = be_bytes 2 (length b) \<longleftrightarrow> length a = length b"
    using assms by (intro be_bytes_inject) simp_all
  then show ?thesis by auto
qed

text \<open>The inputs of a round as \<open>NewStream\<close> admits them.\<close>

definition round_sizes :: "round \<Rightarrow> byte list \<Rightarrow> bool" where
  "round_sizes r domain \<longleftrightarrow> length (rd_game r) < 65536 \<and> length (rd_id r) = 16 \<and>
     length (rd_client_seed r) < 65536 \<and> length (rd_algorithm_version r) < 65536 \<and>
     length domain < 65536 \<and> 0 \<le> rd_nonce r \<and> rd_nonce r \<le> max_int64"

lemma new_stream_sizes:
  "new_stream sha seed r domain = Ok s \<Longrightarrow> length (rd_id r) = 16 \<Longrightarrow> rd_nonce r \<le> max_int64 \<Longrightarrow>
   round_sizes r domain"
  by (auto simp: new_stream_def round_sizes_def valid_label_def valid_client_seed_def split: if_splits)

lemma uint64_of_inject:
  assumes "0 \<le> x" "x \<le> max_int64" "0 \<le> y" "y \<le> max_int64"
  shows "be_bytes 8 (uint64_of x) = be_bytes 8 (uint64_of y) \<longleftrightarrow> x = y"
proof -
  have "uint64_of x = nat x" "uint64_of y = nat y" using assms by (simp_all add: uint64_of_def)
  moreover have "nat x < 256 ^ 8" "nat y < 256 ^ 8" using assms by (simp_all add: nat_less_iff)
  ultimately show ?thesis using assms be_bytes_inject[of "nat x" 8 "nat y"] by (auto simp: eq_nat_nat_iff)
qed

lemma stream_prefix_eq:
  assumes "round_sizes r d" "round_sizes r' d'"
  shows "stream_prefix r d @ x = stream_prefix r' d' @ y \<longleftrightarrow>
    rd_game r = rd_game r' \<and> rd_id r = rd_id r' \<and> rd_nonce r = rd_nonce r' \<and>
    rd_client_seed r = rd_client_seed r' \<and> rd_algorithm_version r = rd_algorithm_version r' \<and> d = d' \<and> x = y"
  using assms unfolding stream_prefix_def round_sizes_def
  by (simp add: lp16_cancel lp16_cancel[where x = "[]" and y = "[]", simplified] uint64_of_inject
      del: be_bytes.simps)

lemma new_stream_inv:
  assumes "new_stream sha seed r domain = Ok s"
  shows "stream_inv mac seed (stream_prefix r domain) s" "stream_pos s = 0"
  using assms canonical_stream_message_block[of r domain 0]
  by (auto simp: new_stream_def stream_inv_def stream_pos_def blocks_done_def max_uint64_def
      split: if_splits)

subsection \<open>Exhaustion\<close>

lemma stream_read_loop_ends:
  "stream_inv mac seed prefix s \<Longrightarrow> stream_read_loop mac s want got = (bs, e, s') \<Longrightarrow>
     (e = None \<and> stream_inv mac seed prefix s' \<and> stream_pos s' = stream_pos s + want)
     \<or> (e = Some ErrStreamExhausted)"
proof (induction mac s want got rule: stream_read_loop.induct)
  case (1 mac s want got)
  have off: "\<not> (st_offset s > 32)" using 1(2) by (simp add: stream_inv_def)
  consider "want = 0" | "want \<noteq> 0" "st_offset s = 32 \<and> st_exhausted s"
    | "want \<noteq> 0" "\<not> (st_offset s = 32 \<and> st_exhausted s)" by blast
  then show ?case
  proof cases
    case 1
    then show ?thesis using "1.prems" by (subst (asm) stream_read_loop.simps) auto
  next
    case 2
    then show ?thesis using "1.prems" by (subst (asm) stream_read_loop.simps) auto
  next
    case 3
    define s1 where "s1 = (if st_offset s = 32 then refill mac s else s)"
    define c where "c = min want (32 - st_offset s1)"
    have s1: "stream_inv mac seed prefix s1" "stream_pos s1 = stream_pos s"
      "0 < blocks_done s1" "st_offset s1 < 32"
      using refill_inv[OF "1.prems"(1)] "1.prems"(1) off 3
      by (auto simp: s1_def stream_inv_def split: if_splits)
    have c: "st_offset s1 + c \<le> 32" "c \<le> want" using s1(4) by (auto simp: c_def)
    define s2 where "s2 = s1\<lparr>st_offset := st_offset s1 + c\<rparr>"
    have s2: "stream_inv mac seed prefix s2" "stream_pos s2 = stream_pos s + c"
      using advance_inv[OF s1(1,3) c(1)] s1(2) by (simp_all add: s2_def)
    let ?part = "take c (drop (st_offset s1) (st_block s1))"
    have step: "stream_read_loop mac s want got = stream_read_loop mac s2 (want - c) (got @ ?part)"
      using 3 off
      by (subst stream_read_loop.simps) (auto simp: s1_def c_def s2_def Let_def)
    have "(e = None \<and> stream_inv mac seed prefix s' \<and> stream_pos s' = stream_pos s2 + (want - c))
        \<or> e = Some ErrStreamExhausted"
      using "1.IH"[OF 3 off refl refl] s2(1) "1.prems"(2)
      unfolding step s2_def c_def s1_def by blast
    then show ?thesis using s2(2) c(2) by auto
  qed
qed

lemma stream_pos_le: "stream_inv mac seed prefix s \<Longrightarrow> stream_pos s \<le> stream_limit"
  by (auto simp: stream_inv_def stream_pos_def blocks_done_def stream_limit_def)

lemma stream_word_cases:
  assumes "stream_inv mac seed prefix s"
  shows "stream_word mac s = Fail ErrStreamExhausted \<or>
    (\<exists>w s'. stream_word mac s = Ok (w, s') \<and> stream_inv mac seed prefix s' \<and> stream_pos s' = stream_pos s + 4)"
proof -
  obtain bs e s' where "stream_read mac s 4 = (bs, e, s')" by (cases "stream_read mac s 4")
  with stream_read_loop_ends[OF assms, of 4 "[]"] show ?thesis
    by (auto simp: stream_word_def stream_read_def)
qed

lemma reject_loop_stream:
  assumes "stream_inv mac seed prefix s"
  shows "\<exists>r. reject_loop (stream_word mac) limit n s = Some r \<and>
    (r = Fail ErrStreamExhausted \<or> (\<exists>v s'. r = Ok (v, s') \<and> stream_inv mac seed prefix s'))"
  using assms
proof (induction "stream_limit - stream_pos s" arbitrary: s rule: less_induct)
  case less
  from stream_word_cases[OF less.prems] show ?case
  proof
    assume "stream_word mac s = Fail ErrStreamExhausted"
    then show ?thesis by (simp add: reject_loop.simps)
  next
    assume "\<exists>w s'. stream_word mac s = Ok (w, s') \<and> stream_inv mac seed prefix s'
        \<and> stream_pos s' = stream_pos s + 4"
    then obtain w s' where s': "stream_word mac s = Ok (w, s')" "stream_inv mac seed prefix s'"
      "stream_pos s' = stream_pos s + 4" by blast
    have "stream_limit - stream_pos s' < stream_limit - stream_pos s"
      using stream_pos_le[OF s'(2)] s'(3) by simp
    from less.hyps[OF this s'(2)] show ?thesis
      using s' by (auto simp: reject_loop.simps[of _ _ _ s])
  qed
qed

subsection \<open>Lack of bias\<close>

lemma uniform_limit_eq: "uniform_limit n = 2 ^ 32 div n * n"
  unfolding uniform_limit_def by (rule minus_mod_eq_div_mult)

lemma card_residues:
  assumes "r < (n::nat)"
  shows "card {x. x < k * n \<and> x mod n = r} = k"
proof -
  have "{x. x < k * n \<and> x mod n = r} = (\<lambda>q. q * n + r) ` {..<k}"
  proof (intro equalityI subsetI)
    fix x assume "x \<in> {x. x < k * n \<and> x mod n = r}"
    then have "x div n < k" "x = x div n * n + r" using assms
      by (auto simp: less_mult_imp_div_less)
    then show "x \<in> (\<lambda>q. q * n + r) ` {..<k}" by blast
  next
    fix x assume "x \<in> (\<lambda>q. q * n + r) ` {..<k}"
    then obtain q where q: "q < k" "x = q * n + r" by blast
    then have "q * n + r < (q + 1) * n" using assms by simp
    also have "\<dots> \<le> k * n" using q(1) by (intro mult_le_mono1) simp
    finally show "x \<in> {x. x < k * n \<and> x mod n = r}" using q assms by simp
  qed
  moreover have "inj_on (\<lambda>q. q * n + r) {..<k}" using assms by (auto simp: inj_on_def)
  ultimately show ?thesis by (simp add: card_image)
qed

text \<open>A source that serves a given list of words.\<close>

fun list_word :: "nat list \<Rightarrow> (game_error, nat \<times> nat list) res" where
  "list_word [] = Fail ErrStreamExhausted"
| "list_word (w # ws) = Ok (w, ws)"

lemma uniform_int_one_word:
  "0 < n \<Longrightarrow> n \<le> 2 ^ 32 \<Longrightarrow>
    uniform_int list_word [x] n = (if x < uniform_limit n then Ok (x mod n, []) else Fail ErrStreamExhausted)"
  by (simp add: uniform_int_def reject_loop.simps returned_def)

end
