(* ===== verification/Shuffle.thy ===== *)
theory Shuffle
  imports StreamFacts
begin

text \<open>
  The Fisher-Yates loop the packages share (roulette \<open>shuffle\<close>, games \<open>shuffle\<close>, the deck
  loop of Poker's \<open>Derive\<close>, \<open>blackjack.Shuffle\<close>) over an arbitrary source of bounded draws.
  What it relies on is the interface \<open>sampler\<close>: a draw below \<open>n\<close> lies below \<open>n\<close>; a
  \<open>returning_sampler\<close> also comes back, with a value or an error.
\<close>

text \<open>\<open>for i := n - 1; i > 0; i-- { j := draw(i + 1); swap(v, i, j) }\<close>\<close>

fun fy_loop :: "('s \<Rightarrow> nat \<Rightarrow> ('e, nat \<times> 's) res) \<Rightarrow> nat \<Rightarrow> 'a list \<Rightarrow> 's \<Rightarrow> ('e, 'a list \<times> 's) res" where
  "fy_loop draw 0 xs s = Ok (xs, s)"
| "fy_loop draw (Suc i) xs s =
     bindr (draw s (Suc i + 1)) (\<lambda>(j, s'). fy_loop draw i (swap xs (Suc i) j) s')"

definition roulette_shuffle ::
  "('s \<Rightarrow> nat \<Rightarrow> ('e, nat \<times> 's) res) \<Rightarrow> 's \<Rightarrow> 'a list \<Rightarrow> ('e, 'a list \<times> 's) res" where
  "roulette_shuffle draw s values = fy_loop draw (length values - 1) values s"

definition games_shuffle ::
  "('s \<Rightarrow> nat \<Rightarrow> ('e, nat \<times> 's) res) \<Rightarrow> 's \<Rightarrow> 'a list \<Rightarrow> ('e, 'a list \<times> 's) res" where
  "games_shuffle draw s cells = fy_loop draw (length cells - 1) cells s"

subsection \<open>The interface\<close>

locale sampler =
  fixes draw :: "'s \<Rightarrow> nat \<Rightarrow> ('e, nat \<times> 's) res"
  assumes draw_less: "draw s n = Ok (v, s') \<Longrightarrow> v < n"
begin

lemma fy_loop_mset:
  "fy_loop draw i xs s = Ok (ys, s') \<Longrightarrow> i < length xs \<or> i = 0 \<Longrightarrow> mset ys = mset xs"
proof (induction i arbitrary: xs s)
  case 0
  then show ?case by simp
next
  case (Suc i)
  then obtain j t where j: "draw s (Suc i + 1) = Ok (j, t)"
    "fy_loop draw i (swap xs (Suc i) j) t = Ok (ys, s')"
    by (auto simp: res_simps)
  then show ?case using Suc.IH[OF j(2)] Suc.prems(2) draw_less[OF j(1)] by simp
qed

lemma shuffle_mset: "fy_loop draw (length xs - 1) xs s = Ok (ys, s') \<Longrightarrow> mset ys = mset xs"
  by (cases xs) (auto dest!: fy_loop_mset)

end

locale returning_sampler = sampler draw
  for draw :: "'s \<Rightarrow> nat \<Rightarrow> ('e, nat \<times> 's) res" +
  fixes good :: "'s \<Rightarrow> bool"
  assumes draw_returns: "good s \<Longrightarrow> draw s n \<noteq> Hang"
    and draw_good: "good s \<Longrightarrow> draw s n = Ok (v, s') \<Longrightarrow> good s'"
begin

lemma fy_loop_returns: "good s \<Longrightarrow> fy_loop draw i xs s \<noteq> Hang"
  by (induction i arbitrary: xs s)
    (auto simp: bindr_Hang_iff draw_returns dest: draw_good)

lemma fy_loop_good: "good s \<Longrightarrow> fy_loop draw i xs s = Ok (ys, s') \<Longrightarrow> good s'"
  by (induction i arbitrary: xs s) (auto simp: res_simps dest: draw_good)

end

text \<open>\<open>UniformInt\<close> provides the interface over every source of words, \<open>UniformInt\<close> over a
  \<open>Stream\<close> also returns.\<close>

interpretation uniform: sampler "uniform_int word" for word
  by unfold_locales (rule uniform_int_less)

interpretation poker: sampler "poker_uniform word" for word
  by unfold_locales (rule poker_uniform_less)

interpretation stream: returning_sampler "uniform_int (stream_word mac)" "stream_inv mac seed prefix"
  for mac seed "prefix"
proof unfold_locales
  fix s n
  assume "stream_inv mac seed prefix s"
  from reject_loop_stream[OF this, of "uniform_limit n" n]
  show "uniform_int (stream_word mac) s n \<noteq> Hang"
    by (auto simp: uniform_int_def returned_def)
next
  fix s n v s'
  assume s: "stream_inv mac seed prefix s" and u: "uniform_int (stream_word mac) s n = Ok (v, s')"
  from reject_loop_stream[OF s, of "uniform_limit n" n] u
  show "stream_inv mac seed prefix s'"
    by (auto simp: uniform_int_def returned_def split: if_splits)
qed

subsection \<open>Every order comes from exactly one sequence of draws\<close>

text \<open>A source that serves a list of numbers drawn beforehand.\<close>

fun list_draw :: "nat list \<Rightarrow> nat \<Rightarrow> (game_error, nat \<times> nat list) res" where
  "list_draw [] n = Fail ErrStreamExhausted"
| "list_draw (d # ds) n = (if d < n then Ok (d, ds) else Fail ErrInvalidInput)"

interpretation list_draw: sampler list_draw
proof unfold_locales
  fix s n v s'
  show "list_draw s n = Ok (v, s') \<Longrightarrow> v < n"
    by (cases s) (auto split: if_splits)
qed

lemma swap_nth_fst: "i < length xs \<Longrightarrow> j < length xs \<Longrightarrow> swap xs i j ! i = xs ! j"
  by (auto simp: swap_def nth_list_update)

lemma drop_swap: "j \<le> i \<Longrightarrow> i < length xs \<Longrightarrow> drop (Suc i) (swap xs i j) = drop (Suc i) xs"
  by (simp add: swap_def)

lemma fy_loop_keeps_tail:
  "fy_loop list_draw i xs ds = Ok (ys, ds') \<Longrightarrow> i < length xs \<Longrightarrow> drop (Suc i) ys = drop (Suc i) xs"
proof (induction i arbitrary: xs ds)
  case 0
  then show ?case by simp
next
  case (Suc i)
  then obtain j t where j: "list_draw ds (Suc i + 1) = Ok (j, t)"
    "fy_loop list_draw i (swap xs (Suc i) j) t = Ok (ys, ds')"
    by (auto simp: res_simps)
  have le: "j \<le> Suc i" using list_draw.draw_less[OF j(1)] by simp
  have "drop (Suc i) ys = drop (Suc i) (swap xs (Suc i) j)"
    using Suc.IH[OF j(2)] Suc.prems(2) by simp
  then have "drop 1 (drop (Suc i) ys) = drop 1 (drop (Suc i) (swap xs (Suc i) j))" by simp
  then show ?case using drop_swap[OF le Suc.prems(2)] by simp
qed

lemma fy_loop_unique_draws:
  assumes "distinct xs" "i < length xs" "mset ys = mset xs" "drop (Suc i) ys = drop (Suc i) xs"
  shows "\<exists>!ds. fy_loop list_draw i xs ds = Ok (ys, [])"
  using assms
proof (induction i arbitrary: xs)
  case 0
  then have "ys = xs"
    by (cases xs; cases ys) auto
  then show ?case by auto
next
  case (Suc i)
  have len: "length ys = length xs" using Suc.prems(3) by (rule mset_eq_length)
  have "ys ! Suc i \<in> set (take (Suc (Suc i)) xs)"
  proof -
    have "mset (take (Suc (Suc i)) ys) = mset (take (Suc (Suc i)) xs)"
      using Suc.prems(3,4) by (metis add_right_cancel append_take_drop_id mset_append)
    moreover have "ys ! Suc i \<in> set (take (Suc (Suc i)) ys)"
      using Suc.prems(2) len by (auto simp: in_set_conv_nth intro!: exI[of _ "Suc i"])
    ultimately show ?thesis by (metis set_mset_mset)
  qed
  then obtain j where j: "j < Suc (Suc i)" "xs ! j = ys ! Suc i" "j < length xs"
    by (auto simp: in_set_conv_nth)
  define zs where "zs = swap xs (Suc i) j"
  have zs: "mset zs = mset xs" "length zs = length xs"
    using Suc.prems(2) j(3) by (simp_all add: zs_def)
  have zs_distinct: "distinct zs"
    using Suc.prems(1) mset_eq_imp_distinct_iff[OF zs(1)] by simp
  have tail: "drop (Suc i) ys = drop (Suc i) zs"
  proof -
    have "drop (Suc i) ys = ys ! Suc i # drop (Suc (Suc i)) ys"
      using Suc.prems(2) len by (simp add: Cons_nth_drop_Suc)
    moreover have "drop (Suc i) zs = zs ! Suc i # drop (Suc (Suc i)) zs"
      using Suc.prems(2) zs(2) by (simp add: Cons_nth_drop_Suc)
    moreover have "zs ! Suc i = ys ! Suc i" using Suc.prems(2) j by (simp add: zs_def swap_nth_fst)
    moreover have "drop (Suc (Suc i)) zs = drop (Suc (Suc i)) xs"
      using j Suc.prems(2) by (simp add: zs_def drop_swap)
    ultimately show ?thesis using Suc.prems(4) by simp
  qed
  obtain ds where ds: "fy_loop list_draw i zs ds = Ok (ys, [])"
    and uniq: "\<And>es. fy_loop list_draw i zs es = Ok (ys, []) \<Longrightarrow> es = ds"
    using Suc.IH[OF zs_distinct] Suc.prems(2,3) zs tail by (metis Suc_lessD)
  show ?case
  proof (rule ex1I[of _ "j # ds"])
    show "fy_loop list_draw (Suc i) xs (j # ds) = Ok (ys, [])"
      using j ds by (simp add: zs_def)
  next
    fix es assume es: "fy_loop list_draw (Suc i) xs es = Ok (ys, [])"
    then obtain k t where k: "es = k # t" "k < Suc (Suc i)"
      "fy_loop list_draw i (swap xs (Suc i) k) t = Ok (ys, [])"
      by (cases es) (auto simp: res_simps split: if_splits)
    have "drop (Suc i) ys = drop (Suc i) (swap xs (Suc i) k)"
      using fy_loop_keeps_tail[OF k(3)] Suc.prems(2) by simp
    then have "ys ! Suc i = swap xs (Suc i) k ! Suc i"
      using Suc.prems(2) len by (metis Cons_nth_drop_Suc length_swap list.inject)
    then have "xs ! k = xs ! j" using k(2) Suc.prems(2) j by (simp add: swap_nth_fst)
    then have "k = j" using nth_eq_iff_index_eq[OF Suc.prems(1), of k j] k(2) j(1) Suc.prems(2) by simp
    then show "es = j # ds" using k uniq by (simp add: zs_def)
  qed
qed

end
