(* ===== verification/PokerFairness.thy ===== *)
theory PokerFairness
  imports Shuffle
begin

text \<open>
  \<open>internal/poker/fairness\<close>: the effective client seed of a hand, Poker's own HMAC stream and
  the derivation of the frozen deck. Identifiers and client seeds are byte strings; SHA-256
  and HMAC-SHA-256 are parameters.
\<close>

record contribution =
  pc_seat :: int
  pc_version :: nat
  pc_value :: "byte list"

record proof_data =
  pf_effective_seed :: "byte list"
  pf_server_seed_hash :: "byte list"
  pf_deck_hash :: "byte list"
  pf_deck :: "byte list"

subsection \<open>UUIDs\<close>

definition hex_val :: "byte \<Rightarrow> nat option" where
  "hex_val b =
     (let n = unat b in
      if 48 \<le> n \<and> n \<le> 57 then Some (n - 48)
      else if 97 \<le> n \<and> n \<le> 102 then Some (n - 87)
      else if 65 \<le> n \<and> n \<le> 70 then Some (n - 55)
      else None)"

fun hex_decode :: "byte list \<Rightarrow> byte list option" where
  "hex_decode [] = Some []"
| "hex_decode [_] = None"
| "hex_decode (a # b # r) =
     (case (hex_val a, hex_val b, hex_decode r) of
        (Some x, Some y, Some bs) \<Rightarrow> Some (word_of_nat (16 * x + y) # bs)
      | _ \<Rightarrow> None)"

definition dash :: byte where "dash = 45"

definition poker_uuid_bytes :: "byte list \<Rightarrow> (game_error, byte list) res" where
  "poker_uuid_bytes uid =
     (if length uid \<noteq> 36 \<or> uid ! 8 \<noteq> dash \<or> uid ! 13 \<noteq> dash \<or> uid ! 18 \<noteq> dash \<or> uid ! 23 \<noteq> dash
      then Fail ErrPokerUUID
      else case hex_decode (filter (\<lambda>b. b \<noteq> dash) uid) of
             None \<Rightarrow> Fail ErrPokerUUID | Some bs \<Rightarrow> Ok bs)"

subsection \<open>The effective client seed\<close>

definition valid_contribution :: "byte list \<Rightarrow> bool" where
  "valid_contribution s \<longleftrightarrow> 1 \<le> length s \<and> length s \<le> 128 \<and>
     (case utf8_runes (map unat s) of None \<Rightarrow> False | Some rs \<Rightarrow> \<not> list_ex is_control rs)"

definition lp :: "byte list \<Rightarrow> byte list" where
  "lp s = be_bytes 2 (length s) @ s"

text \<open>The loop over the sorted contributions; \<open>prev\<close> is the seat before the current one.\<close>

fun write_contributions :: "int option \<Rightarrow> contribution list \<Rightarrow> byte list \<Rightarrow> (game_error, byte list) res" where
  "write_contributions prev [] b = Ok b"
| "write_contributions prev (c # cs) b =
     (if pc_seat c < 1 \<or> pc_seat c > 9 \<or> prev = Some (pc_seat c) \<or> pc_version c = 0
          \<or> \<not> valid_contribution (pc_value c)
      then Fail ErrContribution
      else write_contributions (Some (pc_seat c)) cs
             (b @ be_bytes 2 (nat (pc_seat c)) @ be_bytes 8 (pc_version c) @ lp (pc_value c)))"

definition effective ::
  "(byte list \<Rightarrow> byte list) \<Rightarrow> byte list \<Rightarrow> byte list \<Rightarrow> contribution list \<Rightarrow> (game_error, byte list) res" where
  "effective sha table_id hand_id contributions =
     bindr (poker_uuid_bytes table_id) (\<lambda>table.
     bindr (poker_uuid_bytes hand_id) (\<lambda>hand.
       let ordered = sort_key pc_seat contributions in
       if length ordered < 2 \<or> length ordered > 9 then Fail ErrParticipantCount
       else bindr (write_contributions None ordered
                     (ascii ''CHALDEA-POKER-EFFECTIVE-CLIENT-SEED-V1'' @ [0] @ table @ hand @
                      be_bytes 2 (length ordered)))
              (\<lambda>b. Ok (sha b))))"

subsection \<open>The stream\<close>

record pstream =
  ps_seed :: "byte list"
  ps_prefix :: "byte list"
  ps_block :: "byte list"
  ps_index :: nat
  ps_offset :: nat

definition poker_algorithm_version :: "byte list" where
  "poker_algorithm_version = ascii ''poker-deck-v1''"

definition poker_new_stream ::
  "byte list \<Rightarrow> byte list \<Rightarrow> byte list \<Rightarrow> byte list \<Rightarrow> (game_error, pstream) res" where
  "poker_new_stream table_id hand_id eff seed =
     (if length seed \<noteq> 32 then Fail ErrPokerSeed
      else bindr (poker_uuid_bytes table_id) (\<lambda>table.
           bindr (poker_uuid_bytes hand_id) (\<lambda>hand.
             Ok \<lparr>ps_seed = seed,
                 ps_prefix = ascii ''CHALDEA-POKER-DECK-HMAC-SHA256-V1'' @ [0] @ table @ hand @ eff @
                             lp poker_algorithm_version,
                 ps_block = [], ps_index = 0, ps_offset = 0\<rparr>)))"

text \<open>One turn of the loop of \<open>Stream.Read\<close>; the \<open>uint64\<close> index wraps.\<close>

definition poker_read_byte :: "hmac \<Rightarrow> pstream \<Rightarrow> byte \<times> pstream" where
  "poker_read_byte mac s =
     (let s1 = (if ps_offset s = length (ps_block s)
                then s\<lparr>ps_block := mac (ps_seed s) (ps_prefix s @ be_bytes 8 (ps_index s)),
                       ps_index := (ps_index s + 1) mod 2 ^ 64, ps_offset := 0\<rparr>
                else s)
      in (ps_block s1 ! ps_offset s1, s1\<lparr>ps_offset := ps_offset s1 + 1\<rparr>))"

fun poker_read :: "hmac \<Rightarrow> pstream \<Rightarrow> nat \<Rightarrow> byte list \<times> pstream" where
  "poker_read mac s 0 = ([], s)"
| "poker_read mac s (Suc n) =
     (let (b, s1) = poker_read_byte mac s; (bs, s2) = poker_read mac s1 n in (b # bs, s2))"

definition poker_word :: "hmac \<Rightarrow> pstream \<Rightarrow> (game_error, nat \<times> pstream) res" where
  "poker_word mac s = (let (bs, s1) = poker_read mac s 4 in Ok (be_val bs, s1))"

subsection \<open>The deck\<close>

definition derive ::
  "(byte list \<Rightarrow> byte list) \<Rightarrow> hmac \<Rightarrow> byte list \<Rightarrow> byte list \<Rightarrow> contribution list \<Rightarrow> byte list \<Rightarrow>
     (game_error, proof_data) res" where
  "derive sha mac table_id hand_id contributions seed =
     (if length seed \<noteq> 32 then Fail ErrPokerSeed
      else bindr (effective sha table_id hand_id contributions) (\<lambda>eff.
           bindr (poker_new_stream table_id hand_id eff seed) (\<lambda>s.
           bindr (fy_loop (poker_uniform (poker_word mac)) 51 (map word_of_nat [0..<52]) s) (\<lambda>(deck, s').
             Ok \<lparr>pf_effective_seed = eff, pf_server_seed_hash = sha seed,
                 pf_deck_hash = sha deck, pf_deck = deck\<rparr>))))"

subsection \<open>Lemmas\<close>

lemma derive_deck_mset:
  assumes "derive sha mac t h cs seed = Ok p"
  shows "mset (pf_deck p) = mset (map word_of_nat [0..<52])"
  using assms
  by (auto simp: derive_def res_simps split: if_splits dest!: poker.fy_loop_mset)

lemma derive_deck_cards:
  assumes "derive sha mac t h cs seed = Ok p"
  shows "length (map unat (pf_deck p)) = 52" "distinct (map unat (pf_deck p))"
    "set (map unat (pf_deck p)) = {..<52}"
proof -
  have "mset (map unat (pf_deck p)) = image_mset unat (mset (map (word_of_nat :: nat \<Rightarrow> byte) [0..<52]))"
    using derive_deck_mset[OF assms] by simp
  also have "\<dots> = mset (map (\<lambda>n. unat (word_of_nat n :: byte)) [0..<52])"
    by (simp add: image_mset.compositionality o_def)
  also have "map (\<lambda>n. unat (word_of_nat n :: byte)) [0..<52] = [0..<52]"
    by (rule map_idI) (simp add: unat_of_nat)
  finally have m: "mset (map unat (pf_deck p)) = mset [0..<52]" .
  show "length (map unat (pf_deck p)) = 52" using mset_eq_length[OF m] by simp
  show "distinct (map unat (pf_deck p))" using mset_eq_imp_distinct_iff[OF m] by simp
  show "set (map unat (pf_deck p)) = {..<52}" using mset_eq_setD[OF m] by auto
qed

lemma write_contributions_seats:
  "write_contributions prev cs b = Ok r \<Longrightarrow> sorted (map pc_seat cs) \<Longrightarrow>
     (\<forall>p. prev = Some p \<longrightarrow> (\<forall>c\<in>set cs. p \<le> pc_seat c)) \<Longrightarrow>
     distinct (map pc_seat cs) \<and> (\<forall>p. prev = Some p \<longrightarrow> p \<notin> set (map pc_seat cs))"
proof (induction cs arbitrary: prev b)
  case Nil
  then show ?case by simp
next
  case (Cons c cs)
  have rest: "write_contributions (Some (pc_seat c)) cs
      (b @ be_bytes 2 (nat (pc_seat c)) @ be_bytes 8 (pc_version c) @ lp (pc_value c)) = Ok r"
    and ne: "prev \<noteq> Some (pc_seat c)"
    using Cons.prems(1) by (auto split: if_splits)
  have "distinct (map pc_seat cs) \<and> pc_seat c \<notin> set (map pc_seat cs)"
    using Cons.IH[OF rest] Cons.prems(2) by auto
  moreover have "p \<notin> set (map pc_seat (c # cs))" if p: "prev = Some p" for p
  proof -
    have "p < pc_seat c" using Cons.prems(3) p ne by force
    moreover have "\<forall>d\<in>set cs. pc_seat c \<le> pc_seat d" using Cons.prems(2) by auto
    ultimately show ?thesis by auto
  qed
  ultimately show ?case by auto
qed

text \<open>Duplicate seats are refused, so the order of the arguments never matters.\<close>

lemma effective_perm_Ok:
  assumes "mset cs = mset ds" "effective sha t h cs = Ok e"
  shows "effective sha t h ds = Ok e"
proof -
  obtain b r where "write_contributions None (sort_key pc_seat cs) b = Ok r"
    using assms(2) by (auto simp: effective_def res_simps Let_def split: if_splits)
  then have "distinct (map pc_seat (sort_key pc_seat cs))"
    using write_contributions_seats[of None "sort_key pc_seat cs" b] by auto
  then have "inj_on pc_seat (set cs)" by (simp add: distinct_map)
  then have "sort_key pc_seat cs = sort_key pc_seat ds"
    using assms(1) by (intro sort_key_inj_key_eq) simp_all
  moreover have "length cs = length ds" using assms(1) by (rule mset_eq_length)
  ultimately show ?thesis using assms(2) by (simp add: effective_def)
qed

end
