(* ===== verification/FairSamples.thy ===== *)
theory FairSamples
  imports StreamFacts Shuffle PokerFairness "HOL-Library.Code_Target_Numeral"
begin

text \<open>Concrete instances of the hash parameters and of a round, for the witnesses.\<close>

definition sample_sha :: "byte list \<Rightarrow> byte list" where
  "sample_sha m = replicate 32 (word_of_nat (length m))"

definition sample_mac :: hmac where
  "sample_mac k m = replicate 32 7"

definition sample_seed :: "byte list" where "sample_seed = replicate 32 3"

definition sample_round :: round where
  "sample_round = \<lparr>rd_id = [0, 0, 0, 0, 0, 0, 0x70, 0, 0x80, 0, 0, 0, 0, 0, 0, 1], rd_game = ascii ''dice'',
     rd_client_seed = ascii ''lucky'', rd_nonce = 12, rd_stream_version = stream_version,
     rd_algorithm_version = ascii ''v1'', rd_config_version = ascii ''c1'', rd_config_hash = replicate 32 1,
     rd_server_seed_hash = sample_sha sample_seed\<rparr>"

lemma sample_stream: "\<exists>s. new_stream sample_sha sample_seed sample_round [65] = Ok s"
proof -
  have "case new_stream sample_sha sample_seed sample_round [65] of Ok s \<Rightarrow> True | _ \<Rightarrow> False" by code_simp
  then show ?thesis by (auto split: res.splits)
qed

definition sample_uuid :: "byte list" where
  "sample_uuid = ascii ''0188a4f0-1c2d-7e3f-8a4b-5c6d7e8f9a0b''"

definition sample_contributions :: "contribution list" where
  "sample_contributions = [\<lparr>pc_seat = 5, pc_version = 1, pc_value = ascii ''x''\<rparr>,
     \<lparr>pc_seat = 2, pc_version = 3, pc_value = ascii ''yz''\<rparr>]"

text \<open>The deck under the constant hash: every word of the stream is the same, so every draw succeeds.\<close>

definition sample_pstream :: "pstream \<Rightarrow> bool" where
  "sample_pstream s \<longleftrightarrow> ps_offset s \<le> length (ps_block s) \<and> set (ps_block s) \<subseteq> {7}"

lemma sample_byte:
  "sample_pstream s \<Longrightarrow> \<exists>s'. poker_read_byte sample_mac s = (7, s') \<and> sample_pstream s'"
proof -
  assume s: "sample_pstream s"
  have "ps_block s ! ps_offset s = 7" if "ps_offset s \<noteq> length (ps_block s)"
  proof -
    have "ps_block s ! ps_offset s \<in> set (ps_block s)" using s that by (simp add: sample_pstream_def)
    then show ?thesis using s by (auto simp: sample_pstream_def)
  qed
  then show ?thesis using s by (auto simp: sample_pstream_def poker_read_byte_def sample_mac_def Let_def)
qed

lemma sample_read:
  "sample_pstream s \<Longrightarrow> \<exists>s'. poker_read sample_mac s n = (replicate n 7, s') \<and> sample_pstream s'"
proof (induction n arbitrary: s)
  case (Suc n)
  from sample_byte[OF Suc.prems] obtain t where "poker_read_byte sample_mac s = (7, t)" "sample_pstream t" by blast
  with Suc.IH[of t] show ?case by auto
qed simp

lemma sample_word: "sample_pstream s \<Longrightarrow> \<exists>s'. poker_word sample_mac s = Ok (117901063, s') \<and> sample_pstream s'"
proof -
  have "be_val (replicate 4 7) = 117901063" by code_simp
  then show "sample_pstream s \<Longrightarrow> ?thesis" using sample_read[of s 4] by (auto simp: poker_word_def)
qed

lemma sample_draw:
  assumes "sample_pstream s" "0 < n" "n \<le> 52"
  shows "\<exists>v s'. poker_uniform (poker_word sample_mac) s n = Ok (v, s') \<and> sample_pstream s'"
proof -
  obtain t where t: "poker_word sample_mac s = Ok (117901063, t)" "sample_pstream t"
    using sample_word[OF assms(1)] by blast
  have "2 ^ 32 mod n < n" using assms(2) by simp
  then have "117901063 < uniform_limit n" using assms(3) by (simp add: uniform_limit_def)
  then show ?thesis
    using t assms by (simp add: poker_uniform_def reject_loop.simps[of _ _ _ s] returned_def)
qed

lemma sample_shuffle:
  "sample_pstream s \<Longrightarrow> i \<le> 51 \<Longrightarrow> \<exists>ys s'. fy_loop (poker_uniform (poker_word sample_mac)) i xs s = Ok (ys, s')"
proof (induction i arbitrary: xs s)
  case (Suc i)
  obtain v t where "poker_uniform (poker_word sample_mac) s (Suc i + 1) = Ok (v, t)" "sample_pstream t"
    using sample_draw[OF Suc.prems(1), of "Suc i + 1"] Suc.prems(2) by auto
  with Suc.IH[of t "swap xs (Suc i) v"] Suc.prems(2) show ?case by simp
qed simp

lemma sample_derive:
  "\<exists>p. derive sample_sha sample_mac sample_uuid sample_uuid sample_contributions sample_seed = Ok p"
proof -
  have "case effective sample_sha sample_uuid sample_uuid sample_contributions of Ok e \<Rightarrow>
      (case poker_new_stream sample_uuid sample_uuid e sample_seed of Ok s \<Rightarrow> ps_block s = [] \<and> ps_offset s = 0
       | _ \<Rightarrow> False) | _ \<Rightarrow> False" by code_simp
  then obtain e s where e: "effective sample_sha sample_uuid sample_uuid sample_contributions = Ok e"
    "poker_new_stream sample_uuid sample_uuid e sample_seed = Ok s" "ps_block s = []" "ps_offset s = 0"
    by (auto split: res.splits)
  then have "sample_pstream s" by (simp add: sample_pstream_def)
  then obtain ys t where "fy_loop (poker_uniform (poker_word sample_mac)) 51 (map word_of_nat [0..<52] :: byte list) s = Ok (ys, t)"
    using sample_shuffle by blast
  moreover have "length sample_seed = 32" by (simp add: sample_seed_def)
  ultimately show ?thesis using e by (simp add: derive_def)
qed

end
