(* ===== verification/Blackjack.thy ===== *)
theory Blackjack
  imports Prelude
begin

text \<open>
  \<open>internal/games/blackjack\<close>: cards, hands and the round. The shoe is the array of 312 card
  instances; SHA-256 is the parameter \<open>sha\<close>. Instants are nanoseconds since the zero
  \<open>time.Time\<close>; \<open>canonicalTime\<close> and \<open>clone\<close> only normalise representations, so they are
  the identity here. An operation that fails returns no state: the source discards its copy.
\<close>

datatype bj_error =
    InvalidCards | InvalidCard | MissingSampler | SampleOutOfRange | InvalidShoe
  | NeedsReview | BadWager | IntegerOverflow | StaleVersion | HandNotActive | ActionNotAllowed
  | DuplicateAction | MaxHandsReached | DoubleBalance | SplitBalance | CallbackError

subsection \<open>Cards and values\<close>

record bj_card =
  c_shoe_index :: int
  c_instance :: nat

record bj_value =
  hard_total :: int
  best_total :: int
  soft :: bool

definition zero_value :: bj_value where
  "zero_value = \<lparr>hard_total = 0, best_total = 0, soft = False\<rparr>"

definition point :: "nat \<Rightarrow> int" where
  "point inst = (let r = inst mod 13 in if r \<ge> 9 then 10 else int r + 1)"

definition bj_evaluate :: "bj_card list \<Rightarrow> (bj_error, bj_value) res" where
  "bj_evaluate cards =
     (if length cards > 312 then Fail InvalidCards
      else if list_ex (\<lambda>c. c_instance c \<ge> 312) cards then Fail InvalidCard
      else
        let hard = sum_list (map (\<lambda>c. point (c_instance c)) cards);
            ace = list_ex (\<lambda>c. point (c_instance c) = 1) cards
        in if ace \<and> hard + 10 \<le> 21 then Ok \<lparr>hard_total = hard, best_total = hard + 10, soft = True\<rparr>
           else Ok \<lparr>hard_total = hard, best_total = hard, soft = False\<rparr>)"

text \<open>\<open>v, _ := Evaluate(cards)\<close>: on an error the zero value.\<close>

definition value_of :: "bj_card list \<Rightarrow> bj_value" where
  "value_of cards = (case bj_evaluate cards of Ok v \<Rightarrow> v | _ \<Rightarrow> zero_value)"

subsection \<open>The shoe\<close>

fun bj_shuffle_loop ::
  "('s \<Rightarrow> nat \<Rightarrow> (bj_error, nat \<times> 's) res) \<Rightarrow> nat \<Rightarrow> nat list \<Rightarrow> 's \<Rightarrow> (bj_error, nat list \<times> 's) res" where
  "bj_shuffle_loop sample 0 shoe s = Ok (shoe, s)"
| "bj_shuffle_loop sample (Suc i) shoe s =
     bindr (sample s (Suc i + 1)) (\<lambda>(j, s').
       if j > Suc i then Fail SampleOutOfRange
       else bj_shuffle_loop sample i (swap shoe (Suc i) j) s')"

definition bj_shuffle ::
  "('s \<Rightarrow> nat \<Rightarrow> (bj_error, nat \<times> 's) res) \<Rightarrow> 's \<Rightarrow> (bj_error, nat list \<times> 's) res" where
  "bj_shuffle sample s = bj_shuffle_loop sample 311 [0..<312] s"

definition shoe_hash :: "(byte list \<Rightarrow> byte list) \<Rightarrow> nat list \<Rightarrow> (bj_error, string) res" where
  "shoe_hash sha shoe =
     (if list_ex (\<lambda>v. v \<ge> 312) shoe \<or> \<not> distinct shoe then Fail InvalidShoe
      else Ok (hex_encode (sha (concat (map (be_bytes 2) shoe)))))"

subsection \<open>The round\<close>

datatype bj_phase = PlayerTurn | BjSettled

datatype bj_status = Active | Stood | Bust | DoubledComplete | SplitAcesComplete | NaturalComplete

datatype bj_action_type = Hit | Stand | Double | Split | SystemAutoStand | OtherAction string

record bj_hand =
  h_id :: string
  h_index :: int
  h_parent :: string
  h_cards :: "bj_card list"
  h_stake :: int
  h_from_split :: bool
  h_split_aces :: bool
  h_natural :: bool
  h_status :: bj_status
  h_value :: bj_value
  h_result :: string
  h_payout :: int
  h_net :: int

record bj_action =
  a_id :: string
  a_version :: int
  a_hand :: string
  a_type :: bj_action_type
  a_new_hand :: string

record bj_record =
  ar_action :: bj_action
  ar_sequence :: int
  ar_at :: int
  ar_stake :: int

record bj_state =
  initial_hand :: string
  created_at :: int
  wager :: int
  hash_of_shoe :: string
  shoe_index :: int
  dealt :: "bj_card list"
  dealer :: "bj_card list"
  dealer_revealed :: bool
  hands :: "bj_hand list"
  active_hand :: string
  phase :: bj_phase
  bj_version :: int
  actions :: "bj_record list"
  last_action :: int
  auto_resolve_at :: int
  total_stake :: int
  total_payout :: int
  fair_return :: int
  net_change :: int
  class_of :: string

definition max_hands :: nat where "max_hands = 4"

definition day :: int where "day = 86400000000000"

definition revalue :: "bj_hand \<Rightarrow> bj_hand" where
  "revalue h = h\<lparr>h_value := value_of (h_cards h)\<rparr>"

definition draw :: "nat list \<Rightarrow> bj_state \<Rightarrow> (bj_error, bj_card \<times> bj_state) res" where
  "draw shoe s =
     (if shoe_index s < 0 \<or> shoe_index s \<ge> int (length shoe) then Fail NeedsReview
      else let c = \<lparr>c_shoe_index = shoe_index s, c_instance = shoe ! nat (shoe_index s)\<rparr>
           in Ok (c, s\<lparr>shoe_index := shoe_index s + 1, dealt := dealt s @ [c]\<rparr>))"

definition active_index :: "bj_state \<Rightarrow> nat option" where
  "active_index s =
     find (\<lambda>i. h_id (hands s ! i) = active_hand s \<and> h_status (hands s ! i) = Active) [0..<length (hands s)]"

definition bj_legal :: "bj_state \<Rightarrow> int \<Rightarrow> bj_action_type list" where
  "bj_legal s available =
     (case active_index s of
        None \<Rightarrow> []
      | Some i \<Rightarrow>
          if phase s \<noteq> PlayerTurn then []
          else let h = hands s ! i in
            [Hit, Stand] @
            (if length (h_cards h) = 2 \<and> \<not> h_split_aces h \<and> available \<ge> h_stake h then
               [Double] @
               (if length (hands s) < max_hands \<and>
                   point (c_instance (h_cards h ! 0)) = point (c_instance (h_cards h ! 1))
                then [Split] else [])
             else []))"

subsection \<open>Settlement\<close>

definition settle_hand :: "bj_value \<Rightarrow> bool \<Rightarrow> bj_hand \<Rightarrow> bj_hand" where
  "settle_hand dv dealer_natural h =
     (let (res, pay) =
        (if best_total (h_value h) > 21 then (''BUST'', 0)
         else if dealer_natural \<and> h_natural h then (''PUSH'', h_stake h)
         else if dealer_natural then (''LOSS'', 0)
         else if h_natural h then (''NATURAL'', h_stake h div 2 * 5)
         else if best_total dv > 21 \<or> best_total (h_value h) > best_total dv then (''NORMAL_WIN'', h_stake h * 2)
         else if best_total (h_value h) = best_total dv then (''PUSH'', h_stake h)
         else (''LOSS'', 0))
      in h\<lparr>h_result := res, h_payout := pay, h_net := pay - h_stake h\<rparr>)"

definition class_for :: "int \<Rightarrow> string" where
  "class_for net = (if net < 0 then ''LOSS'' else if net = 0 then ''BREAK_EVEN'' else ''WIN'')"

definition bj_settle :: "bj_state \<Rightarrow> bj_state" where
  "bj_settle s =
     (let dv = value_of (dealer s);
          hs = map (settle_hand dv (length (dealer s) = 2 \<and> best_total dv = 21)) (hands s);
          pay = sum_list (map h_payout hs);
          net = pay - total_stake s
      in s\<lparr>dealer_revealed := True, active_hand := '''', phase := BjSettled, hands := hs,
           total_payout := pay, net_change := net, class_of := class_for net\<rparr>)"

subsection \<open>A new round\<close>

text \<open>\<open>card, _ := s.draw(shoe)\<close>.\<close>

definition draw_any :: "nat list \<Rightarrow> bj_state \<Rightarrow> bj_card \<times> bj_state" where
  "draw_any shoe s = (case draw shoe s of Ok r \<Rightarrow> r | _ \<Rightarrow> (\<lparr>c_shoe_index = 0, c_instance = 0\<rparr>, s))"

fun deal_four :: "nat list \<Rightarrow> nat list \<Rightarrow> bj_state \<Rightarrow> bj_state" where
  "deal_four shoe [] s = s"
| "deal_four shoe (i # is) s =
     (let (c, s) = draw_any shoe s in
      deal_four shoe is
        (if even i then s\<lparr>hands := (hands s)[0 := (hands s ! 0)\<lparr>h_cards := h_cards (hands s ! 0) @ [c]\<rparr>]\<rparr>
         else s\<lparr>dealer := dealer s @ [c]\<rparr>))"

definition first_hand :: "string \<Rightarrow> int \<Rightarrow> bj_hand" where
  "first_hand hid w = \<lparr>h_id = hid, h_index = 0, h_parent = '''', h_cards = [], h_stake = w,
     h_from_split = False, h_split_aces = False, h_natural = False, h_status = Active,
     h_value = zero_value, h_result = '''', h_payout = 0, h_net = 0\<rparr>"

definition fresh_round :: "string \<Rightarrow> int \<Rightarrow> string \<Rightarrow> int \<Rightarrow> bj_state" where
  "fresh_round hash w hid now = \<lparr>initial_hand = hid, created_at = now, wager = w, hash_of_shoe = hash,
     shoe_index = 0, dealt = [], dealer = [], dealer_revealed = False, hands = [first_hand hid w],
     active_hand = '''', phase = PlayerTurn, bj_version = 1, actions = [], last_action = 0,
     auto_resolve_at = 0, total_stake = w, total_payout = 0, fair_return = 0, net_change = 0,
     class_of = ''''\<rparr>"

definition bj_new ::
  "(byte list \<Rightarrow> byte list) \<Rightarrow> nat list \<Rightarrow> int \<Rightarrow> string \<Rightarrow> int \<Rightarrow> (bj_error, bj_state) res" where
  "bj_new sha shoe w hid now =
     (if w < 10 * units_per_chip \<or> w mod units_per_chip \<noteq> 0 then Fail BadWager
      else if w > max_int64 div 16 then Fail IntegerOverflow
      else if hid = '''' \<or> now = 0 then Fail ActionNotAllowed
      else bindr (shoe_hash sha shoe) (\<lambda>hash.
        let s = deal_four shoe [0, 1, 2, 3] (fresh_round hash w hid now);
            h = revalue (hands s ! 0);
            natural = (best_total (h_value h) = 21);
            h = h\<lparr>h_natural := natural, h_status := (if natural then NaturalComplete else h_status h)\<rparr>
        in if best_total (value_of (dealer s)) = 21 \<or> natural then
             Ok (bj_settle (s\<lparr>hands := (hands s)[0 := if natural then h else h\<lparr>h_status := Stood\<rparr>]\<rparr>))
           else Ok (s\<lparr>hands := (hands s)[0 := h], active_hand := h_id h, last_action := now,
                      auto_resolve_at := now + day\<rparr>)))"

subsection \<open>Actions\<close>

text \<open>The dealer stands on all seventeens.\<close>

function dealer_play :: "nat list \<Rightarrow> bj_state \<Rightarrow> (bj_error, bj_state) res" where
  "dealer_play shoe s =
     (if best_total (value_of (dealer s)) \<ge> 17 then Ok s
      else case draw shoe s of
             Ok (c, t) \<Rightarrow> dealer_play shoe (t\<lparr>dealer := dealer t @ [c]\<rparr>)
           | Fail e \<Rightarrow> Fail e
           | Hang \<Rightarrow> Hang)"
  by pat_completeness auto
termination
  by (relation "measure (\<lambda>(shoe, s). nat (int (length shoe) - shoe_index s))")
     (auto simp: draw_def Let_def split: if_splits)

declare dealer_play.simps [simp del]

definition advance :: "nat list \<Rightarrow> bj_state \<Rightarrow> (bj_error, bj_state) res" where
  "advance shoe s =
     (case find (\<lambda>h. h_status h = Active) (hands s) of
        Some h \<Rightarrow> Ok (s\<lparr>active_hand := h_id h\<rparr>)
      | None \<Rightarrow>
          let s = s\<lparr>active_hand := '''', dealer_revealed := True\<rparr> in
          bindr (if list_ex (\<lambda>h. best_total (h_value h) \<le> 21) (hands s) then dealer_play shoe s else Ok s)
            (\<lambda>s. Ok (bj_settle s)))"

definition put_hand :: "nat \<Rightarrow> bj_hand \<Rightarrow> bj_state \<Rightarrow> bj_state" where
  "put_hand i h s = s\<lparr>hands := (hands s)[i := h]\<rparr>"

definition act_hit :: "nat list \<Rightarrow> nat \<Rightarrow> bj_state \<Rightarrow> (bj_error, bj_state \<times> int) res" where
  "act_hit shoe i s =
     bindr (draw shoe s) (\<lambda>(c, s).
       let h = revalue ((hands s ! i)\<lparr>h_cards := h_cards (hands s ! i) @ [c]\<rparr>);
           h = (if best_total (h_value h) > 21 then h\<lparr>h_status := Bust\<rparr>
                else if best_total (h_value h) = 21 then h\<lparr>h_status := Stood\<rparr> else h)
       in Ok (put_hand i h s, 0))"

definition act_stand :: "nat \<Rightarrow> bj_state \<Rightarrow> (bj_error, bj_state \<times> int) res" where
  "act_stand i s = Ok (put_hand i ((hands s ! i)\<lparr>h_status := Stood\<rparr>) s, 0)"

definition act_double :: "nat list \<Rightarrow> int \<Rightarrow> nat \<Rightarrow> bj_state \<Rightarrow> (bj_error, bj_state \<times> int) res" where
  "act_double shoe available i s =
     (let h = hands s ! i in
      if length (h_cards h) \<noteq> 2 \<or> h_split_aces h then Fail ActionNotAllowed
      else if available < h_stake h then Fail DoubleBalance
      else bindr (draw shoe s) (\<lambda>(c, s).
        Ok (put_hand i ((revalue (h\<lparr>h_stake := h_stake h * 2, h_cards := h_cards h @ [c]\<rparr>))
                          \<lparr>h_status := DoubledComplete\<rparr>) s, h_stake h)))"

definition split_index :: "nat \<Rightarrow> bj_state \<Rightarrow> int" where
  "split_index i s =
     (let boundary = (if i + 1 < length (hands s) then h_index (hands s ! (i + 1)) else 8)
      in (h_index (hands s ! i) + boundary) div 2)"

definition left_hand :: "bool \<Rightarrow> bj_hand \<Rightarrow> bj_hand" where
  "left_hand aces h = h\<lparr>h_cards := [h_cards h ! 0], h_from_split := True, h_split_aces := aces, h_natural := False\<rparr>"

definition right_hand :: "string \<Rightarrow> int \<Rightarrow> bool \<Rightarrow> bj_hand \<Rightarrow> bj_hand" where
  "right_hand hid index aces h = (first_hand hid (h_stake h))\<lparr>h_index := index, h_parent := h_id h,
     h_from_split := True, h_split_aces := aces, h_cards := [h_cards h ! 1]\<rparr>"

definition split_drawn :: "bool \<Rightarrow> bj_hand \<Rightarrow> bj_card \<Rightarrow> bj_hand" where
  "split_drawn aces h c =
     (let h = revalue (h\<lparr>h_cards := h_cards h @ [c]\<rparr>)
      in if aces then h\<lparr>h_status := SplitAcesComplete\<rparr> else h)"

definition act_split ::
  "nat list \<Rightarrow> bj_action \<Rightarrow> int \<Rightarrow> nat \<Rightarrow> bj_state \<Rightarrow> (bj_error, bj_state \<times> int) res" where
  "act_split shoe a available i s =
     (let h = hands s ! i; aces = (point (c_instance (h_cards h ! 0)) = 1) in
      if length (h_cards h) \<noteq> 2 \<or> h_split_aces h \<or>
         point (c_instance (h_cards h ! 0)) \<noteq> point (c_instance (h_cards h ! 1)) then Fail ActionNotAllowed
      else if length (hands s) \<ge> max_hands then Fail MaxHandsReached
      else if available < h_stake h then Fail SplitBalance
      else if a_new_hand a = '''' then Fail ActionNotAllowed
      else if list_ex (\<lambda>other. h_id other = a_new_hand a) (hands s) then Fail ActionNotAllowed
      else if split_index i s \<le> h_index h then Fail NeedsReview
      else bindr (draw shoe s) (\<lambda>(lc, s1). bindr (draw shoe s1) (\<lambda>(rc, s2).
             Ok (s2\<lparr>hands := take i (hands s2) @
                    [split_drawn aces (left_hand aces h) lc,
                     split_drawn aces (right_hand (a_new_hand a) (split_index i s) aces h) rc] @
                    drop (i + 1) (hands s2)\<rparr>, h_stake h))))"

definition act_on ::
  "nat list \<Rightarrow> bj_action \<Rightarrow> int \<Rightarrow> nat \<Rightarrow> bj_state \<Rightarrow> (bj_error, bj_state \<times> int) res" where
  "act_on shoe a available i s =
     (case a_type a of
        Hit \<Rightarrow> act_hit shoe i s
      | Stand \<Rightarrow> act_stand i s
      | SystemAutoStand \<Rightarrow> act_stand i s
      | Double \<Rightarrow> act_double shoe available i s
      | Split \<Rightarrow> act_split shoe a available i s
      | OtherAction _ \<Rightarrow> Ok (s, 0))"

definition book :: "bj_action \<Rightarrow> int \<Rightarrow> int \<Rightarrow> bool \<Rightarrow> bj_state \<Rightarrow> bj_state" where
  "book a additional now system s =
     (let s = s\<lparr>total_stake := total_stake s + additional, bj_version := bj_version s + 1,
                actions := actions s @ [\<lparr>ar_action = a, ar_sequence = int (length (actions s)) + 1,
                                         ar_at = now, ar_stake = additional\<rparr>]\<rparr>
      in if system then s else s\<lparr>last_action := now, auto_resolve_at := now + day\<rparr>)"

definition bj_apply ::
  "nat list \<Rightarrow> bj_action \<Rightarrow> int \<Rightarrow> int \<Rightarrow> bool \<Rightarrow> bj_state \<Rightarrow> (bj_error, bj_state \<times> int) res" where
  "bj_apply shoe a available now system s =
     (if list_ex (\<lambda>r. a_id (ar_action r) = a_id a) (actions s) then Fail DuplicateAction
      else if a_id a = '''' \<or> now = 0 \<or> now < last_action s then Fail ActionNotAllowed
      else if a_version a \<noteq> bj_version s then Fail StaleVersion
      else case active_index s of
             None \<Rightarrow> Fail HandNotActive
           | Some i \<Rightarrow>
               if phase s \<noteq> PlayerTurn \<or> a_hand a \<noteq> active_hand s then Fail HandNotActive
               else if (if system then a_type a \<noteq> SystemAutoStand \<or> now < auto_resolve_at s
                        else a_type a \<notin> {Hit, Stand, Double, Split}) then Fail ActionNotAllowed
               else bindr (act_on shoe a available i s) (\<lambda>(s, additional).
                      bindr (advance shoe (book a additional now system s)) (\<lambda>s. Ok (s, additional))))"

subsection \<open>Recovery and automatic resolution\<close>

fun bj_replay :: "nat list \<Rightarrow> bj_record list \<Rightarrow> bj_state \<Rightarrow> (bj_error, bj_state) res" where
  "bj_replay shoe [] s = Ok s"
| "bj_replay shoe (r # rs) s =
     bindr (bj_apply shoe (ar_action r) max_int64 (ar_at r) (a_type (ar_action r) = SystemAutoStand) s)
       (\<lambda>(s, _). bj_replay shoe rs s)"

definition verify_recovery ::
  "(byte list \<Rightarrow> byte list) \<Rightarrow> bj_state \<Rightarrow> nat list \<Rightarrow> (bj_error, unit) res" where
  "verify_recovery sha s shoe =
     (case shoe_hash sha shoe of
        Ok hash \<Rightarrow>
          if hash \<noteq> hash_of_shoe s \<or> length (actions s) > 320 then Fail NeedsReview
          else (case bindr (bj_new sha shoe (wager s) (initial_hand s) (created_at s)) (bj_replay shoe (actions s)) of
                  Ok t \<Rightarrow> if s = t then Ok () else Fail NeedsReview
                | _ \<Rightarrow> Fail NeedsReview)
      | _ \<Rightarrow> Fail NeedsReview)"

definition bj_public_apply ::
  "(byte list \<Rightarrow> byte list) \<Rightarrow> bj_state \<Rightarrow> nat list \<Rightarrow> bj_action \<Rightarrow> int \<Rightarrow> int \<Rightarrow>
     (bj_error, bj_state \<times> int) res" where
  "bj_public_apply sha s shoe a available now =
     bindr (verify_recovery sha s shoe) (\<lambda>_. bj_apply shoe a available now False s)"

text \<open>The loop of \<open>AutoResolve\<close>: every turn stands one active hand. The fuel is an upper
  bound; with the number of hands it suffices (lemma \<open>auto_loop_settles\<close>).\<close>

fun auto_loop ::
  "nat \<Rightarrow> nat list \<Rightarrow> int \<Rightarrow> (string \<Rightarrow> (bj_error, string) res) \<Rightarrow> bj_state \<Rightarrow> (bj_error, bj_state) res" where
  "auto_loop fuel shoe now ids s =
     (if phase s \<noteq> PlayerTurn then Ok s
      else case fuel of
             0 \<Rightarrow> Hang
           | Suc fuel \<Rightarrow>
               bindr (ids (active_hand s)) (\<lambda>n.
               bindr (bj_apply shoe \<lparr>a_id = n, a_version = bj_version s, a_hand = active_hand s,
                                     a_type = SystemAutoStand, a_new_hand = ''''\<rparr> 0 now True s)
                 (\<lambda>(s, _). auto_loop fuel shoe now ids s)))"

definition auto_resolve ::
  "(byte list \<Rightarrow> byte list) \<Rightarrow> bj_state \<Rightarrow> nat list \<Rightarrow> int \<Rightarrow> (string \<Rightarrow> (bj_error, string) res) \<Rightarrow>
     (bj_error, bj_state \<times> int) res" where
  "auto_resolve sha s shoe now ids =
     bindr (verify_recovery sha s shoe) (\<lambda>_.
       if phase s \<noteq> PlayerTurn \<or> now < auto_resolve_at s then Ok (s, 0)
       else bindr (auto_loop (length (hands s)) shoe now ids s) (\<lambda>s. Ok (s, 0)))"

subsection \<open>The public view\<close>

record public_hand =
  ph_id :: string
  ph_index :: int
  ph_cards :: "nat list"
  ph_stake :: int
  ph_status :: bj_status
  ph_value :: bj_value
  ph_natural :: bool
  ph_result :: string
  ph_payout :: int
  ph_net :: int

record projection =
  pv_phase :: bj_phase
  pv_version :: int
  pv_active :: string
  pv_hands :: "public_hand list"
  pv_dealer :: "nat list"
  pv_revealed :: bool
  pv_dealer_total :: "bj_value option"
  pv_legal :: "bj_action_type list"
  pv_last :: int
  pv_auto :: int
  pv_stake :: int
  pv_payout :: int
  pv_fair :: int
  pv_net :: int
  pv_class :: string

definition public_hand_of :: "bj_hand \<Rightarrow> public_hand" where
  "public_hand_of h = \<lparr>ph_id = h_id h, ph_index = h_index h,
     ph_cards = map (\<lambda>c. c_instance c mod 52) (h_cards h), ph_stake = h_stake h, ph_status = h_status h,
     ph_value = h_value h, ph_natural = h_natural h, ph_result = h_result h, ph_payout = h_payout h,
     ph_net = h_net h\<rparr>"

definition public_view :: "bj_state \<Rightarrow> int \<Rightarrow> projection" where
  "public_view s available = \<lparr>pv_phase = phase s, pv_version = bj_version s, pv_active = active_hand s,
     pv_hands = map public_hand_of (hands s),
     pv_dealer = map (\<lambda>c. c_instance c mod 52) (if dealer_revealed s then dealer s else take 1 (dealer s)),
     pv_revealed = dealer_revealed s,
     pv_dealer_total = (if dealer_revealed s then Some (value_of (dealer s)) else None),
     pv_legal = bj_legal s available, pv_last = last_action s, pv_auto = auto_resolve_at s,
     pv_stake = total_stake s, pv_payout = total_payout s, pv_fair = fair_return s,
     pv_net = net_change s, pv_class = class_of s\<rparr>"

end
