(* ===== verification/BlackjackFacts.thy ===== *)
theory BlackjackFacts
  imports Blackjack
begin

text \<open>
  What a blackjack round keeps: the hands partition the cards drawn from the shoe, stakes add up
  and stay payable in 64 bits, the sparse hand order never runs out of room, the shoe never
  runs out of cards, every state can be replayed from its recorded actions.
\<close>

named_theorems bj_simps "how the single actions change a round"

subsection \<open>Values\<close>

lemma point_bounds: "1 \<le> point c \<and> point c \<le> 10"
  by (simp add: point_def Let_def)

definition hard_points :: "bj_card list \<Rightarrow> int" where
  "hard_points cs = sum_list (map (\<lambda>c. point (c_instance c)) cs)"

definition bj_good :: "bj_card list \<Rightarrow> bool" where
  "bj_good cs \<longleftrightarrow> length cs \<le> 312 \<and> (\<forall>c\<in>set cs. c_instance c < 312)"

lemma hard_points_simps [simp]:
  "hard_points [] = 0" "hard_points (c # cs) = point (c_instance c) + hard_points cs"
  "hard_points (cs @ ds) = hard_points cs + hard_points ds"
  by (simp_all add: hard_points_def)

lemma length_le_hard: "int (length cs) \<le> hard_points cs"
  by (induction cs) (use point_bounds in \<open>auto simp: hard_points_def intro: add_mono\<close>)

lemma value_of_good:
  assumes "bj_good cs"
  shows "hard_total (value_of cs) = hard_points cs"
    "best_total (value_of cs) = (if (\<exists>c\<in>set cs. point (c_instance c) = 1) \<and> hard_points cs \<le> 11
       then hard_points cs + 10 else hard_points cs)"
    "soft (value_of cs) = ((\<exists>c\<in>set cs. point (c_instance c) = 1) \<and> hard_points cs \<le> 11)"
proof -
  have e: "length cs \<le> 312" "\<not> list_ex (\<lambda>c. c_instance c \<ge> 312) cs"
    using assms by (auto simp: bj_good_def list_ex_iff)
  show "hard_total (value_of cs) = hard_points cs"
    "best_total (value_of cs) = (if (\<exists>c\<in>set cs. point (c_instance c) = 1) \<and> hard_points cs \<le> 11
       then hard_points cs + 10 else hard_points cs)"
    "soft (value_of cs) = ((\<exists>c\<in>set cs. point (c_instance c) = 1) \<and> hard_points cs \<le> 11)"
    using e by (auto simp: value_of_def bj_evaluate_def hard_points_def list_ex_iff Let_def)
qed

lemma hard_le_best: "bj_good cs \<Longrightarrow> hard_points cs \<le> best_total (value_of cs)"
  by (simp add: value_of_good)

text \<open>The rule of the game: every ace counts 1 or 11, and the best total is the largest that does
  not exceed 21, or the smallest when all do.\<close>

definition ace_totals :: "bj_card list \<Rightarrow> int set" where
  "ace_totals cs = {hard_points cs + 10 * int k | k. k \<le> length (filter (\<lambda>c. point (c_instance c) = 1) cs)}"

lemma best_total_rule:
  assumes "bj_good cs"
  shows "best_total (value_of cs) \<in> ace_totals cs"
    "best_total (value_of cs) \<le> 21 \<Longrightarrow> t \<in> ace_totals cs \<Longrightarrow> t \<le> 21 \<Longrightarrow> t \<le> best_total (value_of cs)"
    "21 < best_total (value_of cs) \<Longrightarrow> t \<in> ace_totals cs \<Longrightarrow> best_total (value_of cs) \<le> t"
proof -
  let ?n = "length (filter (\<lambda>c. point (c_instance c) = 1) cs)"
  have ace: "(\<exists>c\<in>set cs. point (c_instance c) = 1) \<longleftrightarrow> 0 < ?n"
    by (auto simp: filter_empty_conv)
  have two: "int ?n \<le> hard_points cs"
    using length_le_hard[of cs] length_filter_le[of "\<lambda>c. point (c_instance c) = 1" cs] by linarith
  show "best_total (value_of cs) \<in> ace_totals cs"
  proof (cases "(\<exists>c\<in>set cs. point (c_instance c) = 1) \<and> hard_points cs \<le> 11")
    case True
    then have "best_total (value_of cs) = hard_points cs + 10 * int 1" "1 \<le> ?n"
      using ace by (simp_all add: value_of_good[OF assms] Suc_le_eq)
    then show ?thesis unfolding ace_totals_def by blast
  next
    case False
    then have "best_total (value_of cs) = hard_points cs + 10 * int 0" by (auto simp: value_of_good[OF assms])
    then show ?thesis unfolding ace_totals_def by blast
  qed
  show "t \<le> best_total (value_of cs)"
    if b: "best_total (value_of cs) \<le> 21" "t \<in> ace_totals cs" "t \<le> 21"
  proof -
    obtain k where k: "t = hard_points cs + 10 * int k" "k \<le> ?n" using b(2) by (auto simp: ace_totals_def)
    have "0 \<le> hard_points cs" using two by linarith
    then have "k \<le> 2" using k(1) b(3) by linarith
    then consider "k = 0" | "k = 1" | "k = 2" by linarith
    then show ?thesis
    proof cases
      case 3
      then have "2 \<le> hard_points cs" using two k(2) by linarith
      then show ?thesis using k(1) b(3) 3 by simp
    qed (use k ace b value_of_good(2)[OF assms] in \<open>auto split: if_splits\<close>)
  qed
  show "best_total (value_of cs) \<le> t" if "21 < best_total (value_of cs)" "t \<in> ace_totals cs"
    using that value_of_good(2)[OF assms] by (auto simp: ace_totals_def split: if_splits)
qed

subsection \<open>The shuffle and the shoe hash\<close>

lemma bj_shuffle_loop_mset:
  "bj_shuffle_loop sample i shoe s = Ok (shoe', s') \<Longrightarrow> i < length shoe \<Longrightarrow> mset shoe' = mset shoe"
proof (induction i arbitrary: shoe s)
  case (Suc i)
  then obtain j t where "\<not> Suc i < j" "bj_shuffle_loop sample i (swap shoe (Suc i) j) t = Ok (shoe', s')"
    by (auto simp: res_simps split: if_splits)
  with Suc.IH[of "swap shoe (Suc i) j" t] Suc.prems(2) show ?case by simp
qed simp

lemma bj_shuffle_permutes: "bj_shuffle sample s = Ok (shoe, s') \<Longrightarrow> mset shoe = mset [0..<312]"
  unfolding bj_shuffle_def by (drule bj_shuffle_loop_mset) simp_all

definition shoe_ok :: "nat list \<Rightarrow> bool" where
  "shoe_ok shoe \<longleftrightarrow> length shoe = 312 \<and> distinct shoe \<and> (\<forall>v\<in>set shoe. v < 312)"

lemma shuffled_shoe_ok: "bj_shuffle sample s = Ok (shoe, s') \<Longrightarrow> shoe_ok shoe \<and> set shoe = {..<312}"
proof -
  assume "bj_shuffle sample s = Ok (shoe, s')"
  then have m: "mset shoe = mset [0..<312]" by (rule bj_shuffle_permutes)
  have "length shoe = 312" using arg_cong[OF m, of size] by simp
  moreover have "set shoe = {..<312}" using mset_eq_setD[OF m] by (simp add: atLeast_upt)
  moreover have "distinct shoe" using mset_eq_imp_distinct_iff[OF m] by simp
  ultimately show ?thesis by (simp add: shoe_ok_def)
qed

lemma shoe_hash_Ok: "length shoe = 312 \<Longrightarrow> (\<exists>h. shoe_hash sha shoe = Ok h) \<longleftrightarrow> shoe_ok shoe"
  by (simp add: shoe_hash_def shoe_ok_def list_ex_iff) (meson not_le)


subsection \<open>The invariant of a round\<close>

definition drawn :: "nat list \<Rightarrow> nat \<Rightarrow> bj_card list" where
  "drawn shoe n = map (\<lambda>i. \<lparr>c_shoe_index = int i, c_instance = shoe ! i\<rparr>) [0..<n]"

definition hand_ok :: "int \<Rightarrow> bj_hand \<Rightarrow> bool" where
  "hand_ok w h \<longleftrightarrow> h_stake h \<in> {w, 2 * w} \<and> h_value h = value_of (h_cards h) \<and> 2 \<le> length (h_cards h) \<and>
     length (h_cards h) \<le> 21 \<and> (h_natural h \<longrightarrow> h_stake h = w \<and> h_status h = NaturalComplete) \<and>
     (h_status h = Active \<longrightarrow> h_stake h = w \<and> hard_points (h_cards h) \<le> 20)"

fun gaps :: "int list \<Rightarrow> int list" where
  "gaps [] = []"
| "gaps [i] = [8 - i]"
| "gaps (i # j # is) = (j - i) # gaps (j # is)"

definition order_ok :: "bj_hand list \<Rightarrow> bool" where
  "order_ok hs \<longleftrightarrow> hs \<noteq> [] \<and> length hs \<le> 4 \<and> h_index (hd hs) = 0 \<and>
     (\<forall>g\<in>set (gaps (map h_index hs)). 2 ^ (4 - length hs) \<le> g)"

definition active_count :: "bj_hand list \<Rightarrow> nat" where
  "active_count hs = length (filter (\<lambda>h. h_status h = Active) hs)"

definition cards_ok :: "nat list \<Rightarrow> bj_state \<Rightarrow> bool" where
  "cards_ok shoe s \<longleftrightarrow> (\<exists>n. shoe_index s = int n \<and> n \<le> 312 \<and> dealt s = drawn shoe n \<and>
     mset (dealer s) + mset (concat (map h_cards (hands s))) = mset (drawn shoe n))"

definition wager_ok :: "bj_state \<Rightarrow> bool" where
  "wager_ok s \<longleftrightarrow> 10 * units_per_chip \<le> wager s \<and> wager s mod units_per_chip = 0 \<and> wager s \<le> max_int64 div 16"

definition bj_money :: "bj_state \<Rightarrow> bool" where
  "bj_money s \<longleftrightarrow> total_stake s = sum_list (map h_stake (hands s)) \<and>
     (phase s = BjSettled \<longrightarrow> total_payout s = sum_list (map h_payout (hands s)) \<and>
        net_change s = total_payout s - total_stake s \<and> class_of s = class_for (net_change s) \<and>
        hands s = map (settle_hand (value_of (dealer s)) (length (dealer s) = 2 \<and> best_total (value_of (dealer s)) = 21)) (hands s))"

definition turn_ok :: "bj_state \<Rightarrow> bool" where
  "turn_ok s \<longleftrightarrow> (case find (\<lambda>h. h_status h = Active) (hands s) of
       Some h \<Rightarrow> phase s = PlayerTurn \<and> active_hand s = h_id h \<and> \<not> dealer_revealed s \<and> length (dealer s) = 2
     | None \<Rightarrow> phase s = BjSettled \<and> active_hand s = '''' \<and> dealer_revealed s)"

definition bj_inv :: "nat list \<Rightarrow> bj_state \<Rightarrow> bool" where
  "bj_inv shoe s \<longleftrightarrow> shoe_ok shoe \<and> wager_ok s \<and> cards_ok shoe s \<and> (\<forall>h\<in>set (hands s). hand_ok (wager s) h) \<and>
     order_ok (hands s) \<and> distinct (map h_id (hands s)) \<and> bj_money s \<and> turn_ok s \<and>
     length (dealer s) \<le> 17 \<and>
     bj_version s = 1 + int (length (actions s)) \<and>
     int (length (actions s)) + int (active_count (hands s)) \<le> shoe_index s - 3"

subsection \<open>Drawing\<close>

lemma drawn_Suc: "drawn shoe (Suc n) = drawn shoe n @ [\<lparr>c_shoe_index = int n, c_instance = shoe ! n\<rparr>]"
  by (simp add: drawn_def)

lemma length_drawn [simp]: "length (drawn shoe n) = n"
  by (simp add: drawn_def)

lemma drawn_good: "shoe_ok shoe \<Longrightarrow> n \<le> 312 \<Longrightarrow> c \<in> set (drawn shoe n) \<Longrightarrow> c_instance c < 312"
  by (auto simp: drawn_def shoe_ok_def)

lemma draw_Ok:
  "draw shoe s = Ok (c, t) \<longleftrightarrow> 0 \<le> shoe_index s \<and> shoe_index s < int (length shoe) \<and>
     c = \<lparr>c_shoe_index = shoe_index s, c_instance = shoe ! nat (shoe_index s)\<rparr> \<and>
     t = s\<lparr>shoe_index := shoe_index s + 1, dealt := dealt s @ [c]\<rparr>"
  by (auto simp: draw_def Let_def)

lemma cards_ok_bounds:
  assumes "shoe_ok shoe" "cards_ok shoe s"
  shows "shoe_index s = int (length (dealer s)) + sum_list (map (\<lambda>h. int (length (h_cards h))) (hands s))"
    "0 \<le> shoe_index s" "shoe_index s \<le> 312"
    "bj_good (dealer s)" "h \<in> set (hands s) \<Longrightarrow> bj_good (h_cards h)"
proof -
  obtain n where n: "shoe_index s = int n" "n \<le> 312"
    "mset (dealer s) + mset (concat (map h_cards (hands s))) = mset (drawn shoe n)"
    using assms(2) by (auto simp: cards_ok_def)
  have len: "length (dealer s) + length (concat (map h_cards (hands s))) = n"
    using arg_cong[OF n(3), of size] by simp
  have "int (length (concat (map h_cards hs))) = sum_list (map (\<lambda>h. int (length (h_cards h))) hs)" for hs
    by (induction hs) simp_all
  then show "shoe_index s = int (length (dealer s)) + sum_list (map (\<lambda>h. int (length (h_cards h))) (hands s))"
    using n(1) len by (metis of_nat_add)
  show "0 \<le> shoe_index s" "shoe_index s \<le> 312" using n by simp_all
  have mem: "set (dealer s) \<union> set (concat (map h_cards (hands s))) = set (drawn shoe n)"
    using arg_cong[OF n(3), of set_mset] by (simp del: set_concat)
  then show "bj_good (dealer s)"
    using drawn_good[OF assms(1) n(2)] len n(2) by (auto simp: bj_good_def)
  show "bj_good (h_cards h)" if "h \<in> set (hands s)"
  proof -
    have "set (h_cards h) \<subseteq> set (drawn shoe n)" using mem that by auto
    moreover have "length (h_cards h) \<le> length (concat (map h_cards (hands s)))"
      using that by (induction "hands s" arbitrary: s) (auto simp: length_concat intro: member_le_sum_list)
    ultimately show ?thesis
      using drawn_good[OF assms(1) n(2)] len n(2) unfolding bj_good_def by fastforce
  qed
qed

text \<open>The hands and the dealer never hold more than 101 cards together.\<close>

lemma hands_room:
  assumes "shoe_ok shoe" "cards_ok shoe s" "\<forall>h\<in>set (hands s). hand_ok (wager s) h" "order_ok (hands s)"
  shows "shoe_index s \<le> 84 + int (length (dealer s))"
proof -
  have "\<forall>h\<in>set hs. length (h_cards h) \<le> 21 \<Longrightarrow> sum_list (map (\<lambda>h. int (length (h_cards h))) hs) \<le> 21 * int (length hs)" for hs
    by (induction hs) auto
  moreover have "\<forall>h\<in>set (hands s). length (h_cards h) \<le> 21" "length (hands s) \<le> 4"
    using assms(3,4) by (auto simp: hand_ok_def order_ok_def)
  ultimately show ?thesis
    using cards_ok_bounds(1)[OF assms(1,2)] by fastforce
qed

lemma shoe_room: "bj_inv shoe s \<Longrightarrow> shoe_index s \<le> 101"
  using hands_room[of shoe s] by (auto simp: bj_inv_def)

subsection \<open>The single actions\<close>

definition mid :: "nat list \<Rightarrow> bj_state \<Rightarrow> bool" where
  "mid shoe s \<longleftrightarrow> shoe_ok shoe \<and> wager_ok s \<and> cards_ok shoe s \<and> (\<forall>h\<in>set (hands s). hand_ok (wager s) h) \<and>
     order_ok (hands s) \<and> distinct (map h_id (hands s)) \<and> total_stake s = sum_list (map h_stake (hands s)) \<and>
     phase s = PlayerTurn \<and> \<not> dealer_revealed s \<and> length (dealer s) = 2"

text \<open>What an action leaves alone.\<close>

definition bj_frame :: "bj_state \<Rightarrow> bj_state \<Rightarrow> bool" where
  "bj_frame s t \<longleftrightarrow> wager t = wager s \<and> initial_hand t = initial_hand s \<and> created_at t = created_at s \<and>
     hash_of_shoe t = hash_of_shoe s \<and> fair_return t = fair_return s"

definition same_book :: "bj_state \<Rightarrow> bj_state \<Rightarrow> bool" where
  "same_book s t \<longleftrightarrow> bj_frame s t \<and> bj_version t = bj_version s \<and> actions t = actions s \<and>
     total_stake t = total_stake s \<and> last_action t = last_action s \<and> auto_resolve_at t = auto_resolve_at s"

lemma find_upt_Some:
  "find P [0..<n] = Some i \<Longrightarrow> i < n \<and> P i"
  by (auto simp: find_Some_iff)

lemma active_index_split:
  assumes "active_index s = Some i"
  obtains L h R where "hands s = L @ h # R" "i = length L" "h_status h = Active" "h_id h = active_hand s"
proof -
  have i: "i < length (hands s)" "h_id (hands s ! i) = active_hand s" "h_status (hands s ! i) = Active"
    using find_upt_Some[OF assms[unfolded active_index_def]] by auto
  show ?thesis
    by (rule that[of "take i (hands s)" "hands s ! i" "drop (Suc i) (hands s)"])
       (use i in \<open>simp_all add: id_take_nth_drop[symmetric]\<close>)
qed

lemma cards_ok_draw:
  assumes "shoe_ok shoe" "cards_ok shoe s" "draw shoe s = Ok (c, t)"
  shows "\<exists>n. shoe_index t = int n \<and> n \<le> 312 \<and> dealt t = drawn shoe n \<and>
     add_mset c (mset (dealer s) + mset (concat (map h_cards (hands s)))) = mset (drawn shoe n)"
    "hands t = hands s" "dealer t = dealer s" "shoe_index t = shoe_index s + 1" "same_book s t"
    "phase t = phase s" "dealer_revealed t = dealer_revealed s" "active_hand t = active_hand s"
proof -
  obtain n where n: "shoe_index s = int n" "n \<le> 312" "dealt s = drawn shoe n"
    "mset (dealer s) + mset (concat (map h_cards (hands s))) = mset (drawn shoe n)"
    using assms(2) by (auto simp: cards_ok_def)
  have t: "c = \<lparr>c_shoe_index = int n, c_instance = shoe ! n\<rparr>" "n < 312"
    "t = s\<lparr>shoe_index := shoe_index s + 1, dealt := dealt s @ [c]\<rparr>"
    using assms(1,3) n(1) by (auto simp: draw_Ok shoe_ok_def)
  show "\<exists>n. shoe_index t = int n \<and> n \<le> 312 \<and> dealt t = drawn shoe n \<and>
     add_mset c (mset (dealer s) + mset (concat (map h_cards (hands s)))) = mset (drawn shoe n)"
    by (rule exI[of _ "Suc n"]) (use t n in \<open>simp add: drawn_Suc del: mset_concat\<close>)
  show "hands t = hands s" "dealer t = dealer s" "shoe_index t = shoe_index s + 1" "same_book s t"
    "phase t = phase s" "dealer_revealed t = dealer_revealed s" "active_hand t = active_hand s"
    by (simp_all add: t(3) same_book_def bj_frame_def)
qed

lemma order_ok_same:
  "map h_index hs' = map h_index hs \<Longrightarrow> order_ok hs \<Longrightarrow> order_ok hs'"
proof -
  assume m: "map h_index hs' = map h_index hs" and o: "order_ok hs"
  then have "length hs' = length hs" by (metis length_map)
  moreover have "hs \<noteq> []" "hs' \<noteq> []" using o \<open>length hs' = length hs\<close> by (auto simp: order_ok_def)
  then have "h_index (hd hs') = h_index (hd hs)" using m by (metis hd_map)
  ultimately show ?thesis using m o \<open>hs' \<noteq> []\<close> by (simp add: order_ok_def)
qed

lemma gaps_insert:
  "set (gaps (xs @ a # m # ys)) \<subseteq> set (gaps (xs @ a # ys)) \<union> {m - a, (case ys of [] \<Rightarrow> 8 | y # _ \<Rightarrow> y) - m} \<and>
   (case ys of [] \<Rightarrow> 8 | y # _ \<Rightarrow> y) - a \<in> set (gaps (xs @ a # ys))"
proof (induction xs)
  case Nil
  then show ?case by (cases ys) auto
next
  case (Cons x xs)
  then show ?case by (cases xs) auto
qed

lemma order_ok_insert:
  assumes o: "order_ok (L @ h # R)" and len: "length (L @ h # R) < 4"
    and b: "b = (case R of [] \<Rightarrow> 8 | r # _ \<Rightarrow> h_index r)" and m: "m = (h_index h + b) div 2"
    and idx: "h_index h1 = h_index h" "h_index h2 = m"
  shows "order_ok (L @ h1 # h2 # R)" "h_index h < m"
proof -
  let ?n = "length (L @ h # R)"
  have bb: "b = (case map h_index R of [] \<Rightarrow> 8 | y # _ \<Rightarrow> y)" by (cases R) (simp_all add: b)
  define k where "k = 3 - ?n"
  have n: "4 - ?n = Suc k" "4 - Suc ?n = k" using len by (simp_all add: k_def)
  have g: "\<forall>g\<in>set (gaps (map h_index L @ h_index h # map h_index R)). 2 ^ Suc k \<le> g"
    using o n(1) by (simp add: order_ok_def)
  then have "2 ^ Suc k \<le> b - h_index h" using gaps_insert[of "map h_index L"] bb by blast
  then have "2 * 2 ^ k \<le> b - h_index h" by simp
  then have mid: "2 ^ k \<le> m - h_index h" "2 ^ k \<le> b - m" unfolding m by linarith+
  have "(0::int) < 2 ^ k" by simp
  then show "h_index h < m" using mid(1) by linarith
  have le: "2 ^ k \<le> (2 ^ Suc k :: int)" by simp
  have "\<forall>g\<in>set (gaps (map h_index (L @ h1 # h2 # R))). 2 ^ k \<le> g"
  proof
    fix d assume "d \<in> set (gaps (map h_index (L @ h1 # h2 # R)))"
    then have "d \<in> set (gaps (map h_index L @ h_index h # map h_index R)) \<or> d = m - h_index h \<or> d = b - m"
      using gaps_insert[of "map h_index L" "h_index h" m "map h_index R"] bb idx by auto
    then show "2 ^ k \<le> d" using g mid order_trans[OF le] by blast
  qed
  moreover have "h_index (hd (L @ h1 # h2 # R)) = 0"
    using o idx(1) by (cases L) (simp_all add: order_ok_def)
  ultimately show "order_ok (L @ h1 # h2 # R)" using len n(2) by (simp add: order_ok_def)
qed


lemma revalue_frame [simp]:
  "h_cards (revalue h) = h_cards h" "h_stake (revalue h) = h_stake h" "h_id (revalue h) = h_id h"
  "h_index (revalue h) = h_index h" "h_natural (revalue h) = h_natural h" "h_status (revalue h) = h_status h"
  "h_value (revalue h) = value_of (h_cards h)"
  by (simp_all add: revalue_def)

lemma active_count_simps [simp]:
  "active_count [] = 0" "active_count (h # hs) = (if h_status h = Active then 1 else 0) + active_count hs"
  "active_count (hs @ gs) = active_count hs + active_count gs"
  by (simp_all add: active_count_def)

lemma add_mset_middle:
  "mset (concat (map h_cards (L @ h # R))) = mset (concat (map h_cards L)) + mset (h_cards h) + mset (concat (map h_cards R))"
  by simp

text \<open>One hand is replaced, by one that has drawn the card \<open>c\<close>.\<close>

lemma mid_put_drawn:
  assumes m: "mid shoe s" and hs: "hands s = L @ h # R" and d: "draw shoe s = Ok (c, t)"
    and h': "h_cards h' = h_cards h @ [c]" "h_id h' = h_id h" "h_index h' = h_index h" "hand_ok (wager s) h'"
  shows "mid shoe ((put_hand (length L) h' t)\<lparr>total_stake := total_stake s + (h_stake h' - h_stake h)\<rparr>)"
proof -
  note dr = cards_ok_draw[OF _ _ d]
  have ok: "shoe_ok shoe" "cards_ok shoe s" using m by (simp_all add: mid_def)
  note dr = dr[OF ok]
  have hs': "hands (put_hand (length L) h' t) = L @ h' # R" by (simp add: put_hand_def dr(2) hs)
  have "order_ok (L @ h' # R)"
    by (rule order_ok_same[of _ "L @ h # R"]) (use m hs h'(3) in \<open>simp_all add: mid_def\<close>)
  moreover have "cards_ok shoe (put_hand (length L) h' t)"
    unfolding cards_ok_def hs' add_mset_middle
    using dr(1) unfolding hs add_mset_middle by (simp add: put_hand_def dr(3) h'(1) ac_simps)
  ultimately show ?thesis
    using m hs hs' h' dr(5-7) dr(3)
    by (auto simp: mid_def same_book_def bj_frame_def wager_ok_def put_hand_def cards_ok_def)
qed

lemma hand_ok_length:
  assumes "shoe_ok shoe" "cards_ok shoe s" "h \<in> set (hands s)" "hand_ok w h" "h_status h = Active" "draw shoe s = Ok (c, t)"
  shows "length (h_cards h @ [c]) \<le> 21" "bj_good (h_cards h @ [c])"
proof -
  have g: "bj_good (h_cards h)" by (rule cards_ok_bounds(5)[OF assms(1-3)])
  have "length (h_cards h) \<le> 20" using assms(4,5) length_le_hard[of "h_cards h"] by (simp add: hand_ok_def)
  moreover have "c_instance c < 312" using assms(1,6) by (auto simp: draw_Ok shoe_ok_def)
  ultimately show "length (h_cards h @ [c]) \<le> 21" "bj_good (h_cards h @ [c])"
    using g by (auto simp: bj_good_def)
qed

lemma act_hit_ok:
  assumes m: "mid shoe s" and i: "active_index s = Some i" and a: "act_hit shoe i s = Ok (t, x)"
  shows "mid shoe (t\<lparr>total_stake := total_stake t + x\<rparr>)" "same_book s t"
    "int (active_count (hands t)) + 1 \<le> int (active_count (hands s)) + (shoe_index t - shoe_index s)" "x = 0"
proof -
  obtain L h R where hs: "hands s = L @ h # R" "i = length L" "h_status h = Active"
    using active_index_split[OF i] by metis
  obtain c u where d: "draw shoe s = Ok (c, u)" using a by (auto simp: act_hit_def res_simps)
  have ok: "shoe_ok shoe" "cards_ok shoe s" "hand_ok (wager s) h" using m hs by (simp_all add: mid_def)
  note dr = cards_ok_draw[OF ok(1,2) d] and len = hand_ok_length[OF ok(1,2) _ ok(3) hs(3) d]
  define g where "g = revalue (h\<lparr>h_cards := h_cards h @ [c]\<rparr>)"
  define h' where "h' = (if best_total (h_value g) > 21 then g\<lparr>h_status := Bust\<rparr>
                else if best_total (h_value g) = 21 then g\<lparr>h_status := Stood\<rparr> else g)"
  have t: "t = put_hand (length L) h' u" "x = 0"
    using a d by (auto simp: act_hit_def dr(2) hs(1,2) g_def h'_def Let_def)
  have "hand_ok (wager s) h'"
    using ok(3) hs len hard_le_best[OF len(2)]
    by (auto simp: h'_def g_def hand_ok_def)
  then have "mid shoe ((put_hand (length L) h' u)\<lparr>total_stake := total_stake s + (h_stake h' - h_stake h)\<rparr>)"
    by (intro mid_put_drawn[OF m hs(1) d]) (simp_all add: h'_def g_def)
  moreover have "h_stake h' = h_stake h" by (simp add: h'_def g_def)
  moreover have "total_stake t = total_stake s" using dr(5) by (simp add: t put_hand_def same_book_def)
  ultimately show "mid shoe (t\<lparr>total_stake := total_stake t + x\<rparr>)" by (simp add: t)
  show "same_book s t" "x = 0" using dr(5) by (simp_all add: t put_hand_def same_book_def bj_frame_def)
  show "int (active_count (hands t)) + 1 \<le> int (active_count (hands s)) + (shoe_index t - shoe_index s)"
    using hs(3) dr(4) by (simp add: t put_hand_def dr(2) hs(1))
qed

lemma act_double_ok:
  assumes m: "mid shoe s" and i: "active_index s = Some i" and a: "act_double shoe av i s = Ok (t, x)"
  shows "mid shoe (t\<lparr>total_stake := total_stake t + x\<rparr>)" "same_book s t"
    "int (active_count (hands t)) + 1 \<le> int (active_count (hands s)) + (shoe_index t - shoe_index s)"
    "x = wager s"
proof -
  obtain L h R where hs: "hands s = L @ h # R" "i = length L" "h_status h = Active"
    using active_index_split[OF i] by metis
  obtain c u where d: "draw shoe s = Ok (c, u)"
    using a by (auto simp: act_double_def res_simps Let_def split: if_splits)
  have ok: "shoe_ok shoe" "cards_ok shoe s" "hand_ok (wager s) h" using m hs by (simp_all add: mid_def)
  note dr = cards_ok_draw[OF ok(1,2) d]
  define h' where "h' = (revalue (h\<lparr>h_stake := h_stake h * 2, h_cards := h_cards h @ [c]\<rparr>))\<lparr>h_status := DoubledComplete\<rparr>"
  have t: "t = put_hand (length L) h' u" "x = h_stake h" and two: "length (h_cards h) = 2"
    using a d by (auto simp: act_double_def dr(2) hs(1,2) h'_def Let_def split: if_splits)
  have w: "h_stake h = wager s" using ok(3) hs(3) by (simp add: hand_ok_def)
  have nat: "\<not> h_natural h" using ok(3) hs(3) by (auto simp: hand_ok_def)
  have "hand_ok (wager s) h'"
    using ok(3) hs two w nat by (auto simp: h'_def hand_ok_def)
  then have "mid shoe ((put_hand (length L) h' u)\<lparr>total_stake := total_stake s + (h_stake h' - h_stake h)\<rparr>)"
    by (intro mid_put_drawn[OF m hs(1) d]) (simp_all add: h'_def)
  moreover have "total_stake t = total_stake s" using dr(5) by (simp add: t put_hand_def same_book_def)
  ultimately show "mid shoe (t\<lparr>total_stake := total_stake t + x\<rparr>)" by (simp add: t h'_def)
  show "same_book s t" "x = wager s" using dr(5) w by (simp_all add: t put_hand_def same_book_def bj_frame_def)
  show "int (active_count (hands t)) + 1 \<le> int (active_count (hands s)) + (shoe_index t - shoe_index s)"
    using hs(3) dr(4) by (simp add: t put_hand_def dr(2) hs(1) h'_def)
qed


lemma act_stand_ok:
  assumes m: "mid shoe s" and i: "active_index s = Some i" and a: "act_stand i s = Ok (t, x)"
  shows "mid shoe (t\<lparr>total_stake := total_stake t + x\<rparr>)" "same_book s t"
    "int (active_count (hands t)) + 1 \<le> int (active_count (hands s)) + (shoe_index t - shoe_index s)" "x = 0"
proof -
  obtain L h R where hs: "hands s = L @ h # R" "i = length L" "h_status h = Active"
    using active_index_split[OF i] by metis
  define h' where "h' = h\<lparr>h_status := Stood\<rparr>"
  have t: "t = put_hand (length L) h' s" "x = 0" using a by (simp_all add: act_stand_def hs(1,2) h'_def)
  have hs': "hands t = L @ h' # R" by (simp add: t put_hand_def hs(1))
  have ok: "hand_ok (wager s) h" using m hs by (simp add: mid_def)
  then have "hand_ok (wager s) h'" using hs(3) by (auto simp: h'_def hand_ok_def)
  moreover have "order_ok (L @ h' # R)"
    by (rule order_ok_same[of _ "L @ h # R"]) (use m hs in \<open>simp_all add: mid_def h'_def\<close>)
  moreover have "cards_ok shoe t"
    using m hs(1) hs' unfolding mid_def cards_ok_def by (simp add: t put_hand_def h'_def)
  ultimately show "mid shoe (t\<lparr>total_stake := total_stake t + x\<rparr>)"
    using m hs(1) hs' by (simp add: mid_def wager_ok_def cards_ok_def t put_hand_def h'_def)
  show "same_book s t" "x = 0" by (simp_all add: t put_hand_def same_book_def bj_frame_def)
  show "int (active_count (hands t)) + 1 \<le> int (active_count (hands s)) + (shoe_index t - shoe_index s)"
    using hs(3) by (simp add: hs' hs(1) h'_def) (simp add: t put_hand_def)
qed

lemma two_cards: "length cs = 2 \<Longrightarrow> cs = [cs ! 0, cs ! 1]"
  by (cases cs; cases "tl cs") auto

lemma hard_two: "hard_points [a, b] \<le> 20"
  using point_bounds[of "c_instance a"] point_bounds[of "c_instance b"] by simp

lemma act_split_Ok:
  assumes "act_split shoe ac av i s = Ok (t, x)"
    and aces: "aces = (point (c_instance (h_cards (hands s ! i) ! 0)) = 1)"
  obtains lc u rc v where "draw shoe s = Ok (lc, u)" "draw shoe u = Ok (rc, v)"
    "length (h_cards (hands s ! i)) = 2" "length (hands s) < 4" "\<forall>other\<in>set (hands s). h_id other \<noteq> a_new_hand ac"
    "x = h_stake (hands s ! i)"
    "t = v\<lparr>hands := take i (hands v) @ [split_drawn aces (left_hand aces (hands s ! i)) lc,
         split_drawn aces (right_hand (a_new_hand ac) (split_index i s) aces (hands s ! i)) rc]
        @ drop (i + 1) (hands v)\<rparr>"
  using assms(1) unfolding act_split_def Let_def aces[symmetric]
  by (auto simp: res_simps list_ex_iff max_hands_def split: if_splits)

lemma split_drawn_frame [simp]:
  "h_cards (split_drawn a h c) = h_cards h @ [c]" "h_id (split_drawn a h c) = h_id h"
  "h_index (split_drawn a h c) = h_index h" "h_stake (split_drawn a h c) = h_stake h"
  "h_natural (split_drawn a h c) = h_natural h" "h_value (split_drawn a h c) = value_of (h_cards h @ [c])"
  by (simp_all add: split_drawn_def Let_def)

lemma split_hands_frame [simp]:
  "h_cards (left_hand a h) = [h_cards h ! 0]" "h_cards (right_hand n m a h) = [h_cards h ! 1]"
  "h_id (left_hand a h) = h_id h" "h_id (right_hand n m a h) = n" "h_index (left_hand a h) = h_index h"
  "h_index (right_hand n m a h) = m" "h_stake (left_hand a h) = h_stake h" "h_stake (right_hand n m a h) = h_stake h"
  "\<not> h_natural (left_hand a h)" "\<not> h_natural (right_hand n m a h)"
  by (simp_all add: left_hand_def right_hand_def first_hand_def)

lemma split_drawn_ok:
  assumes "h_cards g = [x]" "h_stake g = w" "\<not> h_natural g"
  shows "hand_ok w (split_drawn a g c)"
  using hard_two[of x c] assms by (simp add: hand_ok_def)

lemma act_split_ok:
  assumes m: "mid shoe s" and i: "active_index s = Some i" and a: "act_split shoe ac av i s = Ok (t, x)"
  shows "mid shoe (t\<lparr>total_stake := total_stake t + x\<rparr>)" "same_book s t"
    "int (active_count (hands t)) + 1 \<le> int (active_count (hands s)) + (shoe_index t - shoe_index s)"
    "x = wager s"
proof -
  obtain L h R where hs: "hands s = L @ h # R" "i = length L" "h_status h = Active"
    using active_index_split[OF i] by metis
  have ok: "shoe_ok shoe" "cards_ok shoe s" "hand_ok (wager s) h" using m hs by (simp_all add: mid_def)
  have at: "hands s ! i = h" by (simp add: hs)
  define b where "b = (case R of [] \<Rightarrow> 8 | r # _ \<Rightarrow> h_index r)"
  have mi: "split_index i s = (h_index h + b) div 2"
    by (cases R) (simp_all add: split_index_def hs b_def nth_append)
  define aces where "aces = (point (c_instance (h_cards h ! 0)) = 1)"
  obtain lc u rc v where d: "draw shoe s = Ok (lc, u)" "draw shoe u = Ok (rc, v)"
    and g: "length (h_cards h) = 2" "length (hands s) < 4" "\<forall>other\<in>set (hands s). h_id other \<noteq> a_new_hand ac" "x = h_stake h"
    and t: "t = v\<lparr>hands := take i (hands v) @ [split_drawn aces (left_hand aces h) lc,
         split_drawn aces (right_hand (a_new_hand ac) (split_index i s) aces h) rc] @ drop (i + 1) (hands v)\<rparr>"
    by (rule act_split_Ok[OF a, of aces, unfolded at, OF aces_def])
  define h1 where "h1 = split_drawn aces (left_hand aces h) lc"
  define h2 where "h2 = split_drawn aces (right_hand (a_new_hand ac) (split_index i s) aces h) rc"
  have w: "h_stake h = wager s" using ok(3) hs(3) by (simp add: hand_ok_def)
  have h12: "h_cards h1 = [h_cards h ! 0, lc]" "h_cards h2 = [h_cards h ! 1, rc]" "h_id h1 = h_id h"
    "h_id h2 = a_new_hand ac" "h_index h1 = h_index h" "h_index h2 = split_index i s" "h_stake h1 = h_stake h" "h_stake h2 = h_stake h"
    "hand_ok (wager s) h1" "hand_ok (wager s) h2"
    using w by (simp_all add: h1_def h2_def split_drawn_ok)
  note d1 = cards_ok_draw[OF ok(1,2) d(1)]
  obtain n where n: "shoe_index u = int n" "n \<le> 312" "dealt u = drawn shoe n"
     "add_mset lc (mset (dealer s) + mset (concat (map h_cards (hands s)))) = mset (drawn shoe n)"
    using d1(1) by auto
  have v: "rc = \<lparr>c_shoe_index = int n, c_instance = shoe ! n\<rparr>" "n < 312"
    "v = u\<lparr>shoe_index := shoe_index u + 1, dealt := dealt u @ [rc]\<rparr>"
    using ok(1) d(2) n(1) by (auto simp: draw_Ok shoe_ok_def)
  have hv: "hands v = L @ h # R" using v(3) d1(2) hs(1) by simp
  have hs': "hands t = L @ h1 # h2 # R" by (simp add: t hv hs(2) h1_def h2_def)
  have "mset (h_cards h) = {#h_cards h ! 0, h_cards h ! 1#}"
    by (subst two_cards[OF g(1)]) simp
  then have cards: "mset (dealer s) + mset (concat (map h_cards (L @ h1 # h2 # R))) = mset (drawn shoe (Suc n))"
    using n(4) unfolding hs(1) by (simp add: drawn_Suc v(1) h12 ac_simps add_mset_commute)
  have "order_ok (L @ h # R)" "length (L @ h # R) < 4" using m g(2) hs(1) by (simp_all add: mid_def)
  from order_ok_insert[OF this b_def mi h12(5,6)] have ord: "order_ok (L @ h1 # h2 # R)" by simp
  have co: "cards_ok shoe t"
    unfolding cards_ok_def hs' using cards n v d1(3) by (intro exI[of _ "Suc n"]) (simp add: drawn_Suc t)
  have sb: "same_book s t" using d1(5) by (simp add: t v(3) same_book_def bj_frame_def)
  have fr: "wager t = wager s" "phase t = phase s" "dealer_revealed t = dealer_revealed s" "dealer t = dealer s"
    "total_stake t = total_stake s"
    using sb d1(3,6,7) by (simp_all add: same_book_def bj_frame_def t v(3))
  have ids: "distinct (map h_id (L @ h1 # h2 # R))"
    using m g(3) h12(3,4) hs(1) by (auto simp: mid_def)
  have sum: "total_stake s + x = sum_list (map h_stake (L @ h1 # h2 # R))"
    using m hs(1) h12(7,8) g(4) by (simp add: mid_def)
  have all: "\<forall>g\<in>set (L @ h1 # h2 # R). hand_ok (wager s) g" using m hs(1) h12(9,10) by (auto simp: mid_def)
  have "cards_ok shoe (t\<lparr>total_stake := total_stake t + x\<rparr>)" using co by (simp add: cards_ok_def)
  then show "mid shoe (t\<lparr>total_stake := total_stake t + x\<rparr>)"
    using m fr ord all ids sum unfolding mid_def by (simp add: wager_ok_def hs')
  show "same_book s t" by (rule sb)
  show "x = wager s" using g(4) w by simp
  have "shoe_index t = shoe_index s + 2" using d1(4) by (simp add: t v(3))
  then show "int (active_count (hands t)) + 1 \<le> int (active_count (hands s)) + (shoe_index t - shoe_index s)"
    using hs(3) by (simp add: hs' hs(1))
qed

lemma act_on_mid:
  assumes m: "mid shoe s" and i: "active_index s = Some i" and a: "act_on shoe a av i s = Ok (t, x)"
    and ty: "a_type a \<in> {Hit, Stand, Double, Split, SystemAutoStand}"
  shows "mid shoe (t\<lparr>total_stake := total_stake t + x\<rparr>) \<and> same_book s t \<and>
    int (active_count (hands t)) + 1 \<le> int (active_count (hands s)) + (shoe_index t - shoe_index s) \<and>
    x \<in> {0, wager s}"
proof -
  consider "act_hit shoe i s = Ok (t, x)" | "act_stand i s = Ok (t, x)" | "act_double shoe av i s = Ok (t, x)"
    | "act_split shoe a av i s = Ok (t, x)"
    using a ty by (auto simp: act_on_def)
  then show ?thesis
  proof cases
    case 1
    show ?thesis using act_hit_ok[OF m i 1] by simp
  next
    case 2
    show ?thesis using act_stand_ok[OF m i 2] by simp
  next
    case 3
    show ?thesis using act_double_ok[OF m i 3] by simp
  next
    case 4
    show ?thesis using act_split_ok[OF m i 4] by simp
  qed
qed


subsection \<open>The dealer and the end of a round\<close>

lemma settle_hand_frame [simp]:
  "h_cards (settle_hand d n h) = h_cards h" "h_stake (settle_hand d n h) = h_stake h"
  "h_id (settle_hand d n h) = h_id h" "h_index (settle_hand d n h) = h_index h"
  "h_natural (settle_hand d n h) = h_natural h" "h_status (settle_hand d n h) = h_status h"
  "h_value (settle_hand d n h) = h_value h"
  by (simp_all add: settle_hand_def Let_def)

lemma settle_hand_again [simp]: "settle_hand d n (settle_hand d n h) = settle_hand d n h"
  by (simp add: settle_hand_def Let_def)

lemma hand_ok_settle [simp]: "hand_ok w (settle_hand d n h) = hand_ok w h"
  by (simp add: hand_ok_def)

lemma order_ok_settle [simp]: "order_ok (map (settle_hand d n) hs) = order_ok hs"
  using order_ok_same[of "map (settle_hand d n) hs" hs] order_ok_same[of hs "map (settle_hand d n) hs"]
  by (auto simp: o_def)

lemma active_count_settle [simp]: "active_count (map (settle_hand d n) hs) = active_count hs"
  by (induction hs) simp_all

lemma active_count_0: "active_count hs = 0 \<longleftrightarrow> (\<forall>h\<in>set hs. h_status h \<noteq> Active)"
  by (auto simp: active_count_def filter_empty_conv)

lemma bj_frame_trans: "bj_frame s t \<Longrightarrow> bj_frame t u \<Longrightarrow> bj_frame s u"
  by (simp add: bj_frame_def)

text \<open>The state of a round whose hands are complete, while the dealer plays.\<close>

definition closing :: "nat list \<Rightarrow> bj_state \<Rightarrow> bool" where
  "closing shoe s \<longleftrightarrow> shoe_ok shoe \<and> wager_ok s \<and> cards_ok shoe s \<and> (\<forall>h\<in>set (hands s). hand_ok (wager s) h) \<and>
     order_ok (hands s) \<and> distinct (map h_id (hands s)) \<and> total_stake s = sum_list (map h_stake (hands s)) \<and>
     active_count (hands s) = 0 \<and> length (dealer s) \<le> 17 \<and> 2 \<le> length (dealer s)"

lemma bj_settle_simps [simp]:
  "shoe_index (bj_settle s) = shoe_index s" "dealt (bj_settle s) = dealt s" "dealer (bj_settle s) = dealer s"
  "phase (bj_settle s) = BjSettled" "active_hand (bj_settle s) = ''''" "dealer_revealed (bj_settle s)"
  "bj_version (bj_settle s) = bj_version s" "actions (bj_settle s) = actions s" "total_stake (bj_settle s) = total_stake s"
  "wager (bj_settle s) = wager s" "bj_frame s (bj_settle s)"
  "hands (bj_settle s) = map (settle_hand (value_of (dealer s)) (length (dealer s) = 2 \<and> best_total (value_of (dealer s)) = 21)) (hands s)"
  by (simp_all add: bj_settle_def Let_def bj_frame_def)

lemma cards_ok_cong:
  "map h_cards (hands t) = map h_cards (hands s) \<Longrightarrow> shoe_index t = shoe_index s \<Longrightarrow> dealt t = dealt s \<Longrightarrow>
   dealer t = dealer s \<Longrightarrow> cards_ok shoe t = cards_ok shoe s"
  unfolding cards_ok_def by (simp only:)

lemma closing_settle:
  assumes c: "closing shoe s" and v: "bj_version s = 1 + int (length (actions s))"
    and n: "int (length (actions s)) \<le> shoe_index s - 3"
  shows "bj_inv shoe (bj_settle s)"
proof -
  have "map h_cards (hands (bj_settle s)) = map h_cards (hands s)" by (simp add: o_def)
  then have "cards_ok shoe (bj_settle s)" using c cards_ok_cong[of "bj_settle s" s] by (simp add: closing_def)
  moreover have "bj_money (bj_settle s)"
    using c by (simp add: bj_money_def closing_def o_def) (simp add: bj_settle_def Let_def o_def)
  moreover have "turn_ok (bj_settle s)"
    using c by (auto simp: turn_ok_def closing_def active_count_0 find_None_iff split: option.split dest!: find_Some_mem)
  ultimately show ?thesis
    using c v n by (simp add: bj_inv_def closing_def wager_ok_def o_def)
qed

lemma dealer_draw_closing:
  assumes c: "closing shoe s" and d: "draw shoe s = Ok (c, u)" and low: "\<not> 17 \<le> best_total (value_of (dealer s))"
  shows "closing shoe (u\<lparr>dealer := dealer u @ [c]\<rparr>)"
proof -
  have ok: "shoe_ok shoe" "cards_ok shoe s" using c by (simp_all add: closing_def)
  note dr = cards_ok_draw[OF ok d]
  have "hard_points (dealer s) < 17" using low hard_le_best[OF cards_ok_bounds(4)[OF ok]] by simp
  then have "length (dealer s) \<le> 16" using length_le_hard[of "dealer s"] by linarith
  moreover have "cards_ok shoe (u\<lparr>dealer := dealer u @ [c]\<rparr>)"
    using dr(1) unfolding cards_ok_def by (simp add: dr(2,3) ac_simps add_mset_commute)
  ultimately show ?thesis
    using c dr(2,3,5) by (simp add: closing_def same_book_def bj_frame_def wager_ok_def)
qed

lemma dealer_play_closing:
  "dealer_play shoe s = Ok t \<Longrightarrow> closing shoe s \<Longrightarrow>
   closing shoe t \<and> same_book s t \<and> hands t = hands s \<and> shoe_index s \<le> shoe_index t \<and>
   17 \<le> best_total (value_of (dealer t)) \<and> phase t = phase s \<and> dealer_revealed t = dealer_revealed s \<and>
   active_hand t = active_hand s \<and>
   (\<exists>cs. dealer t = dealer s @ cs \<and>
      (\<forall>k < length cs. best_total (value_of (dealer s @ take k cs)) < 17))"
proof (induction shoe s rule: dealer_play.induct)
  case (1 shoe s)
  show ?case
  proof (cases "17 \<le> best_total (value_of (dealer s))")
    case True
    then have "t = s" using "1.prems"(1) by (simp add: dealer_play.simps)
    then show ?thesis using True "1.prems" by (simp add: same_book_def bj_frame_def)
  next
    case False
    then obtain c u where d: "draw shoe s = Ok (c, u)"
      and rest: "dealer_play shoe (u\<lparr>dealer := dealer u @ [c]\<rparr>) = Ok t"
      using "1.prems"(1) by (subst (asm) dealer_play.simps) (auto split: res.splits)
    have ok: "shoe_ok shoe" "cards_ok shoe s" using "1.prems"(2) by (simp_all add: closing_def)
    note dr = cards_ok_draw[OF ok d]
    let ?u = "u\<lparr>dealer := dealer u @ [c]\<rparr>"
    have "closing shoe ?u" by (rule dealer_draw_closing[OF "1.prems"(2) d False])
    from "1.IH"[OF False d refl rest this]
    obtain cs where ih: "closing shoe t" "same_book ?u t" "hands t = hands s" "shoe_index s + 1 \<le> shoe_index t"
      "17 \<le> best_total (value_of (dealer t))" "dealer t = (dealer s @ [c]) @ cs" "phase t = phase s"
      "dealer_revealed t = dealer_revealed s" "active_hand t = active_hand s"
      "\<forall>k < length cs. best_total (value_of ((dealer s @ [c]) @ take k cs)) < 17"
      using dr by auto
    have "\<forall>k < length (c # cs). best_total (value_of (dealer s @ take k (c # cs))) < 17"
    proof (intro allI impI)
      fix k assume "k < length (c # cs)"
      then show "best_total (value_of (dealer s @ take k (c # cs))) < 17"
        using False ih(10) by (cases k) auto
    qed
    moreover have "same_book s t" using ih(2) dr(5) by (simp add: same_book_def bj_frame_def)
    moreover have "dealer t = dealer s @ c # cs" using ih(6) by simp
    ultimately show ?thesis using ih by (intro conjI exI[of _ "c # cs"]) simp_all
  qed
qed

lemma dealer_play_returns:
  "closing shoe s \<Longrightarrow> \<exists>t. dealer_play shoe s = Ok t"
proof (induction shoe s rule: dealer_play.induct)
  case (1 shoe s)
  show ?case
  proof (cases "17 \<le> best_total (value_of (dealer s))")
    case True
    then show ?thesis by (simp add: dealer_play.simps)
  next
    case False
    have ok: "shoe_ok shoe" "cards_ok shoe s" using "1.prems" by (simp_all add: closing_def)
    have "shoe_index s < 312" using hands_room[of shoe s] "1.prems" by (simp add: closing_def)
    then obtain c u where d: "draw shoe s = Ok (c, u)"
      using ok cards_ok_bounds(2)[OF ok] by (simp add: draw_Ok shoe_ok_def)
    have "closing shoe (u\<lparr>dealer := dealer u @ [c]\<rparr>)" by (rule dealer_draw_closing[OF "1.prems" d False])
    from "1.IH"[OF False d refl this] show ?thesis
      using False d by (subst dealer_play.simps) simp
  qed
qed

lemma find_Active: "find (\<lambda>h. h_status h = Active) hs = None \<longleftrightarrow> active_count hs = 0"
  by (auto simp: find_None_iff active_count_0)


subsection \<open>Every step keeps the invariant\<close>

lemma mid_of_inv: "bj_inv shoe s \<Longrightarrow> phase s = PlayerTurn \<Longrightarrow> mid shoe s"
  by (auto simp: bj_inv_def mid_def bj_money_def turn_ok_def split: option.splits)

lemma bj_advance_inv:
  assumes m: "mid shoe s" and v: "bj_version s = 1 + int (length (actions s))"
    and n: "int (length (actions s)) + int (active_count (hands s)) \<le> shoe_index s - 3"
    and a: "advance shoe s = Ok t"
  shows "bj_inv shoe t \<and> bj_frame s t \<and> actions t = actions s \<and> total_stake t = total_stake s \<and>
    map h_stake (hands t) = map h_stake (hands s) \<and> last_action t = last_action s \<and>
    auto_resolve_at t = auto_resolve_at s \<and> active_count (hands t) = active_count (hands s) \<and>
    bj_version t = bj_version s \<and>
    map (\<lambda>h. (h_id h, h_status h)) (hands t) = map (\<lambda>h. (h_id h, h_status h)) (hands s)"
proof (cases "find (\<lambda>h. h_status h = Active) (hands s)")
  case (Some h)
  then have t: "t = s\<lparr>active_hand := h_id h\<rparr>" using a by (simp add: advance_def)
  have "bj_inv shoe t"
    using m v n Some unfolding bj_inv_def t
    by (auto simp: mid_def wager_ok_def cards_ok_def bj_money_def turn_ok_def)
  then show ?thesis by (simp add: t bj_frame_def)
next
  case None
  let ?r = "s\<lparr>active_hand := '''', dealer_revealed := True\<rparr>"
  have c: "closing shoe ?r"
    using m None by (auto simp: mid_def closing_def wager_ok_def cards_ok_def find_Active)
  obtain u where u: "u = ?r \<or> dealer_play shoe ?r = Ok u" and t: "t = bj_settle u"
    using a None by (auto simp: advance_def Let_def res_simps split: if_splits)
  have cu: "closing shoe u" "same_book ?r u" "hands u = hands s" "shoe_index s \<le> shoe_index u"
    using u c dealer_play_closing[OF _ c, of u] by (auto simp: same_book_def bj_frame_def)
  have "bj_inv shoe t"
    unfolding t by (rule closing_settle[OF cu(1)]) (use cu(2,4) v n None in \<open>auto simp: same_book_def find_Active\<close>)
  moreover have "bj_frame s t"
    using cu(2) bj_settle_simps(11)[of u] unfolding t by (simp add: same_book_def bj_frame_def)
  moreover have "last_action (bj_settle u) = last_action u" "auto_resolve_at (bj_settle u) = auto_resolve_at u"
    by (simp_all add: bj_settle_def Let_def)
  ultimately show ?thesis
    using cu(2,3) by (simp add: t same_book_def o_def)
qed

lemma bj_apply_Ok:
  assumes "bj_apply shoe a av now sys s = Ok (t, x)"
  obtains i u where "active_index s = Some i" "phase s = PlayerTurn" "a_hand a = active_hand s"
    "act_on shoe a av i s = Ok (u, x)" "advance shoe (book a x now sys u) = Ok t"
    "a_type a \<in> {Hit, Stand, Double, Split, SystemAutoStand}" "sys = (a_type a = SystemAutoStand)"
    "\<forall>r\<in>set (actions s). a_id (ar_action r) \<noteq> a_id a" "now \<noteq> 0" "last_action s \<le> now"
    "sys \<Longrightarrow> auto_resolve_at s \<le> now"
  using assms
  by (auto simp: bj_apply_def res_simps list_ex_iff not_less split: if_splits option.splits)

lemma book_simps [simp]:
  "hands (book a x now sys s) = hands s" "shoe_index (book a x now sys s) = shoe_index s"
  "dealt (book a x now sys s) = dealt s" "dealer (book a x now sys s) = dealer s" "wager (book a x now sys s) = wager s"
  "phase (book a x now sys s) = phase s" "dealer_revealed (book a x now sys s) = dealer_revealed s"
  "total_stake (book a x now sys s) = total_stake s + x" "bj_version (book a x now sys s) = bj_version s + 1"
  "actions (book a x now sys s) = actions s @ [\<lparr>ar_action = a, ar_sequence = int (length (actions s)) + 1, ar_at = now, ar_stake = x\<rparr>]"
  "bj_frame s (book a x now sys s)" "active_hand (book a x now sys s) = active_hand s"
  by (simp_all add: book_def Let_def bj_frame_def)

lemma mid_book: "mid shoe (s\<lparr>total_stake := total_stake s + x\<rparr>) \<Longrightarrow> mid shoe (book a x now sys s)"
  by (simp add: mid_def wager_ok_def cards_ok_def)

theorem bj_apply_inv:
  assumes i: "bj_inv shoe s" and a: "bj_apply shoe a av now sys s = Ok (t, x)"
  shows "bj_inv shoe t \<and> bj_frame s t \<and> x \<in> {0, wager s} \<and> total_stake t = total_stake s + x \<and>
    actions t = actions s @ [\<lparr>ar_action = a, ar_sequence = int (length (actions s)) + 1, ar_at = now, ar_stake = x\<rparr>]
    \<and> sys = (a_type a = SystemAutoStand)"
proof -
  obtain k u where *: "active_index s = Some k" "phase s = PlayerTurn" "act_on shoe a av k s = Ok (u, x)"
    "advance shoe (book a x now sys u) = Ok t" "a_type a \<in> {Hit, Stand, Double, Split, SystemAutoStand}"
    "sys = (a_type a = SystemAutoStand)"
    using a by (rule bj_apply_Ok)
  note m = mid_of_inv[OF i *(2)]
  note am = act_on_mid[OF m *(1,3,5)]
  have mb: "mid shoe (book a x now sys u)" using am by (intro mid_book) simp
  have same: "actions u = actions s" "bj_version u = bj_version s" "bj_frame s u" "total_stake u = total_stake s"
    using am by (auto simp: same_book_def)
  have inv: "bj_version s = 1 + int (length (actions s))"
    "int (length (actions s)) + int (active_count (hands s)) \<le> shoe_index s - 3"
    using i by (auto simp: bj_inv_def)
  have c: "int (active_count (hands u)) + 1 \<le> int (active_count (hands s)) + (shoe_index u - shoe_index s)"
    using am by simp
  have ver: "bj_version (book a x now sys u) = 1 + int (length (actions (book a x now sys u)))"
    using same inv(1) by simp
  have cnt: "int (length (actions (book a x now sys u))) + int (active_count (hands (book a x now sys u)))
      \<le> shoe_index (book a x now sys u) - 3"
    using same(1) inv(2) c by simp
  note adv = bj_advance_inv[OF mb ver cnt *(4)]
  then have "bj_frame s t" using bj_frame_trans[OF same(3) bj_frame_trans[OF book_simps(11)]] by blast
  then show ?thesis using adv am same *(6) by simp
qed


subsection \<open>A new round\<close>

definition shoe_card :: "nat list \<Rightarrow> nat \<Rightarrow> bj_card" where
  "shoe_card shoe i = \<lparr>c_shoe_index = int i, c_instance = shoe ! i\<rparr>"

lemma deal_four_eq:
  assumes "length shoe = 312"
  shows "deal_four shoe [0, 1, 2, 3] (fresh_round hash w hid now) = (fresh_round hash w hid now)
    \<lparr>shoe_index := 4, dealt := [shoe_card shoe 0, shoe_card shoe 1, shoe_card shoe 2, shoe_card shoe 3],
     dealer := [shoe_card shoe 1, shoe_card shoe 3],
     hands := [(first_hand hid w)\<lparr>h_cards := [shoe_card shoe 0, shoe_card shoe 2]\<rparr>]\<rparr>"
  using assms by (simp add: draw_any_def draw_def fresh_round_def first_hand_def Let_def shoe_card_def)

lemma drawn_4: "drawn shoe 4 = [shoe_card shoe 0, shoe_card shoe 1, shoe_card shoe 2, shoe_card shoe 3]"
  by (simp add: drawn_def shoe_card_def eval_nat_numeral)

lemma bj_new_inv:
  assumes n: "bj_new sha shoe w hid now = Ok s" and len: "length shoe = 312"
  shows "bj_inv shoe s \<and> wager s = w \<and> initial_hand s = hid \<and> created_at s = now \<and> actions s = [] \<and>
    shoe_hash sha shoe = Ok (hash_of_shoe s) \<and> fair_return s = 0"
proof -
  obtain hash where hash: "shoe_hash sha shoe = Ok hash"
    and w: "10 * units_per_chip \<le> w" "w mod units_per_chip = 0" "w \<le> max_int64 div 16" "hid \<noteq> ''''"
    using n by (auto simp: bj_new_def res_simps not_less split: if_splits)
  have ok: "shoe_ok shoe" using shoe_hash_Ok[OF len] hash by blast
  define h0 where "h0 = revalue ((first_hand hid w)\<lparr>h_cards := [shoe_card shoe 0, shoe_card shoe 2]\<rparr>)"
  define nat' where "nat' = (best_total (h_value h0) = 21)"
  define h where "h = h0\<lparr>h_natural := nat', h_status := (if nat' then NaturalComplete else h_status h0)\<rparr>"
  define d where "d = (fresh_round hash w hid now)
    \<lparr>shoe_index := 4, dealt := [shoe_card shoe 0, shoe_card shoe 1, shoe_card shoe 2, shoe_card shoe 3],
     dealer := [shoe_card shoe 1, shoe_card shoe 3],
     hands := [(first_hand hid w)\<lparr>h_cards := [shoe_card shoe 0, shoe_card shoe 2]\<rparr>]\<rparr>"
  have h: "h_cards h = [shoe_card shoe 0, shoe_card shoe 2]" "h_stake h = w" "h_id h = hid" "h_index h = 0"
    "h_value h = value_of (h_cards h)" "h_natural h = nat'" "h_status h = (if nat' then NaturalComplete else Active)"
    by (simp_all add: h_def h0_def first_hand_def)
  have hok: "hand_ok w h" "hand_ok w (h\<lparr>h_status := Stood\<rparr>) \<or> nat'"
    using hard_two[of "shoe_card shoe 0" "shoe_card shoe 2"] h by (auto simp: hand_ok_def)
  have s: "s = (if best_total (value_of [shoe_card shoe 1, shoe_card shoe 3]) = 21 \<or> nat'
      then bj_settle (d\<lparr>hands := [if nat' then h else h\<lparr>h_status := Stood\<rparr>]\<rparr>)
      else d\<lparr>hands := [h], active_hand := hid, last_action := now, auto_resolve_at := now + day\<rparr>)"
    using n w unfolding bj_new_def Let_def hash bindr.simps deal_four_eq[OF len]
    by (auto simp: h_def h0_def nat'_def d_def first_hand_def split: if_splits)
  have co: "cards_ok shoe (d\<lparr>hands := [g]\<rparr>)" if "h_cards g = h_cards h" for g
    unfolding cards_ok_def by (rule exI[of _ 4]) (simp add: d_def drawn_4 that h add_mset_commute)
  have wk: "wager_ok d" using w by (simp add: wager_ok_def d_def fresh_round_def)
  show ?thesis
  proof (cases "best_total (value_of [shoe_card shoe 1, shoe_card shoe 3]) = 21 \<or> nat'")
    case True
    define g where "g = (if nat' then h else h\<lparr>h_status := Stood\<rparr>)"
    have g: "h_cards g = h_cards h" "hand_ok w g" "h_stake g = w" "h_index g = 0" "h_status g \<noteq> Active"
      using h hok by (auto simp: g_def)
    have "closing shoe (d\<lparr>hands := [g]\<rparr>)"
      using ok co[OF g(1)] wk g by (simp add: closing_def wager_ok_def d_def fresh_round_def order_ok_def)
    then have "bj_inv shoe (bj_settle (d\<lparr>hands := [g]\<rparr>))"
      by (rule closing_settle) (simp_all add: d_def fresh_round_def)
    moreover have "bj_frame (d\<lparr>hands := [g]\<rparr>) (bj_settle (d\<lparr>hands := [g]\<rparr>))" by simp
    ultimately show ?thesis using s True hash by (simp add: g_def bj_frame_def) (simp add: d_def fresh_round_def)
  next
    case False
    then have s': "s = d\<lparr>hands := [h], active_hand := hid, last_action := now, auto_resolve_at := now + day\<rparr>"
      using s by simp
    have "cards_ok shoe s" using co[of h] by (simp add: s' cards_ok_def)
    then have "bj_inv shoe s"
      using ok wk hok(1) h False unfolding bj_inv_def
      by (simp add: s' wager_ok_def order_ok_def bj_money_def turn_ok_def d_def fresh_round_def)
    then show ?thesis using hash by (simp add: s' d_def fresh_round_def)
  qed
qed

subsection \<open>Reachable rounds and their replay\<close>

inductive bj_reach :: "(byte list \<Rightarrow> byte list) \<Rightarrow> nat list \<Rightarrow> bj_state \<Rightarrow> bool" for sha shoe where
  start: "bj_new sha shoe w hid now = Ok s \<Longrightarrow> bj_reach sha shoe s"
| step: "bj_reach sha shoe s \<Longrightarrow> bj_apply shoe a av now sys s = Ok (t, x) \<Longrightarrow> av \<le> max_int64 \<Longrightarrow> bj_reach sha shoe t"

inductive_cases bj_reach_cases: "bj_reach sha shoe s"

lemma bj_reach_inv:
  assumes "length shoe = 312" "bj_reach sha shoe s"
  shows "bj_inv shoe s \<and> shoe_hash sha shoe = Ok (hash_of_shoe s)"
  using assms(2)
proof induction
  case (start w hid now s)
  then show ?case using bj_new_inv[OF _ assms(1)] by blast
next
  case (step s a av now sys t x)
  then show ?case using bj_apply_inv[of shoe s a av now sys t x] by (simp add: bj_frame_def)
qed

lemma act_on_more: "act_on shoe a av i s = Ok r \<Longrightarrow> av \<le> av' \<Longrightarrow> act_on shoe a av' i s = Ok r"
  by (auto simp: act_on_def act_double_def act_split_def Let_def split: bj_action_type.splits if_splits)

lemma bj_apply_more: "bj_apply shoe a av now sys s = Ok r \<Longrightarrow> av \<le> av' \<Longrightarrow> bj_apply shoe a av' now sys s = Ok r"
  by (auto simp: bj_apply_def res_simps split: if_splits option.splits dest!: act_on_more[of _ _ av _ _ _ av'])

lemma bj_replay_snoc:
  "bj_replay shoe (rs @ [r]) s = bindr (bj_replay shoe rs s) (bj_replay shoe [r])"
proof (induction rs arbitrary: s)
  case (Cons q rs)
  then show ?case
    by (cases "bj_apply shoe (ar_action q) max_int64 (ar_at q) (a_type (ar_action q) = SystemAutoStand) s") auto
qed (cases "bj_replay shoe [r] s", auto)

lemma bj_reach_replay:
  assumes "length shoe = 312" "bj_reach sha shoe s"
  shows "bindr (bj_new sha shoe (wager s) (initial_hand s) (created_at s)) (bj_replay shoe (actions s)) = Ok s"
  using assms(2)
proof induction
  case (start w hid now s)
  then show ?case using bj_new_inv[OF start assms(1)] by simp
next
  case (step s a av now sys t x)
  have inv: "bj_inv shoe s" using bj_reach_inv[OF assms(1) step.hyps(1)] by blast
  note ap = bj_apply_inv[OF inv step.hyps(2)]
  have "bj_apply shoe a max_int64 now (a_type a = SystemAutoStand) s = Ok (t, x)"
    using bj_apply_more[OF step.hyps(2,3)] ap by simp
  then have one: "bj_replay shoe [\<lparr>ar_action = a, ar_sequence = q, ar_at = now, ar_stake = x\<rparr>] s = Ok t" for q
    by simp
  obtain n where n: "bj_new sha shoe (wager s) (initial_hand s) (created_at s) = Ok n" "bj_replay shoe (actions s) n = Ok s"
    using step.IH by (auto simp: res_simps)
  show ?case using ap n one by (simp add: bj_frame_def bj_replay_snoc)
qed

theorem bj_reach_verifies:
  assumes "length shoe = 312" "bj_reach sha shoe s"
  shows "verify_recovery sha s shoe = Ok ()"
proof -
  note inv = bj_reach_inv[OF assms]
  have "length (actions s) \<le> 320" using inv shoe_room[of shoe s] by (auto simp: bj_inv_def)
  then show ?thesis using inv bj_reach_replay[OF assms] by (simp add: verify_recovery_def)
qed


subsection \<open>Legal actions succeed\<close>

lemma advance_returns: "mid shoe s \<Longrightarrow> \<exists>t. advance shoe s = Ok t"
proof (cases "find (\<lambda>h. h_status h = Active) (hands s)")
  case None
  assume m: "mid shoe s"
  let ?r = "s\<lparr>active_hand := '''', dealer_revealed := True\<rparr>"
  have "closing shoe ?r"
    using m None by (auto simp: mid_def closing_def wager_ok_def cards_ok_def find_Active)
  then show ?thesis using dealer_play_returns[of shoe ?r] None by (auto simp: advance_def Let_def)
qed (simp add: advance_def)

lemma draw_room: "shoe_ok shoe \<Longrightarrow> cards_ok shoe s \<Longrightarrow> shoe_index s < 312 \<Longrightarrow> \<exists>c t. draw shoe s = Ok (c, t)"
  using cards_ok_bounds(2)[of shoe s] by (auto simp: draw_Ok shoe_ok_def)

lemma act_on_returns:
  assumes m: "mid shoe s" and i: "active_index s = Some i" and l: "a_type a \<in> set (bj_legal s av)"
    and new: "a_type a = Split \<Longrightarrow> a_new_hand a \<noteq> '''' \<and> (\<forall>h\<in>set (hands s). h_id h \<noteq> a_new_hand a)"
  shows "\<exists>r. act_on shoe a av i s = Ok r"
proof -
  obtain L h R where hs: "hands s = L @ h # R" "i = length L" "h_status h = Active"
    using active_index_split[OF i] by metis
  have at: "hands s ! i = h" by (simp add: hs)
  have ok: "shoe_ok shoe" "cards_ok shoe s" using m by (simp_all add: mid_def)
  have idx: "shoe_index s \<le> 86" using hands_room[OF ok] m by (simp add: mid_def)
  obtain c u where d: "draw shoe s = Ok (c, u)" using draw_room[OF ok] idx by auto
  have lg: "a_type a \<in> {Hit, Stand} \<or> length (h_cards h) = 2 \<and> \<not> h_split_aces h \<and> h_stake h \<le> av \<and>
      (a_type a = Double \<or> a_type a = Split \<and> length (hands s) < 4 \<and>
        point (c_instance (h_cards h ! 0)) = point (c_instance (h_cards h ! 1)))"
    using l m i by (auto simp: bj_legal_def at mid_def max_hands_def Let_def split: if_splits)
  show ?thesis
  proof (cases "a_type a = Split")
    case True
    have o: "order_ok (L @ h # R)" "length (L @ h # R) < 4" using m lg True hs(1) by (auto simp: mid_def)
    have mi: "split_index i s = (h_index h + (case R of [] \<Rightarrow> 8 | r # _ \<Rightarrow> h_index r)) div 2"
      by (cases R) (simp_all add: split_index_def hs nth_append)
    have "h_index h < split_index i s"
      using order_ok_insert(2)[OF o refl mi, of h "h\<lparr>h_index := split_index i s\<rparr>"] by simp
    moreover obtain rc v where "draw shoe u = Ok (rc, v)"
    proof -
      have "0 \<le> shoe_index u" "shoe_index u < 312"
        using d idx by (auto simp: draw_Ok)
      then show ?thesis using that ok(1) by (auto simp: draw_Ok shoe_ok_def)
    qed
    ultimately show ?thesis
      using True lg new d by (auto simp: act_on_def act_split_def at max_hands_def list_ex_iff Let_def)
  next
    case False
    then show ?thesis using lg d by (auto simp: act_on_def act_hit_def act_stand_def act_double_def at Let_def)
  qed
qed

theorem legal_action_succeeds:
  assumes i: "bj_inv shoe s" and l: "a_type a \<in> set (bj_legal s av)"
    and req: "a_version a = bj_version s" "a_hand a = active_hand s" "a_id a \<noteq> ''''"
      "\<forall>r\<in>set (actions s). a_id (ar_action r) \<noteq> a_id a" "now \<noteq> 0" "last_action s \<le> now"
    and new: "a_type a = Split \<Longrightarrow> a_new_hand a \<noteq> '''' \<and> (\<forall>h\<in>set (hands s). h_id h \<noteq> a_new_hand a)"
  shows "\<exists>t x. bj_apply shoe a av now False s = Ok (t, x)"
proof -
  obtain k where k: "active_index s = Some k" "phase s = PlayerTurn"
    using l by (cases "active_index s") (auto simp: bj_legal_def split: if_splits)
  have ty: "a_type a \<in> {Hit, Stand, Double, Split}"
    using l by (auto simp: bj_legal_def Let_def split: option.splits if_splits)
  note m = mid_of_inv[OF i k(2)]
  obtain u x where u: "act_on shoe a av k s = Ok (u, x)" using act_on_returns[OF m k(1) l new] by auto
  have "mid shoe (u\<lparr>total_stake := total_stake u + x\<rparr>)" using act_on_mid[OF m k(1) u] ty by auto
  then have "mid shoe (book a x now False u)" by (rule mid_book)
  then obtain t where "advance shoe (book a x now False u) = Ok t" using advance_returns by blast
  then show ?thesis
    using k u ty req by (auto simp: bj_apply_def list_ex_iff)
qed

subsection \<open>Automatic resolution\<close>

lemma turn_active:
  assumes "bj_inv shoe s" "phase s = PlayerTurn"
  shows "\<exists>i. active_index s = Some i" "0 < active_count (hands s)" "last_action s = last_action s"
proof -
  obtain h where h: "find (\<lambda>h. h_status h = Active) (hands s) = Some h" "active_hand s = h_id h"
    using assms by (auto simp: bj_inv_def turn_ok_def split: option.splits)
  note mem = find_Some_mem[OF h(1)]
  then obtain j where j: "j < length (hands s)" "hands s ! j = h" by (auto simp: in_set_conv_nth)
  have "find (\<lambda>i. h_id (hands s ! i) = active_hand s \<and> h_status (hands s ! i) = Active) [0..<length (hands s)] \<noteq> None"
    using j mem h(2) by (auto simp: find_None_iff intro!: bexI[of _ j])
  then show "\<exists>i. active_index s = Some i" by (simp add: active_index_def)
  show "0 < active_count (hands s)" using mem by (auto simp: active_count_def filter_empty_conv)
qed simp

lemma auto_step:
  assumes i: "bj_inv shoe s" and p: "phase s = PlayerTurn"
    and now: "now \<noteq> 0" "last_action s \<le> now" "auto_resolve_at s \<le> now"
    and n: "n \<noteq> ''''" "\<forall>r\<in>set (actions s). a_id (ar_action r) \<noteq> n"
  obtains t where "bj_apply shoe \<lparr>a_id = n, a_version = bj_version s, a_hand = active_hand s,
      a_type = SystemAutoStand, a_new_hand = ''''\<rparr> 0 now True s = Ok (t, 0)"
    "last_action t = last_action s" "auto_resolve_at t = auto_resolve_at s"
    "Suc (active_count (hands t)) = active_count (hands s)" "bj_inv shoe t" "total_stake t = total_stake s"
    "map a_id (map ar_action (actions t)) = map a_id (map ar_action (actions s)) @ [n]"
    "map (\<lambda>h. (h_id h, h_status h)) (hands t)
      = map (\<lambda>h. (h_id h, if h_id h = active_hand s then Stood else h_status h)) (hands s)"
proof -
  let ?a = "\<lparr>a_id = n, a_version = bj_version s, a_hand = active_hand s, a_type = SystemAutoStand, a_new_hand = ''''\<rparr>"
  obtain k where k: "active_index s = Some k" using turn_active[OF i p] by blast
  obtain L h R where hs: "hands s = L @ h # R" "k = length L" "h_status h = Active" "h_id h = active_hand s"
    using active_index_split[OF k] by metis
  define u where "u = put_hand k ((hands s ! k)\<lparr>h_status := Stood\<rparr>) s"
  have u: "act_on shoe ?a 0 k s = Ok (u, 0)" by (simp add: act_on_def act_stand_def u_def)
  have hu: "hands u = L @ h\<lparr>h_status := Stood\<rparr> # R" by (simp add: u_def put_hand_def hs)
  note m = mid_of_inv[OF i p]
  have am: "mid shoe (u\<lparr>total_stake := total_stake u + 0\<rparr>)" "same_book s u" "shoe_index u = shoe_index s"
    using act_on_mid[OF m k u] by (auto simp: u_def put_hand_def)
  have mb: "mid shoe (book ?a 0 now True u)" using am(1) by (rule mid_book)
  obtain t where t: "advance shoe (book ?a 0 now True u) = Ok t" using advance_returns[OF mb] by blast
  have ap: "bj_apply shoe ?a 0 now True s = Ok (t, 0)"
    using k u t p now n by (auto simp: bj_apply_def list_ex_iff)
  have inv: "bj_version s = 1 + int (length (actions s))"
    "int (length (actions s)) + int (active_count (hands s)) \<le> shoe_index s - 3"
    using i by (auto simp: bj_inv_def)
  have cu: "Suc (active_count (hands u)) = active_count (hands s)" using hs(3) by (simp add: hu hs(1))
  have ver: "bj_version (book ?a 0 now True u) = 1 + int (length (actions (book ?a 0 now True u)))"
    using am(2) inv(1) by (simp add: same_book_def)
  have cnt: "int (length (actions (book ?a 0 now True u))) + int (active_count (hands (book ?a 0 now True u)))
      \<le> shoe_index (book ?a 0 now True u) - 3"
    using am(2,3) inv(2) cu by (simp add: same_book_def)
  note adv = bj_advance_inv[OF mb ver cnt t]
  have l: "last_action (book ?a 0 now True u) = last_action s" "auto_resolve_at (book ?a 0 now True u) = auto_resolve_at s"
    using am(2) by (simp_all add: book_def same_book_def)
  have d: "distinct (map h_id (L @ h # R))" using i hs(1) by (simp add: bj_inv_def)
  have "map (\<lambda>h. (h_id h, h_status h)) (hands t) = map (\<lambda>h. (h_id h, h_status h)) (hands u)" using adv by simp
  moreover have "map (\<lambda>g. (h_id g, if h_id g = active_hand s then Stood else h_status g)) (hands s)
     = map (\<lambda>h. (h_id h, h_status h)) (hands u)"
    unfolding hu hs(1) hs(4)[symmetric] using d by (auto simp: image_iff)
  moreover note ap2 = bj_apply_inv[OF i ap]
  ultimately show ?thesis
    by (intro that[OF ap]) (use adv l cu ap2 in simp_all)
qed

lemma auto_loop_settles:
  assumes ids: "\<And>h. \<exists>n. ids h = Ok n \<and> n \<noteq> ''''" "\<And>h g n. ids h = Ok n \<Longrightarrow> ids g = Ok n \<Longrightarrow> h = g"
    and now: "now \<noteq> 0"
  shows "bj_inv shoe s \<Longrightarrow> last_action s \<le> now \<Longrightarrow> auto_resolve_at s \<le> now \<Longrightarrow>
    (\<forall>x\<in>set (map a_id (map ar_action (actions s))). \<forall>h\<in>set (hands s). h_status h = Active \<longrightarrow> ids (h_id h) \<noteq> Ok x) \<Longrightarrow>
    active_count (hands s) \<le> fuel \<Longrightarrow>
    \<exists>t. auto_loop fuel shoe now ids s = Ok t \<and> phase t = BjSettled \<and> total_stake t = total_stake s \<and>
      last_action t = last_action s \<and> bj_inv shoe t"
proof (induction fuel arbitrary: s)
  case 0
  then have "phase s \<noteq> PlayerTurn" using turn_active(2)[of shoe s] by auto
  then show ?case using 0 by (cases "phase s") (auto)
next
  case (Suc fuel)
  show ?case
  proof (cases "phase s = PlayerTurn")
    case False
    then show ?thesis using Suc.prems by (cases "phase s") auto
  next
    case True
    obtain k where k: "active_index s = Some k" using turn_active[OF Suc.prems(1) True] by blast
    obtain L h R where hs: "hands s = L @ h # R" "h_status h = Active" "h_id h = active_hand s"
      using active_index_split[OF k] by metis
    obtain n where n: "ids (active_hand s) = Ok n" "n \<noteq> ''''" using ids(1) by blast
    have fresh: "\<forall>r\<in>set (actions s). a_id (ar_action r) \<noteq> n"
      using Suc.prems(4) hs n(1) by (auto simp: hs(1))
    obtain t where t: "bj_apply shoe \<lparr>a_id = n, a_version = bj_version s, a_hand = active_hand s,
        a_type = SystemAutoStand, a_new_hand = ''''\<rparr> 0 now True s = Ok (t, 0)"
      "last_action t = last_action s" "auto_resolve_at t = auto_resolve_at s"
      "Suc (active_count (hands t)) = active_count (hands s)" "bj_inv shoe t" "total_stake t = total_stake s"
      "map a_id (map ar_action (actions t)) = map a_id (map ar_action (actions s)) @ [n]"
      "map (\<lambda>h. (h_id h, h_status h)) (hands t)
        = map (\<lambda>h. (h_id h, if h_id h = active_hand s then Stood else h_status h)) (hands s)"
      by (rule auto_step[OF Suc.prems(1) True now Suc.prems(2,3) n(2) fresh])
    have old: "\<exists>g\<in>set (hands s). h_id g = h_id h' \<and> h_status g = Active \<and> h_id h' \<noteq> active_hand s"
      if "h' \<in> set (hands t)" "h_status h' = Active" for h'
    proof -
      have "(h_id h', h_status h') \<in> set (map (\<lambda>h. (h_id h, h_status h)) (hands t))" using that(1) by auto
      then show ?thesis unfolding t(8) using that(2) by (auto split: if_splits)
    qed
    have "\<forall>x\<in>set (map a_id (map ar_action (actions t))). \<forall>h'\<in>set (hands t). h_status h' = Active \<longrightarrow> ids (h_id h') \<noteq> Ok x"
      unfolding t(7) using old Suc.prems(4) ids(2)[OF n(1)] by (auto) (metis, metis)
    then have "\<exists>v. auto_loop fuel shoe now ids t = Ok v \<and> phase v = BjSettled \<and> total_stake v = total_stake t \<and>
      last_action v = last_action t \<and> bj_inv shoe v"
      using Suc.IH[of t] t(2-5) Suc.prems(2,3,5) by simp
    then show ?thesis using True n(1) t(1,2,6) by simp
  qed
qed

subsection \<open>Payouts\<close>

lemma settle_hand_payout:
  assumes "hand_ok w h" "0 \<le> w"
  shows "0 \<le> h_payout (settle_hand d n h) \<and> h_payout (settle_hand d n h) \<le> 4 * w"
  using assms by (auto simp: settle_hand_def hand_ok_def Let_def)

lemma payout_bound:
  assumes i: "bj_inv shoe s" and p: "phase s = BjSettled"
  shows "0 \<le> total_payout s" "total_payout s \<le> 16 * wager s" "total_payout s \<le> max_int64"
    "total_stake s \<le> 8 * wager s" "net_change s = total_payout s - total_stake s"
proof -
  have w: "0 \<le> wager s" "16 * wager s \<le> max_int64" using i by (auto simp: bj_inv_def wager_ok_def units_per_chip_def)
  obtain d n where hs: "hands s = map (settle_hand d n) (hands s)" and tp: "total_payout s = sum_list (map h_payout (hands s))"
    and nt: "net_change s = total_payout s - total_stake s" and ts: "total_stake s = sum_list (map h_stake (hands s))"
    using i p by (auto simp: bj_inv_def bj_money_def)
  have pay: "0 \<le> h_payout h \<and> h_payout h \<le> 4 * wager s \<and> h_stake h \<le> 2 * wager s" if h: "h \<in> set (hands s)" for h
  proof -
    have ok: "hand_ok (wager s) h" using i h by (simp add: bj_inv_def)
    obtain g where g: "g \<in> set (hands s)" "h = settle_hand d n g" using h hs by (metis imageE set_map)
    then have "h = settle_hand d n h" by simp
    then show ?thesis using settle_hand_payout[OF ok w(1), of d n] ok w(1) by (auto simp: hand_ok_def)
  qed
  have bound: "0 \<le> sum_list (map h_payout hs) \<and> sum_list (map h_payout hs) \<le> 4 * wager s * int (length hs) \<and>
      sum_list (map h_stake hs) \<le> 2 * wager s * int (length hs)"
    if "set hs \<subseteq> set (hands s)" for hs
    using that
  proof (induction hs)
    case (Cons a hs)
    then have "0 \<le> h_payout a \<and> h_payout a \<le> 4 * wager s \<and> h_stake a \<le> 2 * wager s" by (intro pay) simp
    then show ?case using Cons by (simp add: algebra_simps)
  qed simp
  have len: "int (length (hands s)) \<le> 4" using i by (simp add: bj_inv_def order_ok_def)
  have "4 * wager s * int (length (hands s)) \<le> 4 * wager s * 4" "2 * wager s * int (length (hands s)) \<le> 2 * wager s * 4"
    using len w(1) by (intro mult_left_mono; simp)+
  then show "0 \<le> total_payout s" "total_payout s \<le> 16 * wager s" "total_stake s \<le> 8 * wager s"
    "net_change s = total_payout s - total_stake s" "total_payout s \<le> max_int64"
    using bound[of "hands s"] w(2) tp ts nt by simp_all
qed

subsection \<open>The public view\<close>

text \<open>Two rounds that differ only in cards the player has not seen: the hole card, the shoe position
  record and the shoe's hash.\<close>

definition same_seen :: "bj_state \<Rightarrow> bj_state \<Rightarrow> bool" where
  "same_seen s t \<longleftrightarrow> (\<exists>d h x g. t = s\<lparr>dealt := d, hash_of_shoe := h, shoe_index := x, dealer := take 1 (dealer s) @ g\<rparr>)"

lemma public_view_hides_hole:
  assumes "same_seen s t" "\<not> dealer_revealed s" "dealer s \<noteq> []"
  shows "public_view t av = public_view s av" "length (pv_dealer (public_view s av)) = 1"
proof -
  obtain d h x g where t: "t = s\<lparr>dealt := d, hash_of_shoe := h, shoe_index := x, dealer := take 1 (dealer s) @ g\<rparr>"
    using assms(1) by (auto simp: same_seen_def)
  have "take 1 (take 1 (dealer s) @ g) = take 1 (dealer s)" using assms(3) by (cases "dealer s") auto
  moreover have "active_index t = active_index s" "hands t = hands s" "phase t = phase s"
    by (simp_all add: active_index_def t)
  then have "bj_legal t av = bj_legal s av" by (simp only: bj_legal_def)
  ultimately show "public_view t av = public_view s av"
    using assms(2) by (simp add: public_view_def) (simp add: t)
  show "length (pv_dealer (public_view s av)) = 1" using assms(2,3) by (cases "dealer s") (auto simp: public_view_def)
qed


subsection \<open>Readings of the invariant\<close>

lemma bj_inv_cards:
  assumes "bj_inv shoe s"
  shows "\<exists>n. shoe_index s = int n \<and>
    mset (map c_instance (dealer s @ concat (map h_cards (hands s)))) = mset (take n shoe) \<and>
    distinct (map c_instance (dealer s @ concat (map h_cards (hands s))))"
proof -
  obtain n where n: "shoe_index s = int n" "n \<le> 312" "mset (dealer s) + mset (concat (map h_cards (hands s))) = mset (drawn shoe n)"
    and shoe: "length shoe = 312" "distinct shoe"
    using assms by (auto simp: bj_inv_def cards_ok_def shoe_ok_def)
  have "map c_instance (drawn shoe n) = take n shoe"
    using n(2) shoe(1) by (intro nth_equalityI) (simp_all add: drawn_def)
  then have m: "mset (map c_instance (dealer s @ concat (map h_cards (hands s)))) = mset (take n shoe)"
    using arg_cong[OF n(3), of "image_mset c_instance"] by (simp flip: mset_map add: image_mset_union[symmetric])
  moreover have "distinct (map c_instance (dealer s @ concat (map h_cards (hands s))))"
    using mset_eq_imp_distinct_iff[OF m] shoe(2) by (simp add: distinct_take)
  ultimately show ?thesis using n(1) by blast
qed

lemma bj_inv_phase:
  assumes "bj_inv shoe s"
  shows "phase s = PlayerTurn \<Longrightarrow> (\<exists>h\<in>set (hands s). h_status h = Active \<and> h_id h = active_hand s) \<and> \<not> dealer_revealed s"
    "phase s = BjSettled \<Longrightarrow> (\<forall>h\<in>set (hands s). h_status h \<noteq> Active) \<and> dealer_revealed s"
  using assms find_Some_mem[of "\<lambda>h. h_status h = Active" "hands s"]
  by (auto simp: bj_inv_def turn_ok_def find_None_all split: option.splits)

lemma act_on_cost: "act_on shoe a av i s = Ok (t, x) \<Longrightarrow> x \<le> max 0 av"
  by (auto simp: act_on_def act_hit_def act_stand_def act_double_def act_split_def Let_def res_simps
      split: bj_action_type.splits if_splits)

lemma bj_apply_cost: "bj_apply shoe a av now sys s = Ok (t, x) \<Longrightarrow> x \<le> max 0 av"
  by (elim bj_apply_Ok) (rule act_on_cost)

end
