(* ===== verification/Slot.thy ===== *)
theory Slot
  imports Prelude
begin

text \<open>
  The ten-line slot machine (\<open>src/internal/games/slot/slot.go\<close>): the three frozen
  configurations, the drawing of the five stops, and the settlement of a grid. The Go type
  \<open>Symbol\<close> is a string with eight constants; the empty symbol of a line that pays nothing is
  \<open>None\<close>. Amounts are \<open>int\<close> with the overflow tests of the source written out.
\<close>

datatype slot_symbol = L1 | L2 | L3 | M1 | M2 | H1 | H2 | W

datatype 'e slot_error =
  BadSlotWager | SlotOverflow | MissingSampler | SampleOutOfRange | InvalidStop nat | SampleFailed 'e

record slot_config =
  strip_version :: string
  payline_version :: string
  paytable_version :: string
  slot_symbols :: "slot_symbol list"
  reel_strips :: "slot_symbol list list"
  paylines :: "nat list list"
  paytable :: "int list list"

definition max_round_line_multiplier :: int where "max_round_line_multiplier = 5164"

definition frequent_max_round_line_multiplier :: int where "frequent_max_round_line_multiplier = 5201"

definition symbols :: "slot_symbol list" where "symbols = [L1, L2, L3, M1, M2, H1, H2, W]"

definition frozen_config :: slot_config where
  "frozen_config = \<lparr>
     strip_version = ''slot-strips-v1'', payline_version = ''slot-paylines-v1'',
     paytable_version = ''slot-paytable-v1'', slot_symbols = symbols,
     reel_strips = [
       [L3, L2, L3, M1, L2, L1, L3, L2, M2, H2, L1, M2, L3, M1, H1, L2, L1, H1, L1, M2, L2, L3, L1, M1, W, L1, L2, L1, L2, H2, M1, L1],
       [L2, M2, L1, L2, L3, L2, W, L1, H1, L1, M1, L3, M1, H2, M1, L2, L1, L3, L1, L3, H1, L1, H2, L3, L1, L2, M2, L2, L1, L2, M1, M2],
       [L2, L3, L1, M2, L1, H1, L3, L1, M1, M2, L2, M1, L3, L1, L2, L3, H2, L2, L1, M1, L2, L1, H1, L2, L1, H2, M1, L3, L1, L2, M2, W],
       [M1, L3, W, L2, L1, H2, L2, M2, L1, M1, L1, L3, H1, L2, L3, M2, H1, L1, L2, L3, M1, L1, L3, L1, L2, H2, L1, M1, M2, L2, L1, L2],
       [L1, H2, L2, L1, L3, L2, L3, L1, H1, L2, L1, L2, M1, L1, W, H2, M1, L2, H1, L1, L2, L1, M1, M2, L3, M1, L2, L1, M2, L3, M2, L3]],
     paylines = [[1, 1, 1, 1, 1], [0, 0, 0, 0, 0], [2, 2, 2, 2, 2], [0, 1, 2, 1, 0], [2, 1, 0, 1, 2],
       [0, 0, 1, 2, 2], [2, 2, 1, 0, 0], [1, 0, 0, 0, 1], [1, 2, 2, 2, 1], [2, 1, 1, 1, 0]],
     paytable = [[4, 15, 50], [8, 25, 80], [10, 40, 150], [15, 60, 250], [25, 100, 500], [50, 250, 1000],
       [100, 500, 2500], [125, 1000, 5000]]\<rparr>"

definition set_cell :: "nat \<Rightarrow> nat \<Rightarrow> 'a \<Rightarrow> 'a list list \<Rightarrow> 'a list list" where
  "set_cell i j x t = t[i := (t ! i)[j := x]]"

definition fair_config :: slot_config where
  "fair_config = frozen_config\<lparr>paytable_version := ''slot-paytable-v2'',
     paytable := set_cell 6 0 115 (set_cell 2 2 175 (set_cell 1 0 10 (paytable frozen_config)))\<rparr>"

definition frequent_stops :: "nat list list" where
  "frequent_stops = [[1, 12, 29], [0, 11, 13], [0, 15, 25], [1, 5, 13], [15, 17, 24]]"

definition frequent_config :: slot_config where
  "frequent_config = fair_config\<lparr>strip_version := ''slot-strips-v2'', paytable_version := ''slot-paytable-v3'',
     reel_strips := fold (\<lambda>(reel, stops). fold (\<lambda>stop. set_cell reel stop L1) stops)
       (List.enumerate 0 frequent_stops) (reel_strips fair_config),
     paytable := set_cell 2 0 11 (set_cell 1 0 11 ((paytable fair_config)[0 := [11, 12, 15]]))\<rparr>"

record line_result =
  lr_number :: nat
  lr_symbol :: "slot_symbol option"
  lr_match :: nat
  lr_multiplier :: int
  lr_stake :: int
  lr_payout :: int

record slot_result =
  sr_stops :: "int list"
  sr_grid :: "slot_symbol list list"
  sr_lines :: "line_result list"
  sr_wager :: int
  sr_stake :: int
  sr_payout :: int
  sr_net :: int
  sr_class :: string
  sr_detail :: string

definition no_line :: line_result where
  "no_line = \<lparr>lr_number = 0, lr_symbol = None, lr_match = 0, lr_multiplier = 0, lr_stake = 0, lr_payout = 0\<rparr>"

definition validate_wager :: "int \<Rightarrow> slot_config \<Rightarrow> ('e slot_error, unit) res" where
  "validate_wager wager c =
     (if wager < 10 * units_per_chip \<or> wager mod units_per_chip \<noteq> 0 then Fail BadSlotWager
      else let maximum = (if paytable_version c = ''slot-paytable-v3'' then frequent_max_round_line_multiplier
                          else max_round_line_multiplier)
           in if wager div 10 > max_int64 div maximum then Fail SlotOverflow else Ok ())"

subsection \<open>A line\<close>

text \<open>The counting loop of \<open>evaluateLine\<close>: the leading cells that show the symbol or a Wild.\<close>

definition run_of :: "slot_symbol \<Rightarrow> slot_symbol list \<Rightarrow> nat" where
  "run_of s vs = length (takeWhile (\<lambda>v. \<not> (v \<noteq> s \<and> (v \<noteq> W \<or> s = W))) vs)"

definition better_line :: "slot_config \<Rightarrow> slot_symbol list \<Rightarrow> nat \<Rightarrow> line_result \<Rightarrow> line_result" where
  "better_line c vs i best =
     (let s = slot_symbols c ! i; n = run_of s vs in
      if n < 3 then best
      else let m = paytable c ! i ! (n - 3) in
        if m > lr_multiplier best
        then no_line\<lparr>lr_symbol := Some s, lr_match := n, lr_multiplier := m\<rparr> else best)"

definition evaluate_line :: "slot_symbol list \<Rightarrow> slot_config \<Rightarrow> line_result" where
  "evaluate_line vs c = fold (better_line c vs) [0..<length (slot_symbols c)] no_line"

subsection \<open>A round\<close>

definition reel_window :: "slot_symbol list \<Rightarrow> nat \<Rightarrow> slot_symbol list" where
  "reel_window strip stop = map (\<lambda>row. strip ! ((stop + row + 31) mod 32)) [0, 1, 2]"

fun slot_grid :: "nat \<Rightarrow> slot_symbol list list \<Rightarrow> int list \<Rightarrow> ('e slot_error, slot_symbol list list) res" where
  "slot_grid reel (strip # strips) (stop # stops) =
     (if stop < 0 \<or> stop \<ge> 32 then Fail (InvalidStop (reel + 1))
      else bindr (slot_grid (reel + 1) strips stops) (\<lambda>g. Ok (reel_window strip (nat stop) # g)))"
| "slot_grid reel _ _ = Ok []"

definition line_values :: "slot_symbol list list \<Rightarrow> nat list \<Rightarrow> slot_symbol list" where
  "line_values grid line = map2 (\<lambda>column row. column ! row) grid line"

fun pay_lines ::
  "slot_config \<Rightarrow> slot_symbol list list \<Rightarrow> int \<Rightarrow> nat \<Rightarrow> nat list list \<Rightarrow> int \<Rightarrow>
     ('e slot_error, line_result list \<times> int) res" where
  "pay_lines c grid stake i [] paid = Ok ([], paid)"
| "pay_lines c grid stake i (line # rest) paid =
     (let r = (evaluate_line (line_values grid line) c)\<lparr>lr_number := i + 1, lr_stake := stake\<rparr> in
      if lr_multiplier r > 0 \<and> stake > max_int64 div lr_multiplier r then Fail SlotOverflow
      else let r = r\<lparr>lr_payout := stake * lr_multiplier r\<rparr> in
        if paid > max_int64 - lr_payout r then Fail SlotOverflow
        else bindr (pay_lines c grid stake (i + 1) rest (paid + lr_payout r)) (\<lambda>(rs, t). Ok (r # rs, t)))"

definition slot_class :: "int \<Rightarrow> int \<Rightarrow> string \<times> string" where
  "slot_class payout net =
     (if payout = 0 then (''LOSS'', ''NO_WIN'')
      else if net < 0 then (''LOSS'', ''PARTIAL_RETURN'')
      else if net = 0 then (''BREAK_EVEN'', ''BREAK_EVEN'')
      else (''WIN'', ''WIN''))"

definition resolve :: "int \<Rightarrow> int list \<Rightarrow> slot_config \<Rightarrow> ('e slot_error, slot_result) res" where
  "resolve wager stops c =
     bindr (validate_wager wager c) (\<lambda>_.
     bindr (slot_grid 0 (reel_strips c) stops) (\<lambda>grid.
     bindr (pay_lines c grid (wager div 10) 0 (paylines c) 0) (\<lambda>(rs, paid).
       Ok \<lparr>sr_stops = stops, sr_grid = grid, sr_lines = rs, sr_wager = wager, sr_stake = wager div 10,
           sr_payout = paid, sr_net = paid - wager, sr_class = fst (slot_class paid (paid - wager)),
           sr_detail = snd (slot_class paid (paid - wager))\<rparr>)))"

definition domains :: "string list" where
  "domains = [''slot:reel:1'', ''slot:reel:2'', ''slot:reel:3'', ''slot:reel:4'', ''slot:reel:5'']"

text \<open>The sampler is the caller's closure, with its state passed along; \<open>None\<close> is a nil closure.\<close>

fun draw_stops ::
  "('s \<Rightarrow> string \<Rightarrow> nat \<Rightarrow> ('e, nat \<times> 's) res) \<Rightarrow> string list \<Rightarrow> 's \<Rightarrow> ('e slot_error, int list \<times> 's) res" where
  "draw_stops sample [] s = Ok ([], s)"
| "draw_stops sample (d # ds) s =
     (case sample s d 32 of
        Fail e \<Rightarrow> Fail (SampleFailed e)
      | Hang \<Rightarrow> Hang
      | Ok (n, s) \<Rightarrow> if n \<ge> 32 then Fail SampleOutOfRange
                     else bindr (draw_stops sample ds s) (\<lambda>(ns, s). Ok (int n # ns, s)))"

definition spin ::
  "int \<Rightarrow> ('s \<Rightarrow> string \<Rightarrow> nat \<Rightarrow> ('e, nat \<times> 's) res) option \<Rightarrow> 's \<Rightarrow> slot_config \<Rightarrow>
     ('e slot_error, slot_result \<times> 's) res" where
  "spin wager sample s c =
     bindr (validate_wager wager c) (\<lambda>_.
       case sample of
         None \<Rightarrow> Fail MissingSampler
       | Some f \<Rightarrow> bindr (draw_stops f domains s) (\<lambda>(stops, s). bindr (resolve wager stops c) (\<lambda>r. Ok (r, s))))"

end
