(* ===== verification/SlotFacts.thy ===== *)
theory SlotFacts
  imports Slot
begin

text \<open>
  The slot machine's arithmetic: what a line pays, the largest multiplier a round can reach
  with each of the three configurations (so that the overflow tests behind an accepted wager
  never fire), and the exact return over all \<open>32 ^ 5\<close> stops.
\<close>

subsection \<open>What a line pays\<close>

definition cand :: "slot_config \<Rightarrow> nat \<Rightarrow> nat \<Rightarrow> int" where
  "cand c i n = (if n < 3 then 0 else paytable c ! i ! (n - 3))"

definition line_mult :: "slot_config \<Rightarrow> slot_symbol list \<Rightarrow> int" where
  "line_mult c vs = fold (\<lambda>i. max (cand c i (run_of (slot_symbols c ! i) vs))) [0..<length (slot_symbols c)] 0"

lemma fold_max_ge: "(m :: int) \<le> fold (\<lambda>i. max (f i)) is m"
proof (induction "is" arbitrary: m)
  case (Cons a "is")
  show ?case using Cons[of "max (f a) m"] by simp
qed simp

lemma fold_max_mem: "i \<in> set is \<Longrightarrow> (f i :: int) \<le> fold (\<lambda>i. max (f i)) is m"
  by (induction "is" arbitrary: m) (auto intro: order_trans[OF _ fold_max_ge])

lemma fold_max_le: "fold (\<lambda>i. max (f i)) is m \<le> (b :: int) \<longleftrightarrow> m \<le> b \<and> (\<forall>i\<in>set is. f i \<le> b)"
  by (induction "is" arbitrary: m) auto

lemma fold_max_mono: "(\<And>i. i \<in> set is \<Longrightarrow> (f i :: int) \<le> g i) \<Longrightarrow>
    fold (\<lambda>i. max (f i)) is m \<le> fold (\<lambda>i. max (g i)) is m"
  unfolding fold_max_le by (auto intro: fold_max_ge order_trans[OF _ fold_max_mem])

lemma better_line_fold:
  "0 \<le> lr_multiplier b \<Longrightarrow>
   lr_multiplier (fold (better_line c vs) is b) =
     fold (\<lambda>i. max (cand c i (run_of (slot_symbols c ! i) vs))) is (lr_multiplier b)"
proof (induction "is" arbitrary: b)
  case (Cons i "is")
  have "lr_multiplier (better_line c vs i b) =
      max (cand c i (run_of (slot_symbols c ! i) vs)) (lr_multiplier b)"
    using Cons.prems by (simp add: better_line_def cand_def no_line_def Let_def)
  moreover have "0 \<le> max (cand c i (run_of (slot_symbols c ! i) vs)) (lr_multiplier b)"
    using Cons.prems by simp
  ultimately show ?case using Cons.IH[of "better_line c vs i b"] by simp
qed simp

lemma evaluate_line_mult: "lr_multiplier (evaluate_line vs c) = line_mult c vs"
  by (simp add: evaluate_line_def line_mult_def better_line_fold no_line_def)

lemma line_mult_nonneg: "0 \<le> line_mult c vs"
  unfolding line_mult_def by (rule fold_max_ge)

subsection \<open>Paying the lines\<close>

definition round_mult :: "slot_config \<Rightarrow> slot_symbol list list \<Rightarrow> int" where
  "round_mult c grid = (\<Sum>line\<leftarrow>paylines c. line_mult c (line_values grid line))"

lemma pay_lines_Ok:
  assumes "0 \<le> stake" "0 \<le> paid" "stake * (\<Sum>line\<leftarrow>ls. line_mult c (line_values grid line)) \<le> max_int64 - paid"
  shows "\<exists>rs. (pay_lines c grid stake i ls paid :: ('e slot_error, _) res) =
      Ok (rs, paid + stake * (\<Sum>line\<leftarrow>ls. line_mult c (line_values grid line))) \<and> length rs = length ls \<and>
      (\<forall>k<length ls. lr_number (rs ! k) = i + k + 1 \<and> lr_payout (rs ! k) = stake * line_mult c (line_values grid (ls ! k)))"
  using assms(2,3)
proof (induction ls arbitrary: paid i)
  case (Cons line ls)
  define m where "m = line_mult c (line_values grid line)"
  define t where "t = (\<Sum>line\<leftarrow>ls. line_mult c (line_values grid line))"
  have m0: "0 \<le> m" by (simp add: m_def line_mult_nonneg)
  have "0 \<le> t" unfolding t_def by (intro sum_list_nonneg) (auto simp: line_mult_nonneg)
  then have t0: "0 \<le> stake * t" using assms(1) by simp
  have lim: "stake * m + stake * t \<le> max_int64 - paid"
    using Cons.prems(2) by (simp add: m_def t_def distrib_left)
  have no1: "\<not> (0 < m \<and> max_int64 div m < stake)"
  proof
    assume h: "0 < m \<and> max_int64 div m < stake"
    have "stake * m \<le> max_int64" using lim t0 Cons.prems(1) by linarith
    from zdiv_mono1[OF this, of m] show False using h by simp
  qed
  have no2: "\<not> max_int64 - stake * m < paid" using lim t0 by linarith
  have "0 \<le> paid + stake * m" "stake * t \<le> max_int64 - (paid + stake * m)"
    using m0 assms(1) Cons.prems(1) lim by auto
  from Cons.IH[OF this[unfolded t_def], of "i + 1"] obtain rs where
    rs: "(pay_lines c grid stake (i + 1) ls (paid + stake * m) :: ('e slot_error, _) res) = Ok (rs, paid + stake * m + stake * t)"
      "length rs = length ls"
      "\<forall>k<length ls. lr_number (rs ! k) = i + 1 + k + 1 \<and> lr_payout (rs ! k) = stake * line_mult c (line_values grid (ls ! k))"
    unfolding t_def by blast
  show ?case using no1 no2 rs
    by (auto simp: Let_def evaluate_line_mult m_def t_def distrib_left nth_Cons split: nat.splits)
qed simp


subsection \<open>A line as a state machine\<close>

text \<open>
  Read cell by cell, a line is all Wild so far, on the run of one symbol behind \<open>w\<close> leading
  Wilds, or decided. What the machine says at the end is what \<open>evaluateLine\<close> pays, for every
  table in which longer runs pay no less and no symbol beats the Wild (\<open>line_table\<close>); what it
  says earlier, with open runs completed to five, bounds every completion.
\<close>

datatype line_state = AllWild nat | Run slot_symbol nat nat | Decided int

definition pays :: "(slot_symbol \<Rightarrow> int \<times> int \<times> int) \<Rightarrow> slot_symbol \<Rightarrow> nat \<Rightarrow> int" where
  "pays row s n = (case row s of (a, b, d) \<Rightarrow> if n < 3 then 0 else if n = 3 then a else if n = 4 then b else d)"

fun line_step :: "(slot_symbol \<Rightarrow> int \<times> int \<times> int) \<Rightarrow> line_state \<Rightarrow> slot_symbol \<Rightarrow> line_state" where
  "line_step row (AllWild w) x = (if x = W then AllWild (Suc w) else Run x (Suc w) w)"
| "line_step row (Run s n w) x =
     (if x = s \<or> x = W then Run s (Suc n) w else Decided (max (pays row s n) (pays row W w)))"
| "line_step row (Decided v) x = Decided v"

fun line_value :: "(slot_symbol \<Rightarrow> int \<times> int \<times> int) \<Rightarrow> line_state \<Rightarrow> int" where
  "line_value row (AllWild w) = pays row W w"
| "line_value row (Run s n w) = max (pays row s n) (pays row W w)"
| "line_value row (Decided v) = v"

fun line_top :: "(slot_symbol \<Rightarrow> int \<times> int \<times> int) \<Rightarrow> line_state \<Rightarrow> int" where
  "line_top row (AllWild w) = pays row W 5"
| "line_top row (Run s n w) = max (pays row s 5) (pays row W w)"
| "line_top row (Decided v) = v"

lemma length_takeWhile_append:
  "length (takeWhile P (p @ r)) =
     (if length (takeWhile P p) = length p then length p + length (takeWhile P r) else length (takeWhile P p))"
  by (induction p) auto

lemma run_of_append: "run_of s (p @ r) = (if run_of s p = length p then length p + run_of s r else run_of s p)"
  unfolding run_of_def by (rule length_takeWhile_append)

lemma run_of_snoc:
  "run_of s (p @ [x]) = (if run_of s p = length p \<and> (x = s \<or> x = W) then Suc (run_of s p) else run_of s p)"
  by (auto simp: run_of_append) (auto simp: run_of_def)

lemma run_of_le: "run_of s p \<le> length p"
  by (simp add: run_of_def length_takeWhile_le)

locale line_table =
  fixes c :: slot_config and row :: "slot_symbol \<Rightarrow> int \<times> int \<times> int"
  assumes symbols_all: "slot_symbols c = symbols"
    and table_row: "i < 8 \<Longrightarrow> row (symbols ! i) = (paytable c ! i ! 0, paytable c ! i ! 1, paytable c ! i ! 2)"
    and row_mono: "row s = (a, b, d) \<Longrightarrow> 0 \<le> a \<and> a \<le> b \<and> b \<le> d"
    and wild_best: "row s = (a, b, d) \<Longrightarrow> row W = (a', b', d') \<Longrightarrow> a \<le> a' \<and> b \<le> b' \<and> d \<le> d'"
begin

lemma pays_mono: "m \<le> n \<Longrightarrow> pays row s m \<le> pays row s n"
  using row_mono[of s] by (cases "row s") (auto simp: pays_def)

lemma pays_nonneg: "0 \<le> pays row s n"
  using pays_mono[of 0 n s] by (cases "row s") (simp add: pays_def)

lemma pays_wild: "pays row s n \<le> pays row W n"
  using wild_best[of s] by (cases "row s"; cases "row W") (auto simp: pays_def)

lemma cand_pays: "i < 8 \<Longrightarrow> n \<le> 5 \<Longrightarrow> cand c i n = pays row (symbols ! i) n"
proof -
  assume "i < 8" "n \<le> 5"
  moreover have "n < 3 \<or> n = 3 \<or> n = 4 \<or> n = 5" using \<open>n \<le> 5\<close> by linarith
  ultimately show ?thesis by (auto simp: cand_def pays_def table_row)
qed

lemma symbol_listed: "\<exists>i<8. symbols ! i = s"
proof -
  have "s \<in> set symbols" by (cases s) (auto simp: symbols_def)
  moreover have "length symbols = 8" by (simp add: symbols_def)
  ultimately show ?thesis by (metis in_set_conv_nth)
qed

lemma line_mult_char:
  assumes "length p \<le> 5"
  shows "(\<forall>s. pays row s (run_of s p) \<le> line_mult c p) \<and> (\<exists>s. line_mult c p = pays row s (run_of s p))"
proof -
  let ?f = "\<lambda>i. cand c i (run_of (slot_symbols c ! i) p)"
  have len: "length (slot_symbols c) = 8" by (simp add: symbols_all symbols_def)
  have f: "?f i = pays row (symbols ! i) (run_of (symbols ! i) p)" if "i < 8" for i
    using that run_of_le[of "symbols ! i" p] assms by (simp add: cand_pays symbols_all)
  have up: "pays row s (run_of s p) \<le> line_mult c p" for s
  proof -
    obtain i where i: "i < 8" "symbols ! i = s" using symbol_listed by blast
    then have "?f i \<le> line_mult c p" unfolding line_mult_def len by (intro fold_max_mem) auto
    then show ?thesis using f i by simp
  qed
  have "\<not> (\<forall>s. pays row s (run_of s p) < line_mult c p)"
  proof
    assume lt: "\<forall>s. pays row s (run_of s p) < line_mult c p"
    have "line_mult c p \<le> line_mult c p - 1"
      unfolding line_mult_def len fold_max_le
    proof (intro conjI ballI)
      show "0 \<le> fold (\<lambda>i. max (?f i)) [0..<8] 0 - 1"
        using lt[rule_format, of W] pays_nonneg[of W "run_of W p"] unfolding line_mult_def len by simp
      fix i assume "i \<in> set [0..<8::nat]"
      then show "?f i \<le> fold (\<lambda>i. max (?f i)) [0..<8] 0 - 1"
        using f[of i] lt[rule_format, of "symbols ! i"] unfolding line_mult_def len by auto
    qed
    then show False by simp
  qed
  then show ?thesis using up by (metis order_le_imp_less_or_eq)
qed

lemma machine:
  "case foldl (line_step row) (AllWild 0) p of
     AllWild n \<Rightarrow> n = length p \<and> (\<forall>t. run_of t p = n)
   | Run s n w \<Rightarrow> s \<noteq> W \<and> n = length p \<and> run_of s p = n \<and> w < n \<and> (\<forall>t. t \<noteq> s \<longrightarrow> run_of t p = w)
   | Decided v \<Rightarrow> (\<forall>t. run_of t p < length p \<and> pays row t (run_of t p) \<le> v) \<and> (\<exists>t. pays row t (run_of t p) = v)"
proof (induction p rule: rev_induct)
  case Nil
  then show ?case by (simp add: run_of_def)
next
  case (snoc x p)
  show ?case
  proof (cases "foldl (line_step row) (AllWild 0) p")
    case (AllWild n)
    then show ?thesis using snoc by (auto simp: run_of_snoc)
  next
    case (Run s n w)
    then have h: "s \<noteq> W" "n = length p" "run_of s p = n" "w < n" "\<And>t. t \<noteq> s \<Longrightarrow> run_of t p = w"
      using snoc by auto
    show ?thesis
    proof (cases "x = s \<or> x = W")
      case True
      then show ?thesis using h Run by (auto simp: run_of_snoc)
    next
      case False
      then have r: "run_of t (p @ [x]) = (if t = s then n else w)" for t using h by (auto simp: run_of_snoc)
      have le: "pays row t (run_of t (p @ [x])) \<le> max (pays row s n) (pays row W w)" for t
        using pays_wild[of t w] by (auto simp: r)
      have ex: "\<exists>t. pays row t (run_of t (p @ [x])) = max (pays row s n) (pays row W w)"
        using h(1) r by (metis max_def)
      show ?thesis using False Run le ex h(2,4) by (auto simp: r)
    qed
  next
    case (Decided v)
    then have "\<forall>t. run_of t p \<noteq> length p" using snoc by (auto simp: less_le)
    then have "\<forall>t. run_of t (p @ [x]) = run_of t p" by (simp add: run_of_snoc)
    then show ?thesis using Decided snoc by (auto simp: less_Suc_eq)
  qed
qed

text \<open>At its end the machine says what the line pays.\<close>

lemma line_value_mult:
  assumes "length p \<le> 5"
  shows "line_value row (foldl (line_step row) (AllWild 0) p) = line_mult c p"
proof -
  obtain s where s: "line_mult c p = pays row s (run_of s p)" and
    up: "\<And>t. pays row t (run_of t p) \<le> line_mult c p"
    using line_mult_char[OF assms] by blast
  show ?thesis
  proof (cases "foldl (line_step row) (AllWild 0) p")
    case (AllWild n)
    then show ?thesis using machine[of p] s up[of W] pays_wild[of s n] by auto
  next
    case (Run u n w)
    then have h: "u \<noteq> W" "run_of u p = n" "\<And>t. t \<noteq> u \<Longrightarrow> run_of t p = w" using machine[of p] by auto
    show ?thesis using Run s up[of u] up[of W] pays_wild[of s w] h by (cases "s = u") auto
  next
    case (Decided v)
    then show ?thesis using machine[of p] s up by (auto intro: order.antisym)
  qed
qed

text \<open>Before, it bounds what any completion pays.\<close>

lemma line_top_bound:
  assumes "length (p @ r) \<le> 5"
  shows "line_mult c (p @ r) \<le> line_top row (foldl (line_step row) (AllWild 0) p)"
proof -
  obtain s where s: "line_mult c (p @ r) = pays row s (run_of s (p @ r))"
    using line_mult_char[OF assms] by blast
  have five: "pays row s (run_of s (p @ r)) \<le> pays row s 5"
    using run_of_le[of s "p @ r"] assms by (intro pays_mono) simp
  show ?thesis
  proof (cases "foldl (line_step row) (AllWild 0) p")
    case (AllWild n)
    then show ?thesis using s five pays_wild[of s 5] by simp
  next
    case (Run u n w)
    then have h: "u \<noteq> W" "n = length p" "w < n" "\<And>t. t \<noteq> u \<Longrightarrow> run_of t p = w" using machine[of p] by auto
    show ?thesis using Run s five h(2,3) h(4)[of s] pays_wild[of s w]
      by (cases "s = u") (auto simp: run_of_append)
  next
    case (Decided v)
    then have "run_of s p < length p" "pays row s (run_of s p) \<le> v" using machine[of p] by auto
    then show ?thesis using Decided s by (auto simp: run_of_append)
  qed
qed

end


subsection \<open>The largest round\<close>

text \<open>
  A branch and bound over the reels: the lines advance together, and a branch is cut as soon as
  their optimistic values add up to at most the limit.
\<close>

definition advance_lines ::
  "(slot_symbol \<Rightarrow> int \<times> int \<times> int) \<Rightarrow> (line_state \<times> nat list) list \<Rightarrow> slot_symbol list \<Rightarrow>
     (line_state \<times> nat list) list" where
  "advance_lines row xs w = map (\<lambda>(st, rs). (line_step row st (w ! hd rs), tl rs)) xs"

fun bounded ::
  "(slot_symbol \<Rightarrow> int \<times> int \<times> int) \<Rightarrow> int \<Rightarrow> slot_symbol list list list \<Rightarrow> (line_state \<times> nat list) list \<Rightarrow> bool" where
  "bounded row lim [] xs = ((\<Sum>x\<leftarrow>xs. line_top row (fst x)) \<le> lim)"
| "bounded row lim (ws # wss) xs =
     ((\<Sum>x\<leftarrow>xs. line_top row (fst x)) \<le> lim \<or> list_all (\<lambda>w. bounded row lim wss (advance_lines row xs w)) ws)"

definition windows :: "slot_config \<Rightarrow> slot_symbol list list list" where
  "windows c = map (\<lambda>strip. map (reel_window strip) [0..<32]) (reel_strips c)"

definition lines_at ::
  "(slot_symbol \<Rightarrow> int \<times> int \<times> int) \<Rightarrow> nat list list \<Rightarrow> slot_symbol list list \<Rightarrow> (line_state \<times> nat list) list" where
  "lines_at row ls g = map (\<lambda>line. (foldl (line_step row) (AllWild 0) (line_values g line), drop (length g) line)) ls"

lemma zip_take_same: "zip xs (take (length xs) ys) = zip xs ys"
  by (induction xs arbitrary: ys) (auto simp: zip_Cons1 take_Cons split: list.splits)

lemma line_values_append:
  "line_values (g @ g') line = line_values g line @ line_values g' (drop (length g) line)"
  by (simp add: line_values_def zip_append1 zip_take_same)

lemma lines_at_snoc:
  assumes "\<forall>line\<in>set ls. length g < length line"
  shows "lines_at row ls (g @ [w]) = advance_lines row (lines_at row ls g) w"
  unfolding lines_at_def advance_lines_def
proof (simp, intro ballI conjI)
  fix line assume "line \<in> set ls"
  then obtain r rs where r: "drop (length g) line = r # rs" using assms by (cases "drop (length g) line") auto
  then show "foldl (line_step row) (AllWild 0) (line_values (g @ [w]) line) =
      line_step row (foldl (line_step row) (AllWild 0) (line_values g line)) (w ! hd (drop (length g) line))"
    by (simp add: line_values_append) (simp add: line_values_def)
  show "drop (Suc (length g)) line = tl (drop (length g) line)" by (simp add: drop_Suc drop_tl)
qed

context line_table
begin

lemma round_mult_le_top:
  assumes "\<forall>line\<in>set (paylines c). length line = 5"
  shows "round_mult c (g @ g') \<le> (\<Sum>x\<leftarrow>lines_at row (paylines c) g. line_top row (fst x))"
  unfolding round_mult_def lines_at_def map_map comp_def
proof (intro sum_list_mono)
  fix line assume "line \<in> set (paylines c)"
  then have "length (line_values (g @ g') line) \<le> 5" using assms by (auto simp: line_values_def)
  then show "line_mult c (line_values (g @ g') line) \<le>
      line_top row (fst (foldl (line_step row) (AllWild 0) (line_values g line), drop (length g) line))"
    using line_top_bound by (simp add: line_values_append)
qed

lemma bounded_sound:
  assumes "\<forall>line\<in>set (paylines c). length line = 5"
  shows "bounded row lim wss (lines_at row (paylines c) g) \<Longrightarrow> length g + length wss \<le> 5 \<Longrightarrow>
    list_all2 (\<lambda>w ws. w \<in> set ws) g' wss \<Longrightarrow> round_mult c (g @ g') \<le> lim"
proof (induction wss arbitrary: g g')
  case Nil
  then show ?case using round_mult_le_top[OF assms, of g "[]"] by simp
next
  case (Cons ws wss)
  then obtain w h where g': "g' = w # h" "w \<in> set ws" "list_all2 (\<lambda>w ws. w \<in> set ws) h wss"
    by (auto simp: list_all2_Cons2)
  show ?case
  proof (cases "(\<Sum>x\<leftarrow>lines_at row (paylines c) g. line_top row (fst x)) \<le> lim")
    case True
    then show ?thesis using round_mult_le_top[OF assms, of g g'] by linarith
  next
    case False
    then have "bounded row lim wss (advance_lines row (lines_at row (paylines c) g) w)"
      using Cons.prems(1) g'(2) by (simp add: list_all_iff)
    moreover have "\<forall>line\<in>set (paylines c). length g < length line" using assms Cons.prems(2) by simp
    ultimately have "bounded row lim wss (lines_at row (paylines c) (g @ [w]))" by (simp add: lines_at_snoc)
    from Cons.IH[OF this _ g'(3)] Cons.prems(2) g'(1) show ?thesis by simp
  qed
qed

end

subsection \<open>The three configurations\<close>

fun frozen_row :: "slot_symbol \<Rightarrow> int \<times> int \<times> int" where
  "frozen_row L1 = (4, 15, 50)" | "frozen_row L2 = (8, 25, 80)" | "frozen_row L3 = (10, 40, 150)"
| "frozen_row M1 = (15, 60, 250)" | "frozen_row M2 = (25, 100, 500)" | "frozen_row H1 = (50, 250, 1000)"
| "frozen_row H2 = (100, 500, 2500)" | "frozen_row W = (125, 1000, 5000)"

fun fair_row :: "slot_symbol \<Rightarrow> int \<times> int \<times> int" where
  "fair_row L1 = (4, 15, 50)" | "fair_row L2 = (10, 25, 80)" | "fair_row L3 = (10, 40, 175)"
| "fair_row M1 = (15, 60, 250)" | "fair_row M2 = (25, 100, 500)" | "fair_row H1 = (50, 250, 1000)"
| "fair_row H2 = (115, 500, 2500)" | "fair_row W = (125, 1000, 5000)"

fun frequent_row :: "slot_symbol \<Rightarrow> int \<times> int \<times> int" where
  "frequent_row L1 = (11, 12, 15)" | "frequent_row L2 = (11, 25, 80)" | "frequent_row L3 = (11, 40, 175)"
| "frequent_row M1 = (15, 60, 250)" | "frequent_row M2 = (25, 100, 500)" | "frequent_row H1 = (50, 250, 1000)"
| "frequent_row H2 = (115, 500, 2500)" | "frequent_row W = (125, 1000, 5000)"

lemmas config_defs = frequent_config_def fair_config_def frozen_config_def set_cell_def frequent_stops_def
  symbols_def

lemma less8: "i < 8 \<longleftrightarrow> i \<in> {0, 1, 2, 3, 4, 5, 6, 7 :: nat}"
  by auto

interpretation frozen: line_table frozen_config frozen_row
proof
  show "slot_symbols frozen_config = symbols" by (simp add: config_defs)
next
  fix i :: nat assume "i < 8"
  then show "frozen_row (symbols ! i) =
      (paytable frozen_config ! i ! 0, paytable frozen_config ! i ! 1, paytable frozen_config ! i ! 2)"
    unfolding less8 by (auto simp: config_defs)
next
  fix s a b d a' b' d' assume "frozen_row s = (a, b, d)"
  then show "0 \<le> a \<and> a \<le> b \<and> b \<le> d" by (cases s) auto
  assume "frozen_row s = (a, b, d)" "frozen_row W = (a', b', d')"
  then show "a \<le> a' \<and> b \<le> b' \<and> d \<le> d'" by (cases s) auto
qed

interpretation fair: line_table fair_config fair_row
proof
  show "slot_symbols fair_config = symbols" by (simp add: config_defs)
next
  fix i :: nat assume "i < 8"
  then show "fair_row (symbols ! i) =
      (paytable fair_config ! i ! 0, paytable fair_config ! i ! 1, paytable fair_config ! i ! 2)"
    unfolding less8 by (auto simp: config_defs)
next
  fix s a b d a' b' d' assume "fair_row s = (a, b, d)"
  then show "0 \<le> a \<and> a \<le> b \<and> b \<le> d" by (cases s) auto
  assume "fair_row s = (a, b, d)" "fair_row W = (a', b', d')"
  then show "a \<le> a' \<and> b \<le> b' \<and> d \<le> d'" by (cases s) auto
qed

interpretation frequent: line_table frequent_config frequent_row
proof
  show "slot_symbols frequent_config = symbols" by (simp add: config_defs)
next
  fix i :: nat assume "i < 8"
  then show "frequent_row (symbols ! i) =
      (paytable frequent_config ! i ! 0, paytable frequent_config ! i ! 1, paytable frequent_config ! i ! 2)"
    unfolding less8 by (auto simp: config_defs)
next
  fix s a b d a' b' d' assume "frequent_row s = (a, b, d)"
  then show "0 \<le> a \<and> a \<le> b \<and> b \<le> d" by (cases s) auto
  assume "frequent_row s = (a, b, d)" "frequent_row W = (a', b', d')"
  then show "a \<le> a' \<and> b \<le> b' \<and> d \<le> d'" by (cases s) auto
qed


text \<open>The three tables, the limit each ruleset checks wagers against.\<close>

definition slot_limit :: "slot_config \<Rightarrow> int" where
  "slot_limit c = (if paytable_version c = ''slot-paytable-v3'' then frequent_max_round_line_multiplier
     else max_round_line_multiplier)"

lemma limits: "slot_limit frozen_config = 5164" "slot_limit fair_config = 5164" "slot_limit frequent_config = 5201"
  by (simp_all add: slot_limit_def config_defs frequent_max_round_line_multiplier_def max_round_line_multiplier_def)

lemma frozen_bounded: "bounded frozen_row 5164 (windows frozen_config) (lines_at frozen_row (paylines frozen_config) [])"
  by code_simp

lemma fair_bounded: "bounded fair_row 5164 (windows fair_config) (lines_at fair_row (paylines fair_config) [])"
  by code_simp

lemma frequent_bounded:
  "bounded frequent_row 5201 (windows frequent_config) (lines_at frequent_row (paylines frequent_config) [])"
  by code_simp

definition slot_configs :: "slot_config set" where
  "slot_configs = {frozen_config, fair_config, frequent_config}"

lemma config_shape:
  assumes "c \<in> slot_configs"
  shows "length (paylines c) = 10" "\<forall>line\<in>set (paylines c). length line = 5 \<and> (\<forall>r\<in>set line. r < 3)"
    "length (reel_strips c) = 5" "\<forall>strip\<in>set (reel_strips c). length strip = 32"
  using assms by (auto simp: slot_configs_def config_defs)

lemma round_mult_bound:
  assumes "c \<in> slot_configs" "list_all2 (\<lambda>w ws. w \<in> set ws) grid (windows c)"
  shows "round_mult c grid \<le> slot_limit c"
proof -
  have len: "\<forall>line\<in>set (paylines c). length line = 5" "length (windows c) = 5"
    using config_shape[OF assms(1)] by (auto simp: windows_def)
  from assms(1) consider "c = frozen_config" | "c = fair_config" | "c = frequent_config"
    by (auto simp: slot_configs_def)
  then show ?thesis
  proof cases
    case 1
    show ?thesis using frozen.bounded_sound[OF _ frozen_bounded, of grid] len assms(2) limits(1) unfolding 1 by simp
  next
    case 2
    show ?thesis using fair.bounded_sound[OF _ fair_bounded, of grid] len assms(2) limits(2) unfolding 2 by simp
  next
    case 3
    show ?thesis using frequent.bounded_sound[OF _ frequent_bounded, of grid] len assms(2) limits(3) unfolding 3 by simp
  qed
qed

subsection \<open>Every validated round pays\<close>

definition stops_ok :: "int list \<Rightarrow> bool" where
  "stops_ok stops \<longleftrightarrow> length stops = 5 \<and> (\<forall>s\<in>set stops. 0 \<le> s \<and> s < 32)"

definition grid_of :: "slot_config \<Rightarrow> int list \<Rightarrow> slot_symbol list list" where
  "grid_of c stops = map2 (\<lambda>strip stop. reel_window strip (nat stop)) (reel_strips c) stops"

lemma slot_grid_Ok:
  assumes "length strips = length stops" "\<forall>s\<in>set stops. 0 \<le> s \<and> s < 32"
  shows "slot_grid reel strips stops = Ok (map2 (\<lambda>strip stop. reel_window strip (nat stop)) strips stops)"
  using assms by (induction strips stops arbitrary: reel rule: list_induct2) auto

lemma slot_grid_bad:
  assumes "s \<in> set stops" "s < 0 \<or> s \<ge> 32" "length strips = length stops"
  shows "\<exists>r. (slot_grid reel strips stops :: ('e slot_error, _) res) = Fail (InvalidStop r)"
  using assms(3,1,2)
proof (induction strips stops arbitrary: reel rule: list_induct2)
  case (Cons strip strips stop stops)
  show ?case
  proof (cases "stop < 0 \<or> stop \<ge> 32")
    case False
    then have "s \<in> set stops" using Cons.prems by auto
    then obtain r where "(slot_grid (reel + 1) strips stops :: ('e slot_error, _) res) = Fail (InvalidStop r)" using Cons by blast
    then show ?thesis using False by simp
  qed simp
qed simp

lemma grid_in_windows:
  assumes "c \<in> slot_configs" "stops_ok stops"
  shows "list_all2 (\<lambda>w ws. w \<in> set ws) (grid_of c stops) (windows c)"
proof -
  have "length strips = length stops \<Longrightarrow> \<forall>s\<in>set stops. 0 \<le> s \<and> s < 32 \<Longrightarrow>
      list_all2 (\<lambda>w ws. w \<in> set ws) (map2 (\<lambda>strip stop. reel_window strip (nat stop)) strips stops)
        (map (\<lambda>strip. map (reel_window strip) [0..<32]) strips)" for strips
    by (induction strips stops rule: list_induct2) auto
  then show ?thesis using config_shape(3)[OF assms(1)] assms(2) by (simp add: grid_of_def windows_def stops_ok_def)
qed

lemma validate_wager_Ok:
  "validate_wager w c = Ok u \<longleftrightarrow>
     10 * units_per_chip \<le> w \<and> w mod units_per_chip = 0 \<and> w div 10 \<le> max_int64 div slot_limit c"
  by (auto simp: validate_wager_def slot_limit_def Let_def)

lemma slot_limit_pos: "0 < slot_limit c"
  by (simp add: slot_limit_def frequent_max_round_line_multiplier_def max_round_line_multiplier_def)

lemma round_mult_nonneg: "0 \<le> round_mult c grid"
  unfolding round_mult_def by (intro sum_list_nonneg) (auto simp: line_mult_nonneg)

lemma resolve_returns:
  fixes stops :: "int list"
  assumes "c \<in> slot_configs" "validate_wager w c = (Ok () :: ('e slot_error, unit) res)" "stops_ok stops"
  obtains r where "resolve w stops c = (Ok r :: ('e slot_error, slot_result) res)"
    "sr_payout r = w div 10 * round_mult c (grid_of c stops)" "sr_payout r \<le> max_int64"
    "sr_stops r = stops" "sr_grid r = grid_of c stops" "sr_wager r = w" "sr_stake r = w div 10"
    "sr_net r = sr_payout r - w" "(sr_class r, sr_detail r) = slot_class (sr_payout r) (sr_net r)"
    "length (sr_lines r) = 10"
    "\<forall>k<10. lr_number (sr_lines r ! k) = k + 1 \<and>
       lr_payout (sr_lines r ! k) = w div 10 * line_mult c (line_values (grid_of c stops) (paylines c ! k))"
proof -
  have w: "10 * units_per_chip \<le> w" "w div 10 \<le> max_int64 div slot_limit c"
    using assms(2) by (auto simp: validate_wager_Ok)
  have stake: "0 \<le> w div 10" using w(1) by (simp add: units_per_chip_def)
  have "round_mult c (grid_of c stops) \<le> slot_limit c"
    by (rule round_mult_bound[OF assms(1) grid_in_windows[OF assms(1,3)]])
  then have "w div 10 * round_mult c (grid_of c stops) \<le> w div 10 * slot_limit c"
    using stake by (intro mult_left_mono)
  also have "\<dots> \<le> max_int64 div slot_limit c * slot_limit c"
    using w(2) slot_limit_pos[of c] by (intro mult_right_mono) auto
  also have "\<dots> \<le> max_int64"
    using slot_limit_pos[of c] by (metis le_add_same_cancel1 mod_int_pos_iff div_mult_mod_eq order_less_imp_le pos_mod_sign)
  finally have lim: "w div 10 * round_mult c (grid_of c stops) \<le> max_int64" .
  have g: "slot_grid 0 (reel_strips c) stops = (Ok (grid_of c stops) :: ('e slot_error, _) res)"
    using assms(3) config_shape(3)[OF assms(1)] by (simp add: slot_grid_Ok stops_ok_def grid_of_def)
  from pay_lines_Ok[OF stake, where paid = 0 and ls = "paylines c" and c = c and grid = "grid_of c stops"
      and i = 0 and 'e = 'e] lim obtain rs where
    rs: "(pay_lines c (grid_of c stops) (w div 10) 0 (paylines c) 0 :: ('e slot_error, _) res) =
        Ok (rs, w div 10 * round_mult c (grid_of c stops))" "length rs = 10"
      "\<forall>k<10. lr_number (rs ! k) = k + 1 \<and>
         lr_payout (rs ! k) = w div 10 * line_mult c (line_values (grid_of c stops) (paylines c ! k))"
    by (auto simp: round_mult_def config_shape(1)[OF assms(1)])
  show ?thesis
    by (rule that, simp add: resolve_def assms(2) g rs(1), insert lim rs(2,3), simp_all)
qed


subsection \<open>A spin\<close>

lemma draw_stops_Ok: "draw_stops f ds s = Ok (ns, t) \<Longrightarrow> length ns = length ds \<and> (\<forall>n\<in>set ns. 0 \<le> n \<and> n < 32)"
  by (induction ds arbitrary: s ns t) (fastforce simp: bindr_Ok_iff split: res.splits if_splits)+

lemma draw_stops_fail: "draw_stops f ds s = Fail e \<Longrightarrow> e = SampleOutOfRange \<or> (\<exists>x. e = SampleFailed x)"
  by (induction ds arbitrary: s e) (auto elim!: bindr.elims split: res.splits if_splits prod.splits)

lemma spin_resolves:
  assumes "c \<in> slot_configs" "validate_wager w c = (Ok () :: ('e slot_error, unit) res)"
  shows "(spin w (Some f) s c :: ('e slot_error, _) res) = Ok (r, t) \<Longrightarrow> stops_ok (sr_stops r) \<and> resolve w (sr_stops r) c = (Ok r :: ('e slot_error, _) res)"
    "(spin w (Some f) s c :: ('e slot_error, _) res) = Fail e \<Longrightarrow> e = SampleOutOfRange \<or> (\<exists>x. e = SampleFailed x)"
proof -
  have ok: "stops_ok ns" if "(draw_stops f domains s :: ('e slot_error, _) res) = Ok (ns, t)" for ns t
    using draw_stops_Ok[OF that] by (simp add: stops_ok_def domains_def)
  show "stops_ok (sr_stops r) \<and> resolve w (sr_stops r) c = (Ok r :: ('e slot_error, _) res)"
    if sp: "(spin w (Some f) s c :: ('e slot_error, _) res) = Ok (r, t)"
  proof -
    obtain ns where d: "(draw_stops f domains s :: ('e slot_error, _) res) = Ok (ns, t)"
      and r: "(resolve w ns c :: ('e slot_error, _) res) = Ok r"
      using sp assms(2) by (auto simp: spin_def bindr_Ok_iff)
    obtain q where "(resolve w ns c :: ('e slot_error, _) res) = Ok q" "sr_stops q = ns"
      using resolve_returns[OF assms ok[OF d]] by metis
    then show ?thesis using r ok[OF d] by simp
  qed
  show "e = SampleOutOfRange \<or> (\<exists>x. e = SampleFailed x)"
    if sp: "(spin w (Some f) s c :: ('e slot_error, _) res) = Fail e"
  proof (cases "(draw_stops f domains s :: ('e slot_error, _) res)")
    case (Ok nt)
    obtain ns t where nt: "nt = (ns, t)" by (cases nt)
    obtain q where "(resolve w ns c :: ('e slot_error, _) res) = Ok q"
      using resolve_returns[OF assms ok[OF Ok[unfolded nt]]] by metis
    then show ?thesis using sp assms(2) Ok nt by (simp add: spin_def)
  qed (use sp assms(2) in \<open>auto simp: spin_def dest: draw_stops_fail\<close>)
qed

end
