(* ===== verification/SlotReturn.thy ===== *)
theory SlotReturn
  imports SlotFacts
begin

text \<open>
  The exact return of the slot machine: what all \<open>32 ^ 5\<close> equally likely stops pay together,
  computed reel by reel from the counts of the symbols.
\<close>

subsection \<open>Counting instead of enumerating\<close>

fun expect :: "(slot_symbol \<Rightarrow> int \<times> int \<times> int) \<Rightarrow> (slot_symbol \<times> int) list list \<Rightarrow> line_state \<Rightarrow> int" where
  "expect row [] st = line_value row st"
| "expect row (cs # css) st =
     (case st of
        Decided v \<Rightarrow> v * prod_list (map (\<lambda>cs. \<Sum>(x, n)\<leftarrow>cs. n) (cs # css))
      | _ \<Rightarrow> \<Sum>(x, n)\<leftarrow>cs. n * expect row css (line_step row st x))"

definition counts :: "slot_symbol list \<Rightarrow> (slot_symbol \<times> int) list" where
  "counts strip = map (\<lambda>s. (s, int (count_list strip s))) symbols"

lemma sum_counts: "(\<Sum>x\<leftarrow>strip. (f x :: int)) = (\<Sum>(x, n)\<leftarrow>counts strip. n * f x)"
proof (induction strip)
  case (Cons y strip)
  show ?case using Cons by (cases y) (simp_all add: counts_def symbols_def algebra_simps)
qed (simp add: counts_def symbols_def)

lemma sum_counts_length: "(\<Sum>(x, n)\<leftarrow>counts strip. n) = int (length strip)"
  using sum_counts[of "\<lambda>_. 1" strip] by (simp add: sum_list_triv)

lemma length_product_lists: "int (length (product_lists xss)) = prod_list (map (int \<circ> length) xss)"
  by (induction xss) (simp_all add: length_concat comp_def sum_list_triv)

lemma sum_list_concat_map: "(\<Sum>y\<leftarrow>concat (map g xs). (f y :: int)) = (\<Sum>x\<leftarrow>xs. \<Sum>y\<leftarrow>g x. f y)"
  by (induction xs) auto

lemma sum_list_swap: "(\<Sum>x\<leftarrow>xs. \<Sum>y\<leftarrow>ys. (f x y :: int)) = (\<Sum>y\<leftarrow>ys. \<Sum>x\<leftarrow>xs. f x y)"
  by (induction xs) (simp_all add: sum_list_addf)

lemma sum_product_Cons:
  "(\<Sum>p\<leftarrow>product_lists (xs # xss). (f p :: int)) = (\<Sum>x\<leftarrow>xs. \<Sum>p\<leftarrow>product_lists xss. f (x # p))"
  by (simp add: sum_list_concat_map comp_def)

lemma foldl_Decided: "foldl (line_step row) (Decided v) p = Decided v"
  by (induction p) auto

lemma expect_sum:
  "expect row (map counts strips) st = (\<Sum>p\<leftarrow>product_lists strips. line_value row (foldl (line_step row) st p))"
proof (induction strips arbitrary: st)
  case (Cons strip strips)
  show ?case
  proof (cases "\<exists>v. st = Decided v")
    case True
    then obtain v where "st = Decided v" by blast
    then show ?thesis
      using length_product_lists[of "strip # strips"]
      by (simp add: foldl_Decided sum_list_triv sum_counts_length comp_def mult.commute del: product_lists.simps)
  next
    case False
    then have "expect row (map counts (strip # strips)) st =
        (\<Sum>(x, n)\<leftarrow>counts strip. n * expect row (map counts strips) (line_step row st x))"
      by (cases st) auto
    then show ?thesis unfolding sum_product_Cons Cons.IH by (simp add: sum_counts)
  qed
qed simp

text \<open>Turning every reel by one cell does not change what the stops add up to.\<close>

lemma sum_rotate:
  fixes h :: "nat \<Rightarrow> int"
  shows "(\<Sum>s\<leftarrow>[0..<32]. h ((s + k) mod 32)) = (\<Sum>s\<leftarrow>[0..<32]. h s)"
proof -
  have inj: "inj_on (\<lambda>s. (s + k) mod 32) {0..<32::nat}"
  proof (rule inj_onI)
    fix s t assume st: "s \<in> {0..<32}" "t \<in> {0..<32::nat}" "(s + k) mod 32 = (t + k) mod 32"
    then obtain q1 q2 where "s + k + 32 * q1 = t + k + 32 * q2" by (auto simp: nat_mod_eq_iff)
    then have "s + 32 * q1 = t + 32 * q2" by simp
    moreover have "s < 32" "t < 32" using st(1,2) by simp_all
    ultimately show "s = t" by (metis mod_less mod_mult_self2)
  qed
  then have "(\<lambda>s. (s + k) mod 32) ` {0..<32} = {0..<32::nat}"
    by (intro endo_inj_surj) auto
  then have "bij_betw (\<lambda>s. (s + k) mod 32) {0..<32::nat} {0..<32}"
    using inj by (simp add: bij_betw_def)
  then have "(\<Sum>s = 0..<32. h ((s + k) mod 32)) = (\<Sum>s = 0..<32. h s)"
    by (rule sum.reindex_bij_betw)
  then show ?thesis by (simp only: sum_list_distinct_conv_sum_set distinct_upt set_upt)
qed

lemma sum_strip:
  assumes "length strip = 32" "r < 3"
  shows "(\<Sum>s\<leftarrow>[0..<32]. (f (reel_window strip s ! r) :: int)) = (\<Sum>x\<leftarrow>strip. f x)"
proof -
  have w: "reel_window strip s ! r = strip ! ((s + (r + 31)) mod 32)" for s
    using assms(2) by (auto simp: reel_window_def less_Suc_eq numeral_3_eq_3 add.assoc nth_Cons split: nat.splits)
  have "(\<Sum>x\<leftarrow>strip. f x) = (\<Sum>s\<leftarrow>[0..<32]. f (strip ! s))"
  proof -
    have "(\<Sum>x\<leftarrow>map ((!) strip) [0..<length strip]. f x) = (\<Sum>s\<leftarrow>[0..<32]. f (strip ! s))"
      by (simp only: assms(1) map_map comp_def)
    then show ?thesis by (simp only: map_nth)
  qed
  then show ?thesis unfolding w using sum_rotate[of "\<lambda>s. f (strip ! s)" "r + 31"] by simp
qed

lemma sum_line:
  assumes "length line = length strips" "\<forall>r\<in>set line. r < 3" "\<forall>strip\<in>set strips. length strip = 32"
  shows "(\<Sum>stops\<leftarrow>product_lists (map (\<lambda>_. [0..<32]) strips). (f (line_values (map2 reel_window strips stops) line) :: int))
    = (\<Sum>p\<leftarrow>product_lists strips. f p)"
  using assms
proof (induction line strips arbitrary: f rule: list_induct2)
  case Nil
  then show ?case by (simp add: line_values_def)
next
  case (Cons r line strip strips)
  have IH: "(\<Sum>stops\<leftarrow>product_lists (map (\<lambda>_. [0..<32]) strips). f (x # line_values (map2 reel_window strips stops) line))
      = (\<Sum>p\<leftarrow>product_lists strips. f (x # p))" for x
    using Cons.IH[of "\<lambda>p. f (x # p)"] Cons.prems by simp
  have "(\<Sum>stops\<leftarrow>product_lists (map (\<lambda>_. [0..<32]) (strip # strips)).
      f (line_values (map2 reel_window (strip # strips) stops) (r # line)))
    = (\<Sum>s\<leftarrow>[0..<32]. \<Sum>p\<leftarrow>product_lists strips. f (reel_window strip s ! r # p))"
    unfolding list.map sum_product_Cons using IH by (simp add: line_values_def)
  also have "\<dots> = (\<Sum>x\<leftarrow>strip. \<Sum>p\<leftarrow>product_lists strips. f (x # p))"
    using Cons.prems by (intro sum_strip) auto
  finally show ?case unfolding sum_product_Cons .
qed

context line_table
begin

lemma round_sum:
  assumes "\<forall>line\<in>set (paylines c). length line = 5 \<and> (\<forall>r\<in>set line. r < 3)" "length (reel_strips c) = 5"
    "\<forall>strip\<in>set (reel_strips c). length strip = 32"
  shows "(\<Sum>stops\<leftarrow>product_lists (replicate 5 [0..<32]). round_mult c (map2 reel_window (reel_strips c) stops))
    = int (length (paylines c)) * expect row (map counts (reel_strips c)) (AllWild 0)"
proof -
  have rep: "replicate 5 [0..<32] = map (\<lambda>_. [0..<32]) (reel_strips c)"
    using assms(2) by (simp add: map_replicate_const)
  have short: "p \<in> set (product_lists (reel_strips c)) \<Longrightarrow> length p = 5" for p
    using assms(2) in_set_product_lists_length by fastforce
  have line: "(\<Sum>stops\<leftarrow>product_lists (replicate 5 [0..<32]).
      line_mult c (line_values (map2 reel_window (reel_strips c) stops) line))
    = expect row (map counts (reel_strips c)) (AllWild 0)" if "line \<in> set (paylines c)" for line
  proof -
    have "(\<Sum>p\<leftarrow>product_lists (reel_strips c). line_mult c p) =
        (\<Sum>p\<leftarrow>product_lists (reel_strips c). line_value row (foldl (line_step row) (AllWild 0) p))"
      using line_value_mult short by (intro arg_cong[of _ _ sum_list] map_cong) auto
    then show ?thesis
      unfolding rep using sum_line[of line "reel_strips c" "line_mult c"] that assms by (simp add: expect_sum)
  qed
  have "(\<Sum>stops\<leftarrow>product_lists (replicate 5 [0..<32]). round_mult c (map2 reel_window (reel_strips c) stops))
    = (\<Sum>line\<leftarrow>paylines c. \<Sum>stops\<leftarrow>product_lists (replicate 5 [0..<32]).
         line_mult c (line_values (map2 reel_window (reel_strips c) stops) line))"
    unfolding round_mult_def by (rule sum_list_swap)
  also have "\<dots> = (\<Sum>line\<leftarrow>paylines c. expect row (map counts (reel_strips c)) (AllWild 0))"
    using line by (intro arg_cong[of _ _ sum_list] map_cong) auto
  finally show ?thesis by (simp add: sum_list_triv)
qed

end


lemma frozen_return: "expect frozen_row (map counts (reel_strips frozen_config)) (AllWild 0) = 32213366"
  by code_simp

lemma fair_return: "expect fair_row (map counts (reel_strips fair_config)) (AllWild 0) = 33554432"
  by code_simp

lemma frequent_return: "expect frequent_row (map counts (reel_strips frequent_config)) (AllWild 0) = 38363186"
  by code_simp

definition stop_tuples :: "nat list list" where
  "stop_tuples = product_lists (replicate 5 [0..<32])"

text \<open>What all \<open>32 ^ 5\<close> equally likely stops pay together, each settled by \<open>resolve\<close>.\<close>

definition all_stops :: "int list list" where
  "all_stops = map (map int) stop_tuples"

definition paid_by :: "slot_config \<Rightarrow> int \<Rightarrow> int list \<Rightarrow> int" where
  "paid_by c w stops = (case resolve w stops c :: (unit slot_error, slot_result) res of Ok r \<Rightarrow> sr_payout r | _ \<Rightarrow> 0)"

lemma product_lists_upt:
  "p \<in> set (product_lists (replicate n [0..<32])) \<longleftrightarrow> length p = n \<and> (\<forall>s\<in>set p. s < 32)"
proof (induction n arbitrary: p)
  case (Suc n)
  have "p \<in> set (product_lists (replicate (Suc n) [0..<32])) \<longleftrightarrow>
      (\<exists>x q. p = x # q \<and> x < 32 \<and> q \<in> set (product_lists (replicate n [0..<32])))"
    by (simp only: replicate_Suc product_lists.simps set_concat set_map) auto
  then show ?case unfolding Suc by (cases p) auto
qed auto

lemma stop_tuples_mem: "p \<in> set stop_tuples \<longleftrightarrow> length p = 5 \<and> (\<forall>s\<in>set p. s < 32)"
  unfolding stop_tuples_def by (rule product_lists_upt)

lemma all_stops_ok: "stops \<in> set all_stops \<longleftrightarrow> stops_ok stops"
proof
  assume "stops_ok stops"
  then have "stops = map int (map nat stops)" "map nat stops \<in> set stop_tuples"
    by (auto simp only: stop_tuples_mem stops_ok_def map_map comp_def length_map intro!: map_idI[symmetric]) auto
  then show "stops \<in> set all_stops" unfolding all_stops_def set_map by blast
next
  assume "stops \<in> set all_stops"
  then obtain p where "p \<in> set stop_tuples" "stops = map int p"
    unfolding all_stops_def set_map by blast
  then show "stops_ok stops" by (simp only: stop_tuples_mem) (auto simp: stops_ok_def)
qed

lemma distinct_product_upt: "distinct (product_lists (replicate n [0..<32]))"
proof (induction n)
  case (Suc n)
  let ?P = "product_lists (replicate n [0..<32])"
  have ne: "replicate n 0 \<in> set ?P" by (simp only: product_lists_upt) simp
  have eq: "product_lists (replicate (Suc n) [0..<32]) = concat (map (\<lambda>x. map (Cons x) ?P) [0..<32])"
    by (simp only: replicate_Suc product_lists.simps)
  have "inj_on (\<lambda>x. map (Cons x) ?P) A" for A :: "nat set"
    using ne by (auto simp: inj_on_def)
  then show ?case
    using Suc unfolding eq by (intro distinct_concat) (auto simp only: distinct_map distinct_upt inj_on_def set_map list.inject)
qed simp

lemma all_stops_count: "length all_stops = 32 ^ 5 \<and> distinct all_stops"
proof -
  have "distinct all_stops"
    using distinct_product_upt by (simp only: all_stops_def stop_tuples_def distinct_map) (auto intro: inj_on_mapI)
  moreover have "int (length all_stops) = 32 ^ 5"
    unfolding all_stops_def stop_tuples_def length_map length_product_lists by (simp add: eval_nat_numeral)
  ultimately show ?thesis by simp
qed

lemma ten_dvd: "(10 :: int) dvd 500000"
  by simp

lemma slot_return:
  assumes "c \<in> slot_configs" "validate_wager w c = (Ok () :: (unit slot_error, unit) res)"
    "(\<Sum>stops\<leftarrow>stop_tuples. round_mult c (map2 reel_window (reel_strips c) stops)) = 10 * t"
  shows "(\<Sum>stops\<leftarrow>all_stops. paid_by c w stops) = w * t"
proof -
  have grid: "grid_of c (map int p) = map2 reel_window (reel_strips c) p" for p
  proof -
    have "map2 (\<lambda>strip stop. reel_window strip (nat stop)) ss (map int p) = map2 reel_window ss p" for ss
      by (induction ss p rule: list_induct2') auto
    then show ?thesis by (simp add: grid_of_def)
  qed
  have paid: "paid_by c w (map int p) = w div 10 * round_mult c (map2 reel_window (reel_strips c) p)"
    if "p \<in> set stop_tuples" for p
  proof -
    have "map int p \<in> set all_stops" unfolding all_stops_def set_map using that by (rule imageI)
    then have "stops_ok (map int p)" unfolding all_stops_ok .
    show ?thesis
    proof (rule resolve_returns[OF assms(1,2) \<open>stops_ok (map int p)\<close>])
      fix r assume "resolve w (map int p) c = (Ok r :: (unit slot_error, slot_result) res)"
        "sr_payout r = w div 10 * round_mult c (grid_of c (map int p))"
      then show ?thesis by (simp add: paid_by_def grid)
    qed
  qed
  have "(\<Sum>stops\<leftarrow>all_stops. paid_by c w stops) =
      (\<Sum>p\<leftarrow>stop_tuples. w div 10 * round_mult c (map2 reel_window (reel_strips c) p))"
    unfolding all_stops_def map_map comp_def using paid by (intro arg_cong[of _ _ sum_list] map_cong) auto
  also have "\<dots> = w div 10 * (10 * t)" unfolding assms(3)[symmetric] by (simp only: sum_list_const_mult)
  also have "\<dots> = w * t"
  proof -
    have "w mod 500000 = 0" using assms(2) by (simp add: validate_wager_Ok units_per_chip_def)
    then have "10 dvd w" using ten_dvd by (metis dvd_trans mod_0_imp_dvd)
    then have "w div 10 * 10 = w" by simp
    then show ?thesis by (metis mult.assoc)
  qed
  finally show ?thesis .
qed


lemma config_sum:
  assumes "c \<in> slot_configs"
  shows "(\<Sum>stops\<leftarrow>stop_tuples. round_mult c (map2 reel_window (reel_strips c) stops)) =
    10 * (if c = frozen_config then 32213366 else if c = fair_config then 33554432 else 38363186)"
proof -
  note shape = config_shape[OF assms]
  have len: "int (length (paylines c)) = 10" using shape(1) by simp
  have distinct: "fair_config \<noteq> frozen_config" "frequent_config \<noteq> frozen_config" "frequent_config \<noteq> fair_config"
    by (auto simp: config_defs)
  from assms consider "c = frozen_config" | "c = fair_config" | "c = frequent_config"
    by (auto simp: slot_configs_def)
  then show ?thesis
  proof cases
    case 1
    show ?thesis using frozen.round_sum[OF shape(2-4)[unfolded 1], folded stop_tuples_def] len unfolding 1 frozen_return by simp
  next
    case 2
    show ?thesis using fair.round_sum[OF shape(2-4)[unfolded 2], folded stop_tuples_def] len distinct unfolding 2 fair_return by simp
  next
    case 3
    show ?thesis using frequent.round_sum[OF shape(2-4)[unfolded 3], folded stop_tuples_def] len distinct unfolding 3 frequent_return by simp
  qed
qed

subsection \<open>No partial return\<close>

text \<open>With the frequent table a round pays nothing or at least eleven tenths of the wager.\<close>

lemma frequent_line: "length p \<le> 5 \<Longrightarrow> line_mult frequent_config p = 0 \<or> 11 \<le> line_mult frequent_config p"
proof -
  assume "length p \<le> 5"
  then obtain s where s: "line_mult frequent_config p = pays frequent_row s (run_of s p)"
    using frequent.line_mult_char by blast
  show ?thesis unfolding s by (cases s) (auto simp: pays_def)
qed

lemma frequent_round: "round_mult frequent_config grid = 0 \<or> 11 \<le> round_mult frequent_config grid"
proof (cases "\<exists>line\<in>set (paylines frequent_config). 11 \<le> line_mult frequent_config (line_values grid line)")
  case True
  then obtain line where l: "line \<in> set (paylines frequent_config)"
    "11 \<le> line_mult frequent_config (line_values grid line)" by blast
  have "line_mult frequent_config (line_values grid line) \<le> round_mult frequent_config grid"
    unfolding round_mult_def using l(1) by (intro member_le_sum_list) (auto simp: line_mult_nonneg)
  then show ?thesis using l(2) by simp
next
  case False
  have "line_mult frequent_config (line_values grid line) = 0" if "line \<in> set (paylines frequent_config)" for line
  proof -
    have "length (line_values grid line) \<le> 5"
      using config_shape(2)[of frequent_config] that by (auto simp: slot_configs_def line_values_def)
    from frequent_line[OF this] show ?thesis using False that by auto
  qed
  then have "round_mult frequent_config grid = (\<Sum>line\<leftarrow>paylines frequent_config. 0)"
    unfolding round_mult_def by (intro arg_cong[of _ _ sum_list] map_cong) auto
  then show ?thesis by simp
qed

end
