(* ===== verification/DirectGames.thy ===== *)
theory DirectGames
  imports Complex_Main Shuffle
begin

text \<open>
  The games settled in one step: \<open>dice.go\<close>, \<open>scratch.go\<close>, \<open>summon.go\<close> and the frozen
  configurations of \<open>config.go\<close> in \<open>src/internal/games\<close>. SHA-256 and HMAC are parameters, a
  configuration's canonical JSON is printed as \<open>encoding/json\<close> prints it: map keys sorted,
  struct fields in their order. All strings printed are versions, tiers and names whose
  characters JSON prints as they are.
\<close>

subsection \<open>Rewards\<close>

datatype outcome = OutLoss | OutBreakEven | OutWin

record reward =
  rw_cost :: int
  rw_payout :: int
  rw_outcome :: outcome

definition reward :: "int \<Rightarrow> int \<Rightarrow> reward" where
  "reward cost payout = \<lparr>rw_cost = cost, rw_payout = payout,
     rw_outcome = (if payout < cost then OutLoss else if payout > cost then OutWin else OutBreakEven)\<rparr>"

subsection \<open>Configurations\<close>

record prize =
  pz_multiplier :: int
  pz_tier :: string
  pz_weight :: int

record config_binding =
  bd_game :: string
  bd_version :: string
  bd_hash :: "byte list"
  bd_algorithm :: string
  bd_ruleset :: string
  bd_schema :: string
  bd_prize_version :: string
  bd_pool :: string

record game_config =
  gc_binding :: config_binding
  gc_prizes :: "prize list"
  gc_dice_counts :: "int list"
  gc_canonical :: string

definition prize_weight_total :: int where "prize_weight_total = 100000"

definition zero_config :: game_config where
  "zero_config = \<lparr>gc_binding = \<lparr>bd_game = '''', bd_version = '''', bd_hash = replicate 32 0, bd_algorithm = '''',
      bd_ruleset = '''', bd_schema = '''', bd_prize_version = '''', bd_pool = ''''\<rparr>,
     gc_prizes = [], gc_dice_counts = [0, 0, 0], gc_canonical = ''''\<rparr>"

definition version_char :: "char \<Rightarrow> bool" where
  "version_char c \<longleftrightarrow> (let n = of_char c :: nat in
     97 \<le> n \<and> n \<le> 122 \<or> 65 \<le> n \<and> n \<le> 90 \<or> 48 \<le> n \<and> n \<le> 57 \<or> n = 45 \<or> n = 95 \<or> n = 46)"

definition valid_version :: "string \<Rightarrow> bool" where
  "valid_version s \<longleftrightarrow> s \<noteq> [] \<and> length s \<le> 128 \<and> list_all version_char s"

datatype json = JNum int | JStr string | JArr "json list" | JObj "(string \<times> json) list"

definition json_int :: "int \<Rightarrow> string" where
  "json_int n = (if n < 0 then ''-'' @ dec_string (nat (- n)) else dec_string (nat n))"

definition quoted :: "string \<Rightarrow> string" where
  "quoted s = [CHR 34] @ s @ [CHR 34]"

fun commas :: "string list \<Rightarrow> string" where
  "commas [] = ''''"
| "commas [s] = s"
| "commas (s # t # ss) = s @ '','' @ commas (t # ss)"

fun marshal :: "json \<Rightarrow> string" where
  "marshal (JNum n) = json_int n"
| "marshal (JStr s) = quoted s"
| "marshal (JArr vs) = ''['' @ commas (map marshal vs) @ '']''"
| "marshal (JObj fs) = ''{'' @ commas (map (\<lambda>(k, v). quoted k @ '':'' @ marshal v) fs) @ ''}''"

definition string_less :: "string \<Rightarrow> string \<Rightarrow> bool" where
  "string_less s t \<longleftrightarrow> ord_class.lexordp (map of_char s :: nat list) (map of_char t)"

text \<open>A Go map is printed with its keys in byte order.\<close>

definition json_map :: "(string \<times> json) list \<Rightarrow> json" where
  "json_map fs = JObj (sort_by (\<lambda>a b. string_less (fst a) (fst b)) fs)"

definition seal_config ::
  "(byte list \<Rightarrow> byte list) \<Rightarrow> game_config \<Rightarrow> (string \<times> json) list \<Rightarrow> (game_error, game_config) res" where
  "seal_config sha c payload =
     (let b = gc_binding c in
      if \<not> valid_version (bd_version b) then Fail ErrInvalidConfig
      else let canonical = marshal (json_map (payload @
                 [(''config_version'', JStr (bd_version b)), (''ruleset_version'', JStr (bd_ruleset b))]));
               m = ascii ''CHALDEA-GAME-CONFIG-V1'' @ [0];
               m = append_lp16 m (ascii (bd_game b));
               m = append_lp16 m (ascii (bd_schema b));
               m = append_lp16 m (ascii (bd_algorithm b))
           in Ok (c\<lparr>gc_binding := b\<lparr>bd_hash := sha (m @ ascii canonical)\<rparr>, gc_canonical := canonical\<rparr>))"

definition check_round :: "game_config \<Rightarrow> round \<Rightarrow> string \<Rightarrow> (game_error, unit) res" where
  "check_round c r game =
     (let b = gc_binding c in
      if bd_hash b = replicate 32 0 \<or> bd_game b \<noteq> game then Fail ErrInvalidConfig
      else if rd_game r \<noteq> ascii (bd_game b) \<or> rd_algorithm_version r \<noteq> ascii (bd_algorithm b) \<or>
              rd_config_version r \<noteq> ascii (bd_version b) \<or> rd_config_hash r \<noteq> bd_hash b
      then Fail ErrConfigMismatch else Ok ())"

subsection \<open>Dice\<close>

datatype dice_side = Big | Small | Triple | OtherSide string

type_synonym dice3 = "byte \<times> byte \<times> byte"

record dice_result =
  dr_dice :: dice3
  dr_total :: byte
  dr_triple :: bool
  dr_side :: dice_side
  dr_choice :: dice_side
  dr_reward :: reward

fun classify_dice :: "dice3 \<Rightarrow> dice_side" where
  "classify_dice (a, b, c) = (if a = b \<and> b = c then Triple else if a + b + c \<le> 10 then Small else Big)"

fun dice_faces_ok :: "dice3 \<Rightarrow> bool" where
  "dice_faces_ok (a, b, c) \<longleftrightarrow> list_all (\<lambda>d. \<not> (d < 1 \<or> d > 6)) [a, b, c]"

definition evaluate_dice :: "dice3 \<Rightarrow> dice_side \<Rightarrow> (game_error, dice_result) res" where
  "evaluate_dice dice choice =
     (if choice \<noteq> Big \<and> choice \<noteq> Small then Fail ErrInvalidInput
      else if \<not> dice_faces_ok dice then Fail ErrInvalidInput
      else let side = classify_dice dice; payout = (if side = choice then 2 else 0) in
        Ok \<lparr>dr_dice = dice, dr_total = (case dice of (a, b, c) \<Rightarrow> a + b + c), dr_triple = (side = Triple),
            dr_side = side, dr_choice = choice, dr_reward = reward 1 payout\<rparr>)"

definition roll_die ::
  "(byte list \<Rightarrow> byte list) \<Rightarrow> hmac \<Rightarrow> byte list \<Rightarrow> round \<Rightarrow> string \<Rightarrow> (game_error, byte) res" where
  "roll_die sha mac seed r domain =
     bindr (new_stream sha seed r (ascii domain)) (\<lambda>s.
     bindr (uniform_int (stream_word mac) s 6) (\<lambda>(n, _). Ok (word_of_nat (n + 1))))"

definition push_triple :: "game_config \<Rightarrow> dice_result \<Rightarrow> dice_result" where
  "push_triple c r =
     (if dr_triple r \<and> bd_ruleset (gc_binding c) = ''dice-rules-v2'' then r\<lparr>dr_reward := reward 1 1\<rparr> else r)"

definition roll_dice ::
  "(byte list \<Rightarrow> byte list) \<Rightarrow> hmac \<Rightarrow> byte list \<Rightarrow> round \<Rightarrow> game_config \<Rightarrow> dice_side \<Rightarrow>
     (game_error, dice_result) res" where
  "roll_dice sha mac seed r c choice =
     bindr (check_round c r ''dice'') (\<lambda>_.
       if choice \<noteq> Big \<and> choice \<noteq> Small then Fail ErrInvalidInput
       else bindr (roll_die sha mac seed r ''dice:d1'') (\<lambda>d1.
            bindr (roll_die sha mac seed r ''dice:d2'') (\<lambda>d2.
            bindr (roll_die sha mac seed r ''dice:d3'') (\<lambda>d3.
            bindr (evaluate_dice (d1, d2, d3) choice) (\<lambda>res. Ok (push_triple c res))))))"

definition all_dice :: "dice3 list" where
  "all_dice = [(a, b, d). a \<leftarrow> [1, 2, 3, 4, 5, 6], b \<leftarrow> [1, 2, 3, 4, 5, 6], d \<leftarrow> [1, 2, 3, 4, 5, 6]]"

definition dice_counts :: "int list" where
  "dice_counts = map (\<lambda>side. int (length (filter (\<lambda>d. classify_dice d = side) all_dice))) [Small, Big, Triple]"

definition dice_config ::
  "(byte list \<Rightarrow> byte list) \<Rightarrow> string \<Rightarrow> string \<Rightarrow> string \<Rightarrow> (game_error, game_config) res" where
  "dice_config sha version ruleset triple_rule =
     (let c = zero_config\<lparr>gc_binding := (gc_binding zero_config)\<lparr>bd_game := ''dice'', bd_version := version,
                bd_algorithm := ''dice-map-v1'', bd_ruleset := ruleset, bd_schema := ''dice-config-v1''\<rparr>,
              gc_dice_counts := dice_counts\<rparr>
      in if gc_dice_counts c \<noteq> [105, 105, 6] then Fail ErrInvalidConfig
         else seal_config sha c
           [(''allowed_choices'', JArr [JStr ''BIG'', JStr ''SMALL'']),
            (''big_range'', JArr [JNum 11, JNum 17]), (''small_range'', JArr [JNum 4, JNum 10]),
            (''dice_count'', JNum 3), (''faces_per_die'', JNum 6), (''triple_rule'', JStr triple_rule),
            (''win_total_payout_multiplier'', JNum 2)])"

definition dice_v1 :: "(byte list \<Rightarrow> byte list) \<Rightarrow> string \<Rightarrow> (game_error, game_config) res" where
  "dice_v1 sha version = dice_config sha version ''dice-rules-v1'' ''BOTH_LOSE''"

definition dice_v2 :: "(byte list \<Rightarrow> byte list) \<Rightarrow> string \<Rightarrow> (game_error, game_config) res" where
  "dice_v2 sha version = dice_config sha version ''dice-rules-v2'' ''PUSH''"


subsection \<open>Prize tables\<close>

definition scratch_prizes_v1 :: "prize list" where
  "scratch_prizes_v1 = map (\<lambda>(m, t, w). \<lparr>pz_multiplier = m, pz_tier = t, pz_weight = w\<rparr>)
     [(0, ''LOSS'', 54000), (1, ''BREAK_EVEN'', 19500), (2, ''T2'', 18500), (3, ''T3'', 5000),
      (5, ''T5'', 2000), (10, ''T10'', 800), (25, ''T25'', 180), (100, ''TOP'', 20)]"

definition summon_prizes_v1 :: "prize list" where
  "summon_prizes_v1 = map (\<lambda>(m, t, w). \<lparr>pz_multiplier = m, pz_tier = t, pz_weight = w\<rparr>)
     [(0, ''T0'', 59850), (1, ''T1'', 25000), (2, ''T2'', 10000), (5, ''T3'', 4000), (20, ''T4'', 1050),
      (100, ''T5'', 100)]"

text \<open>The validating loop over the table, with the tiers seen and the running total.\<close>

fun check_prizes :: "prize list \<Rightarrow> string list \<Rightarrow> int \<Rightarrow> prize list \<Rightarrow> (game_error, int) res" where
  "check_prizes frozen seen acc [] = Ok acc"
| "check_prizes frozen seen acc (p # ps) =
     (if pz_weight p < 0 \<or> pz_weight p > prize_weight_total \<or> pz_tier p \<in> set seen then Fail ErrInvalidConfig
      else if \<not> list_ex (\<lambda>e. pz_tier p = pz_tier e \<and> pz_multiplier p = pz_multiplier e) frozen
      then Fail ErrInvalidConfig
      else check_prizes frozen (pz_tier p # seen) (acc + pz_weight p) ps)"

definition prize_json :: "prize \<Rightarrow> json" where
  "prize_json p = JObj [(''multiplier'', JNum (pz_multiplier p)), (''tier'', JStr (pz_tier p)),
     (''weight'', JNum (pz_weight p))]"

definition new_prize_config ::
  "(byte list \<Rightarrow> byte list) \<Rightarrow> game_config \<Rightarrow> prize list \<Rightarrow> prize list \<Rightarrow> string \<Rightarrow> (game_error, game_config) res" where
  "new_prize_config sha c prizes frozen frozen_version =
     (let b = gc_binding c in
      if \<not> valid_version (bd_prize_version b) \<or> length prizes \<noteq> length frozen then Fail ErrInvalidConfig
      else if bd_prize_version b = frozen_version \<and> prizes \<noteq> frozen then Fail ErrInvalidConfig
      else bindr (check_prizes frozen [] 0 prizes) (\<lambda>sum.
        if sum \<noteq> prize_weight_total then Fail ErrInvalidConfig
        else seal_config sha (c\<lparr>gc_prizes := prizes\<rparr>)
          ([(''prizes'', JArr (map prize_json prizes)), (''prize_table_version'', JStr (bd_prize_version b))] @
           (if bd_game b = ''summon''
            then [(''pool_id'', JStr (bd_pool b)), (''draw_counts'', JArr [JNum 1, JNum 10])] else []))))"

definition new_scratch_config ::
  "(byte list \<Rightarrow> byte list) \<Rightarrow> string \<Rightarrow> string \<Rightarrow> prize list \<Rightarrow> (game_error, game_config) res" where
  "new_scratch_config sha version table prizes =
     new_prize_config sha (zero_config\<lparr>gc_binding := (gc_binding zero_config)\<lparr>bd_game := ''scratch'',
         bd_version := version, bd_algorithm := ''scratch-map-v1'', bd_ruleset := ''scratch-rules-v1'',
         bd_schema := ''scratch-config-v1'', bd_prize_version := table\<rparr>\<rparr>)
       prizes scratch_prizes_v1 ''scratch-prize-v1''"

definition new_summon_config ::
  "(byte list \<Rightarrow> byte list) \<Rightarrow> string \<Rightarrow> string \<Rightarrow> prize list \<Rightarrow> (game_error, game_config) res" where
  "new_summon_config sha version table prizes =
     new_prize_config sha (zero_config\<lparr>gc_binding := (gc_binding zero_config)\<lparr>bd_game := ''summon'',
         bd_version := version, bd_algorithm := ''summon-map-v1'', bd_ruleset := ''summon-rules-v1'',
         bd_schema := ''summon-config-v1'', bd_prize_version := table, bd_pool := ''SUMMON_MAIN_V1''\<rparr>\<rparr>)
       prizes summon_prizes_v1 ''summon-prize-v1''"

definition scratch_v1 :: "(byte list \<Rightarrow> byte list) \<Rightarrow> string \<Rightarrow> (game_error, game_config) res" where
  "scratch_v1 sha version = new_scratch_config sha version ''scratch-prize-v1'' scratch_prizes_v1"

definition summon_v1 :: "(byte list \<Rightarrow> byte list) \<Rightarrow> string \<Rightarrow> (game_error, game_config) res" where
  "summon_v1 sha version = new_summon_config sha version ''summon-prize-v1'' summon_prizes_v1"

text \<open>\<open>uint64(p.Weight)\<close> reads a negative weight as a huge one, and the sum wraps.\<close>

fun prize_walk :: "nat \<Rightarrow> nat \<Rightarrow> prize list \<Rightarrow> (game_error, prize) res" where
  "prize_walk sample cumulative [] = Fail ErrInvalidConfig"
| "prize_walk sample cumulative (p # ps) =
     (let cumulative = (cumulative + uint64_of (pz_weight p)) mod 2 ^ 64 in
      if sample < cumulative then Ok p else prize_walk sample cumulative ps)"

definition prize_at :: "game_config \<Rightarrow> nat \<Rightarrow> (game_error, prize) res" where
  "prize_at c sample =
     (if int sample \<ge> prize_weight_total \<or> gc_prizes c = [] then Fail ErrInvalidInput
      else prize_walk sample 0 (gc_prizes c))"

definition sample_prize ::
  "(byte list \<Rightarrow> byte list) \<Rightarrow> hmac \<Rightarrow> game_config \<Rightarrow> byte list \<Rightarrow> round \<Rightarrow> string \<Rightarrow> (game_error, prize) res" where
  "sample_prize sha mac c seed r domain =
     bindr (new_stream sha seed r (ascii domain)) (\<lambda>s.
     bindr (uniform_int (stream_word mac) s (nat prize_weight_total)) (\<lambda>(n, _). prize_at c n))"

record statistics =
  stat_rtp :: rat
  stat_loss :: rat
  stat_even :: rat
  stat_win :: rat
  stat_top :: rat

definition weight_where :: "(prize \<Rightarrow> bool) \<Rightarrow> prize list \<Rightarrow> int" where
  "weight_where P ps = sum_list (map pz_weight (filter P ps))"

definition new_rat :: "int \<Rightarrow> int \<Rightarrow> rat" where
  "new_rat a b = of_int a / of_int b"

definition statistics_of :: "game_config \<Rightarrow> (game_error, statistics) res" where
  "statistics_of c =
     (let b = gc_binding c in
      if bd_hash b = replicate 32 0 then Fail ErrInvalidConfig
      else if bd_game b = ''slot'' \<or> bd_game b = ''blackjack'' then Fail ErrInvalidConfig
      else if bd_game b = ''dice'' then
        (let wins = gc_dice_counts c ! 0; triples = gc_dice_counts c ! 2 in
         if bd_ruleset b = ''dice-rules-v2''
         then Ok \<lparr>stat_rtp = new_rat (2 * wins + triples) 216, stat_loss = new_rat wins 216,
                  stat_even = new_rat triples 216, stat_win = new_rat wins 216, stat_top = 0\<rparr>
         else Ok \<lparr>stat_rtp = new_rat (2 * wins) 216, stat_loss = new_rat (216 - wins) 216,
                  stat_even = 0, stat_win = new_rat wins 216, stat_top = 0\<rparr>)
      else let ps = gc_prizes c in
        Ok \<lparr>stat_rtp = new_rat (sum_list (map (\<lambda>p. pz_weight p * pz_multiplier p) ps)) prize_weight_total,
            stat_loss = new_rat (weight_where (\<lambda>p. pz_multiplier p = 0) ps) prize_weight_total,
            stat_even = new_rat (weight_where (\<lambda>p. pz_multiplier p = 1) ps) prize_weight_total,
            stat_win = new_rat (weight_where (\<lambda>p. pz_multiplier p \<noteq> 0 \<and> pz_multiplier p \<noteq> 1) ps) prize_weight_total,
            stat_top = new_rat (weight_where (\<lambda>p. pz_tier p = ''TOP'' \<or> bd_game b = ''summon'' \<and> pz_tier p = ''T5'') ps)
              prize_weight_total\<rparr>)"

subsection \<open>The scratch card\<close>

record scratch_cell =
  sc_symbol :: string
  sc_matching :: bool

record scratch_result =
  sk_tier :: string
  sk_cells :: "scratch_cell list"
  sk_reward :: reward

definition scratch_symbols :: "string list" where
  "scratch_symbols = [''P1'', ''P2'', ''P3'', ''P5'', ''P10'', ''P25'', ''P100'']"

definition scratch_multiset ::
  "('s \<Rightarrow> nat \<Rightarrow> (game_error, nat \<times> 's) res) \<Rightarrow> string \<Rightarrow> 's \<Rightarrow> (game_error, string list \<times> string) res" where
  "scratch_multiset draw tier filler =
     (if tier = ''LOSS'' then
        bindr (draw filler 7) (\<lambda>(first, filler).
        bindr (draw filler 6) (\<lambda>(second, filler).
          let second = (if second \<ge> first then second + 1 else second)
          in Ok (scratch_symbols @ [scratch_symbols ! first, scratch_symbols ! second], '''')))
      else case find (\<lambda>i. pz_tier (tl scratch_prizes_v1 ! i) = tier) [0..<length (tl scratch_prizes_v1)] of
             None \<Rightarrow> Fail ErrInvalidInput
           | Some i \<Rightarrow>
               let winning = scratch_symbols ! i
               in Ok ([winning, winning, winning] @ filter (\<lambda>s. s \<noteq> winning) scratch_symbols, winning))"

definition scratch_card ::
  "(byte list \<Rightarrow> byte list) \<Rightarrow> hmac \<Rightarrow> byte list \<Rightarrow> round \<Rightarrow> game_config \<Rightarrow> (game_error, scratch_result) res" where
  "scratch_card sha mac seed r c =
     bindr (check_round c r ''scratch'') (\<lambda>_.
     bindr (sample_prize sha mac c seed r ''scratch:prize'') (\<lambda>p.
     bindr (new_stream sha seed r (ascii ''scratch:filler'')) (\<lambda>filler.
     bindr (scratch_multiset (uniform_int (stream_word mac)) (pz_tier p) filler) (\<lambda>(cells, matching).
     bindr (new_stream sha seed r (ascii ''scratch:layout'')) (\<lambda>layout.
     bindr (games_shuffle (uniform_int (stream_word mac)) layout cells) (\<lambda>(cells, _).
       Ok \<lparr>sk_tier = pz_tier p, sk_cells = map (\<lambda>s. \<lparr>sc_symbol = s, sc_matching = (s = matching)\<rparr>) cells,
           sk_reward = reward 1 (pz_multiplier p)\<rparr>))))))"

subsection \<open>The summon\<close>

datatype summon_mode = Single | Tenfold | OtherMode string

record draw_result =
  dw_index :: int
  dw_tier :: string
  dw_multiplier :: int

record summon_result =
  sm_mode :: summon_mode
  sm_draws :: "draw_result list"
  sm_highest :: string
  sm_reward :: reward

definition summon_draw ::
  "(byte list \<Rightarrow> byte list) \<Rightarrow> hmac \<Rightarrow> byte list \<Rightarrow> round \<Rightarrow> game_config \<Rightarrow> int \<Rightarrow> (game_error, draw_result) res" where
  "summon_draw sha mac seed r c index =
     (if index < 1 \<or> index > 10 then Fail ErrInvalidInput
      else bindr (check_round c r ''summon'') (\<lambda>_.
        bindr (sample_prize sha mac c seed r (''summon:draw:'' @ json_int index)) (\<lambda>p.
          Ok \<lparr>dw_index = index, dw_tier = pz_tier p, dw_multiplier = pz_multiplier p\<rparr>)))"

text \<open>The loop with the number of draws left, the next index and the state of the result.\<close>

fun summon_loop ::
  "(int \<Rightarrow> (game_error, draw_result) res) \<Rightarrow> nat \<Rightarrow> int \<Rightarrow> draw_result list \<Rightarrow> string \<Rightarrow> int \<Rightarrow>
     (game_error, draw_result list \<times> string \<times> int) res" where
  "summon_loop draw 0 i draws highest payout = Ok (draws, highest, payout)"
| "summon_loop draw (Suc n) i draws highest payout =
     bindr (draw i) (\<lambda>d.
       summon_loop draw n (i + 1) (draws @ [d]) (if string_less highest (dw_tier d) then dw_tier d else highest)
         (payout + dw_multiplier d))"

definition summon ::
  "(byte list \<Rightarrow> byte list) \<Rightarrow> hmac \<Rightarrow> byte list \<Rightarrow> round \<Rightarrow> game_config \<Rightarrow> summon_mode \<Rightarrow>
     (game_error, summon_result) res" where
  "summon sha mac seed r c mode =
     (case (case mode of Single \<Rightarrow> Some 1 | Tenfold \<Rightarrow> Some 10 | OtherMode _ \<Rightarrow> None) of
        None \<Rightarrow> Fail ErrInvalidInput
      | Some n \<Rightarrow>
          bindr (summon_loop (summon_draw sha mac seed r c) n 1 [] ''T0'' 0) (\<lambda>(draws, highest, payout).
            Ok \<lparr>sm_mode = mode, sm_draws = draws, sm_highest = highest, sm_reward = reward (int n) payout\<rparr>))"

end
