(* ===== verification/DirectFacts.thy ===== *)
theory DirectFacts
  imports DirectGames
begin

text \<open>
  The games settled in one step: an accepted prize table is met exactly by its 100000 samples,
  the published statistics are the exact averages over them (and over the 216 throws of the
  dice), a scratch card shows exactly the prize it pays, and a summon adds up its draws.
\<close>

subsection \<open>Accepted tables\<close>

definition prize_table_ok :: "prize list \<Rightarrow> prize list \<Rightarrow> bool" where
  "prize_table_ok frozen ps \<longleftrightarrow> (\<forall>p\<in>set ps. 0 \<le> pz_weight p \<and> pz_weight p \<le> prize_weight_total \<and>
       (\<exists>e\<in>set frozen. pz_tier p = pz_tier e \<and> pz_multiplier p = pz_multiplier e)) \<and>
     distinct (map pz_tier ps) \<and> sum_list (map pz_weight ps) = prize_weight_total"

lemma check_prizes_Ok:
  "check_prizes frozen seen acc ps = Ok t \<Longrightarrow>
     (\<forall>p\<in>set ps. 0 \<le> pz_weight p \<and> pz_weight p \<le> prize_weight_total \<and>
        (\<exists>e\<in>set frozen. pz_tier p = pz_tier e \<and> pz_multiplier p = pz_multiplier e)) \<and>
     distinct (map pz_tier ps) \<and> set seen \<inter> pz_tier ` set ps = {} \<and> t = acc + sum_list (map pz_weight ps)"
proof (induction ps arbitrary: seen acc)
  case (Cons p ps)
  then have p: "0 \<le> pz_weight p" "pz_weight p \<le> prize_weight_total" "pz_tier p \<notin> set seen"
    "\<exists>e\<in>set frozen. pz_tier p = pz_tier e \<and> pz_multiplier p = pz_multiplier e"
    and r: "check_prizes frozen (pz_tier p # seen) (acc + pz_weight p) ps = Ok t"
    by (auto simp: list_ex_iff split: if_splits)
  show ?case using Cons.IH[OF r] p by auto
qed simp

lemma seal_config_Ok:
  "seal_config sha c payload = Ok c' \<Longrightarrow> gc_prizes c' = gc_prizes c \<and> gc_dice_counts c' = gc_dice_counts c \<and>
     bd_game (gc_binding c') = bd_game (gc_binding c) \<and> bd_ruleset (gc_binding c') = bd_ruleset (gc_binding c)"
  by (auto simp: seal_config_def Let_def split: if_splits)

lemma new_prize_config_Ok:
  assumes "new_prize_config sha c ps frozen v = Ok c'"
  shows "gc_prizes c' = ps \<and> prize_table_ok frozen ps \<and> length ps = length frozen \<and>
    bd_game (gc_binding c') = bd_game (gc_binding c)"
proof -
  obtain t where t: "check_prizes frozen [] 0 ps = Ok t" "t = prize_weight_total"
    and s: "\<exists>payload. seal_config sha (c\<lparr>gc_prizes := ps\<rparr>) payload = Ok c'" "length ps = length frozen"
    using assms by (auto simp: new_prize_config_def Let_def res_simps split: if_splits)
  show ?thesis using check_prizes_Ok[OF t(1)] t(2) s seal_config_Ok by (fastforce simp: prize_table_ok_def)
qed

lemma dice_counts_eq: "dice_counts = [105, 105, 6]"
  by code_simp

subsection \<open>Sampling a prize\<close>

lemma prize_walk_sum:
  assumes "\<forall>p\<in>set ps. 0 \<le> pz_weight p" "int k + sum_list (map pz_weight ps) < 2 ^ 64"
  shows "(\<Sum>n = k..<k + nat (sum_list (map pz_weight ps)). case prize_walk n k ps of Ok p \<Rightarrow> f p | _ \<Rightarrow> z)
    = (\<Sum>p\<leftarrow>ps. of_int (pz_weight p) * (f p :: rat))"
  using assms
proof (induction ps arbitrary: k)
  case (Cons p ps)
  define w where "w = nat (pz_weight p)"
  define t where "t = nat (sum_list (map pz_weight ps))"
  have pos: "0 \<le> pz_weight p" "0 \<le> sum_list (map pz_weight ps)"
    using Cons.prems(1) by (auto intro!: sum_list_nonneg)
  then have w: "pz_weight p = int w" and t: "sum_list (map pz_weight ps) = int t" by (simp_all add: w_def t_def)
  have lim: "k + w + t < 2 ^ 64" using Cons.prems(2) w t by (simp flip: of_nat_add add: of_nat_less_iff[symmetric])
  have walk: "(k + uint64_of (pz_weight p)) mod 2 ^ 64 = k + w"
    using lim by (simp add: uint64_of_def w flip: zmod_int)
  have step: "prize_walk n k (p # ps) = (if n < k + w then Ok p else prize_walk n (k + w) ps)" for n
    using walk by (simp add: Let_def)
  let ?g = "\<lambda>n k ps. case prize_walk n k ps of Ok p \<Rightarrow> f p | _ \<Rightarrow> z"
  have first: "(\<Sum>n = k..<k + w. ?g n k (p # ps)) = (\<Sum>n = k..<k + w. f p)"
    unfolding step by (intro sum.cong) simp_all
  have rest: "(\<Sum>n = k + w..<k + w + t. ?g n k (p # ps)) = (\<Sum>n = k + w..<k + w + t. ?g n (k + w) ps)"
    unfolding step by (intro sum.cong) simp_all
  have "(\<Sum>n = k..<k + (w + t). ?g n k (p # ps)) =
      (\<Sum>n = k..<k + w. ?g n k (p # ps)) + (\<Sum>n = k + w..<k + w + t. ?g n k (p # ps))"
    by (simp only: sum.atLeastLessThan_concat le_add1 flip: add.assoc)
  also note first
  also note rest
  also have "(\<Sum>n = k + w..<k + w + t. case prize_walk n (k + w) ps of Ok p \<Rightarrow> f p | _ \<Rightarrow> z) =
      (\<Sum>p\<leftarrow>ps. of_int (pz_weight p) * f p)"
  proof -
    have "int (k + w) + sum_list (map pz_weight ps) < 2 ^ 64" using Cons.prems(2) w by simp
    from Cons.IH[OF _ this] Cons.prems(1) show ?thesis by (simp add: t)
  qed
  finally show ?case using w t by (simp add: nat_int_add)
qed simp


text \<open>The 100000 samples meet every prize exactly as often as its weight says.\<close>

lemma prize_at_sum:
  assumes "prize_table_ok frozen (gc_prizes c)"
  shows "(\<Sum>n<100000. case prize_at c n of Ok p \<Rightarrow> f p | _ \<Rightarrow> z) =
    (\<Sum>p\<leftarrow>gc_prizes c. of_int (pz_weight p) * (f p :: rat))"
proof -
  have t: "sum_list (map pz_weight (gc_prizes c)) = 100000" "\<forall>p\<in>set (gc_prizes c). 0 \<le> pz_weight p"
    using assms by (auto simp: prize_table_ok_def prize_weight_total_def)
  then have "gc_prizes c \<noteq> []" by auto
  then have "prize_at c n = prize_walk n 0 (gc_prizes c)" if "n < 100000" for n
    using that by (simp add: prize_at_def prize_weight_total_def)
  then have "(\<Sum>n<100000. case prize_at c n of Ok p \<Rightarrow> f p | _ \<Rightarrow> z) =
      (\<Sum>n = 0..<100000. case prize_walk n 0 (gc_prizes c) of Ok p \<Rightarrow> f p | _ \<Rightarrow> z)"
    unfolding lessThan_atLeast0 by (intro sum.cong) auto
  then show ?thesis using prize_walk_sum[OF t(2), of 0 f z] t(1) by simp
qed

lemma prize_walk_mem: "prize_walk n k ps = Ok p \<Longrightarrow> p \<in> set ps"
  by (induction ps arbitrary: k) (auto simp: Let_def split: if_splits)

lemma of_int_sum_map: "(\<Sum>p\<leftarrow>ps. of_int (w p)) = (of_int (sum_list (map w ps)) :: rat)"
  by (induction ps) auto

lemma prize_at_returns:
  assumes "prize_table_ok frozen (gc_prizes c)" "n < 100000"
  shows "\<exists>p\<in>set (gc_prizes c). prize_at c n = Ok p"
proof -
  let ?one = "\<lambda>n. case prize_at c n of Ok p \<Rightarrow> 1 | _ \<Rightarrow> (0 :: rat)"
  have w: "sum_list (map pz_weight (gc_prizes c)) = 100000" using assms(1) by (simp add: prize_table_ok_def prize_weight_total_def)
  have "(\<Sum>n<100000. ?one n) = (\<Sum>p\<leftarrow>gc_prizes c. of_int (pz_weight p))"
    using prize_at_sum[OF assms(1), of "\<lambda>_. 1" 0] by simp
  also have "\<dots> = of_int (sum_list (map pz_weight (gc_prizes c)))"
    by (rule of_int_sum_map)
  finally have s: "(\<Sum>n<100000. ?one n) = (\<Sum>n<100000::nat. 1)" by (simp add: w)
  have "?one n = 1"
  proof (rule ccontr)
    assume ne: "?one n \<noteq> 1"
    have le: "?one m \<le> 1" for m by (simp split: res.splits)
    have "?one n < 1" using ne le[of n] by simp
    then have "(\<Sum>n<100000. ?one n) < (\<Sum>n<100000::nat. 1)"
      using le assms(2) by (intro sum_strict_mono_ex1) auto
    then show False using s by simp
  qed
  then obtain p where p: "prize_at c n = Ok p" by (auto split: res.splits)
  then show ?thesis by (auto simp: prize_at_def dest: prize_walk_mem split: if_splits)
qed

lemma sum_list_filter: "(\<Sum>p\<leftarrow>ps. of_int (pz_weight p) * (if P p then 1 else 0 :: rat)) = of_int (weight_where P ps)"
  by (induction ps) (auto simp: weight_where_def)

lemma card_prize_at:
  assumes "prize_table_ok frozen (gc_prizes c)"
  shows "of_nat (card {n. n < 100000 \<and> (\<exists>p. prize_at c n = Ok p \<and> P p)}) = (of_int (weight_where P (gc_prizes c)) :: rat)"
proof -
  have "of_nat (card {n. n < 100000 \<and> (\<exists>p. prize_at c n = Ok p \<and> P p)}) =
      (\<Sum>n<100000. if \<exists>p. prize_at c n = Ok p \<and> P p then 1 else 0 :: rat)"
    by (simp add: sum.If_cases Int_def)
  also have "\<dots> = (\<Sum>n<100000. case prize_at c n of Ok p \<Rightarrow> if P p then 1 else 0 | _ \<Rightarrow> 0)"
    by (intro sum.cong) (auto split: res.splits)
  also have "\<dots> = of_int (weight_where P (gc_prizes c))"
    unfolding prize_at_sum[OF assms] by (rule sum_list_filter)
  finally show ?thesis .
qed

subsection \<open>The published statistics\<close>

lemma statistics_exact:
  assumes "statistics_of c = Ok st" "prize_table_ok frozen (gc_prizes c)" "bd_game (gc_binding c) \<noteq> ''dice''"
  shows "stat_rtp st = (\<Sum>n<100000. case prize_at c n of Ok p \<Rightarrow> of_int (pz_multiplier p) | _ \<Rightarrow> 0) / 100000"
    "stat_loss st = of_nat (card {n. n < 100000 \<and> (\<exists>p. prize_at c n = Ok p \<and> pz_multiplier p = 0)}) / 100000"
    "stat_even st = of_nat (card {n. n < 100000 \<and> (\<exists>p. prize_at c n = Ok p \<and> pz_multiplier p = 1)}) / 100000"
    "stat_win st = of_nat (card {n. n < 100000 \<and> (\<exists>p. prize_at c n = Ok p \<and> pz_multiplier p \<noteq> 0 \<and> pz_multiplier p \<noteq> 1)}) / 100000"
proof -
  have "of_int (sum_list (map (\<lambda>p. pz_weight p * pz_multiplier p) ps)) =
      (\<Sum>p\<leftarrow>ps. of_int (pz_weight p) * (of_int (pz_multiplier p) :: rat))" for ps
    by (induction ps) auto
  then show "stat_rtp st = (\<Sum>n<100000. case prize_at c n of Ok p \<Rightarrow> of_int (pz_multiplier p) | _ \<Rightarrow> 0) / 100000"
    unfolding prize_at_sum[OF assms(2)]
    using assms(1,3) by (auto simp: statistics_of_def Let_def new_rat_def prize_weight_total_def split: if_splits)
qed (use assms(1,3) in \<open>auto simp: card_prize_at[OF assms(2)] statistics_of_def Let_def new_rat_def
    prize_weight_total_def split: if_splits\<close>)


subsection \<open>Dice\<close>

definition throw :: "game_config \<Rightarrow> dice_side \<Rightarrow> dice3 \<Rightarrow> reward option" where
  "throw c choice d = (case evaluate_dice d choice of Ok r \<Rightarrow> Some (dr_reward (push_triple c r)) | _ \<Rightarrow> None)"

definition throws_where :: "game_config \<Rightarrow> dice_side \<Rightarrow> (reward \<Rightarrow> bool) \<Rightarrow> nat" where
  "throws_where c choice P = length (filter (\<lambda>d. case throw c choice d of Some r \<Rightarrow> P r | None \<Rightarrow> False) all_dice)"

definition pays_even :: "bool \<Rightarrow> dice_side \<Rightarrow> dice3 \<Rightarrow> int" where
  "pays_even push choice d =
     (let side = classify_dice d in if side = Triple \<and> push then 1 else if side = choice then 2 else 0)"

lemma throw_eq:
  assumes "d \<in> set all_dice" "choice = Big \<or> choice = Small"
  shows "throw c choice d = Some (reward 1 (pays_even (bd_ruleset (gc_binding c) = ''dice-rules-v2'') choice d))"
proof -
  have "dice_faces_ok d" using assms(1) by (auto simp: all_dice_def)
  then show ?thesis using assms(2) by (auto simp: throw_def evaluate_dice_def push_triple_def pays_even_def Let_def)
qed

lemma pays_even_counts:
  "map (\<lambda>v. map (\<lambda>(push, choice). length (filter (\<lambda>d. pays_even push choice d = v) all_dice))
     [(True, Big), (True, Small), (False, Big), (False, Small)]) [0, 1, 2] =
   [[105, 105, 111, 111], [6, 6, 0, 0], [105, 105, 105, 105]]"
  by code_simp

lemma throws_where_eq:
  assumes "choice = Big \<or> choice = Small"
  shows "throws_where c choice P = length (filter (\<lambda>d.
    P (reward 1 (pays_even (bd_ruleset (gc_binding c) = ''dice-rules-v2'') choice d))) all_dice)"
  unfolding throws_where_def using throw_eq[OF _ assms]
  by (intro arg_cong[of _ _ length] filter_cong) auto

lemma dice_config_Ok:
  assumes "dice_config sha version ruleset rule = Ok c"
  shows "gc_dice_counts c = [105, 105, 6]" "bd_game (gc_binding c) = ''dice''" "bd_ruleset (gc_binding c) = ruleset"
  using assms by (auto simp: dice_config_def Let_def split: if_splits dest!: seal_config_Ok)

lemma dice_statistics_eq:
  assumes "statistics_of c = Ok st" "bd_game (gc_binding c) = ''dice''" "gc_dice_counts c = [105, 105, 6]"
  shows "stat_rtp st = (if bd_ruleset (gc_binding c) = ''dice-rules-v2'' then 1 else 210 / 216)"
    "stat_loss st = (if bd_ruleset (gc_binding c) = ''dice-rules-v2'' then 105 / 216 else 111 / 216)"
    "stat_even st = (if bd_ruleset (gc_binding c) = ''dice-rules-v2'' then 6 / 216 else 0)"
    "stat_win st = 105 / 216"
  using assms by (auto simp: statistics_of_def Let_def new_rat_def split: if_splits)

lemma dice_statistics:
  assumes "dice_config sha version ruleset rule = Ok c" "statistics_of c = Ok st" "choice = Big \<or> choice = Small"
  shows "stat_loss st = of_nat (throws_where c choice (\<lambda>r. rw_outcome r = OutLoss)) / 216"
    "stat_even st = of_nat (throws_where c choice (\<lambda>r. rw_outcome r = OutBreakEven)) / 216"
    "stat_win st = of_nat (throws_where c choice (\<lambda>r. rw_outcome r = OutWin)) / 216"
    "stat_rtp st = stat_even st + 2 * stat_win st"
proof -
  have out: "rw_outcome (reward 1 (pays_even p ch d)) = OutLoss \<longleftrightarrow> pays_even p ch d = 0"
    "rw_outcome (reward 1 (pays_even p ch d)) = OutBreakEven \<longleftrightarrow> pays_even p ch d = 1"
    "rw_outcome (reward 1 (pays_even p ch d)) = OutWin \<longleftrightarrow> pays_even p ch d = 2" for p ch d
    by (auto simp: pays_even_def reward_def Let_def)
  note eq = dice_statistics_eq[OF assms(2) dice_config_Ok(2,1)[OF assms(1)]]
  have n: "length (filter (\<lambda>d. pays_even p choice d = 0) all_dice) = (if p then 105 else 111)"
    "length (filter (\<lambda>d. pays_even p choice d = 1) all_dice) = (if p then 6 else 0)"
    "length (filter (\<lambda>d. pays_even p choice d = 2) all_dice) = 105" for p
    using pays_even_counts assms(3) by (cases p; auto)+
  show "stat_loss st = of_nat (throws_where c choice (\<lambda>r. rw_outcome r = OutLoss)) / 216"
    unfolding throws_where_eq[OF assms(3)] out n eq by simp
  show "stat_even st = of_nat (throws_where c choice (\<lambda>r. rw_outcome r = OutBreakEven)) / 216"
    unfolding throws_where_eq[OF assms(3)] out n eq by simp
  show "stat_win st = of_nat (throws_where c choice (\<lambda>r. rw_outcome r = OutWin)) / 216"
    unfolding throws_where_eq[OF assms(3)] out n eq by simp
  show "stat_rtp st = stat_even st + 2 * stat_win st" unfolding eq by simp
qed

lemma roll_die_Ok:
  assumes "roll_die sha mac seed r d = Ok v"
  obtains n where "n < 6" "v = word_of_nat (n + 1)"
proof -
  obtain s x where x: "uniform_int (stream_word mac) s 6 = Ok x" "(case x of (n, _) \<Rightarrow> Ok (word_of_nat (n + 1))) = (Ok v :: (game_error, byte) res)"
    using assms unfolding roll_die_def bindr_Ok_iff by blast
  obtain n t where "x = (n, t)" by (cases x)
  with x have "uniform_int (stream_word mac) s 6 = Ok (n, t)" "v = word_of_nat (n + 1)" by simp_all
  moreover from this(1) have "n < 6" by (rule uniform_int_less)
  ultimately show ?thesis by (intro that)
qed

lemma roll_dice_faces:
  assumes "roll_dice sha mac seed r c choice = Ok res"
  shows "\<exists>d. dice_faces_ok d \<and> dr_dice res = d \<and> Some (dr_reward res) = throw c choice d \<and> dr_choice res = choice"
proof -
  obtain a b d e where f: "roll_die sha mac seed r ''dice:d1'' = Ok a" "roll_die sha mac seed r ''dice:d2'' = Ok b"
    "roll_die sha mac seed r ''dice:d3'' = Ok d" "evaluate_dice (a, b, d) choice = Ok e" "res = push_triple c e"
    using assms by (auto simp: roll_dice_def res_simps split: if_splits)
  have "dr_dice e = (a, b, d)" "dr_choice e = choice" "dice_faces_ok (a, b, d)"
    using f(4) by (auto simp: evaluate_dice_def Let_def split: if_splits)
  then show ?thesis using f(4,5) by (auto simp: throw_def push_triple_def)
qed

subsection \<open>The scratch card\<close>

lemma prize_at_mem: "prize_at c n = Ok p \<Longrightarrow> p \<in> set (gc_prizes c)"
  by (auto simp: prize_at_def dest: prize_walk_mem split: if_splits)

lemma sample_prize_mem: "sample_prize sha mac c seed r d = Ok p \<Longrightarrow> p \<in> set (gc_prizes c)"
  by (auto simp: sample_prize_def res_simps dest: prize_at_mem)

text \<open>The symbol a winning tier shows three times.\<close>

definition winning_symbol :: "int \<Rightarrow> string" where
  "winning_symbol multiplier = ''P'' @ json_int multiplier"

lemma scratch_frozen:
  "list_all (\<lambda>e. pz_tier e = ''LOSS'' \<and> pz_multiplier e = 0 \<or> pz_tier e \<noteq> ''LOSS'' \<and> 0 < pz_multiplier e \<and>
     (case scratch_multiset list_draw (pz_tier e) [] of
        Ok (cells, m) \<Rightarrow> m = winning_symbol (pz_multiplier e) \<and> length cells = 9 \<and> count_list cells m = 3 \<and>
          list_all (\<lambda>s. s = m \<or> count_list cells s = 1) cells
      | _ \<Rightarrow> False)) scratch_prizes_v1"
  by code_simp

lemma scratch_loss_cells:
  "list_all (\<lambda>a. list_all (\<lambda>b. a = b \<or>
     list_all (\<lambda>s. s \<noteq> '''' \<and> count_list (scratch_symbols @ [scratch_symbols ! a, scratch_symbols ! b]) s \<le> 2)
       scratch_symbols) [0..<7]) [0..<7]"
  by code_simp

lemma scratch_winning_draw:
  "tier \<noteq> ''LOSS'' \<Longrightarrow> scratch_multiset draw tier s = scratch_multiset list_draw tier []"
  by (simp add: scratch_multiset_def)

lemma count_list_filter: "length (filter (\<lambda>s. s = m) xs) = count_list xs m"
  by (induction xs) auto

lemma count_list_mset: "count_list xs x = count (mset xs) x"
  by (induction xs) auto

lemma length_scratch_symbols: "length scratch_symbols = 7"
  by (simp add: scratch_symbols_def)

lemma scratch_loss:
  assumes "scratch_multiset (uniform_int word) ''LOSS'' s = Ok (cells, m)"
  shows "m = '''' \<and> length cells = 9 \<and> (\<forall>x\<in>set cells. x \<noteq> m \<and> count_list cells x \<le> 2)"
proof -
  obtain a t b t' where d: "uniform_int word s 7 = Ok (a, t)" "uniform_int word t 6 = Ok (b, t')"
    and cells: "m = ''''" "cells = scratch_symbols @ [scratch_symbols ! a, scratch_symbols ! (if b \<ge> a then b + 1 else b)]"
    using assms by (auto simp: scratch_multiset_def res_simps Let_def)
  define b' where "b' = (if b \<ge> a then b + 1 else b)"
  have lt: "a < 7" "b' < 7" "a \<noteq> b'"
    using uniform_int_less[OF d(1)] uniform_int_less[OF d(2)] by (auto simp: b'_def)
  have mem: "scratch_symbols ! a \<in> set scratch_symbols" "scratch_symbols ! b' \<in> set scratch_symbols"
    using lt by (simp_all add: nth_mem length_scratch_symbols)
  have c: "cells = scratch_symbols @ [scratch_symbols ! a, scratch_symbols ! b']" using cells(2) b'_def by simp
  have sub: "set cells \<subseteq> set scratch_symbols" using mem c by auto
  have "a \<in> set [0..<7]" "b' \<in> set [0..<7]" using lt by auto
  then have "list_all (\<lambda>s. s \<noteq> '''' \<and> count_list cells s \<le> 2) scratch_symbols"
    using scratch_loss_cells lt(3) unfolding c list_all_iff by blast
  moreover have "length cells = 9" unfolding c by (simp add: scratch_symbols_def)
  ultimately show ?thesis using cells(1) sub by (auto simp: list_all_iff)
qed

text \<open>The card shows the symbol of its prize exactly three times, or no symbol three times.\<close>

lemma scratch_card_shows:
  assumes "scratch_card sha mac seed r c = Ok res" "prize_table_ok scratch_prizes_v1 (gc_prizes c)"
  shows "length (sk_cells res) = 9"
    "0 < rw_payout (sk_reward res) \<Longrightarrow> length (filter sc_matching (sk_cells res)) = 3 \<and>
       (\<forall>x\<in>set (sk_cells res). sc_matching x \<longleftrightarrow> sc_symbol x = winning_symbol (rw_payout (sk_reward res))) \<and>
       (\<forall>x\<in>set (sk_cells res). \<not> sc_matching x \<longrightarrow> count_list (map sc_symbol (sk_cells res)) (sc_symbol x) = 1)"
    "rw_payout (sk_reward res) \<le> 0 \<Longrightarrow> rw_payout (sk_reward res) = 0 \<and> (\<forall>x\<in>set (sk_cells res). \<not> sc_matching x \<and>
       count_list (map sc_symbol (sk_cells res)) (sc_symbol x) \<le> 2)"
proof -
  let ?draw = "uniform_int (stream_word mac)"
  obtain p fil cells m lay ys t where p: "sample_prize sha mac c seed r ''scratch:prize'' = Ok p"
    and cells: "scratch_multiset ?draw (pz_tier p) fil = Ok (cells, m)"
    and ys: "games_shuffle ?draw lay cells = Ok (ys, t)"
    and res: "res = \<lparr>sk_tier = pz_tier p, sk_cells = map (\<lambda>s. \<lparr>sc_symbol = s, sc_matching = (s = m)\<rparr>) ys,
      sk_reward = reward 1 (pz_multiplier p)\<rparr>"
    using assms(1) by (auto simp: scratch_card_def res_simps)
  have ms: "mset ys = mset cells"
    by (rule uniform.shuffle_mset[OF ys[unfolded games_shuffle_def]])
  then have cnt: "count_list ys x = count_list cells x" for x by (simp add: count_list_mset)
  have sets: "set ys = set cells" "length ys = length cells" using ms by (auto dest: mset_eq_setD mset_eq_length)
  have syms: "map sc_symbol (sk_cells res) = ys" by (simp add: res comp_def)
  have pay: "rw_payout (sk_reward res) = pz_multiplier p" by (simp add: res reward_def)
  obtain e where e: "e \<in> set scratch_prizes_v1" "pz_tier p = pz_tier e" "pz_multiplier p = pz_multiplier e"
    using sample_prize_mem[OF p] assms(2) by (auto simp: prize_table_ok_def)
  have fr: "pz_tier e = ''LOSS'' \<and> pz_multiplier e = 0 \<or> pz_tier e \<noteq> ''LOSS'' \<and> 0 < pz_multiplier e \<and>
     (case scratch_multiset list_draw (pz_tier e) [] of
        Ok (cells, m) \<Rightarrow> m = winning_symbol (pz_multiplier e) \<and> length cells = 9 \<and> count_list cells m = 3 \<and>
          list_all (\<lambda>s. s = m \<or> count_list cells s = 1) cells
      | _ \<Rightarrow> False)"
    using scratch_frozen e(1) unfolding list_all_iff by blast
  have loss: "m = '''' \<and> length cells = 9 \<and> (\<forall>x\<in>set cells. x \<noteq> m \<and> count_list cells x \<le> 2)"
    if "pz_tier e = ''LOSS''" using scratch_loss cells e(2) that by metis
  have win: "m = winning_symbol (pz_multiplier e) \<and> length cells = 9 \<and> count_list cells m = 3 \<and>
      (\<forall>s\<in>set cells. s = m \<or> count_list cells s = 1)" if "pz_tier e \<noteq> ''LOSS''"
  proof -
    have "scratch_multiset list_draw (pz_tier e) [] = Ok (cells, m)"
      using cells scratch_winning_draw[of "pz_tier p" ?draw fil] e(2) that by simp
    then show ?thesis using fr that by (auto simp: list_all_iff)
  qed
  show "length (sk_cells res) = 9" using loss win sets by (auto simp: res)
  show "length (filter sc_matching (sk_cells res)) = 3 \<and>
       (\<forall>x\<in>set (sk_cells res). sc_matching x \<longleftrightarrow> sc_symbol x = winning_symbol (rw_payout (sk_reward res))) \<and>
       (\<forall>x\<in>set (sk_cells res). \<not> sc_matching x \<longrightarrow> count_list (map sc_symbol (sk_cells res)) (sc_symbol x) = 1)"
    if pos: "0 < rw_payout (sk_reward res)"
  proof -
    have w: "m = winning_symbol (pz_multiplier e) \<and> count_list cells m = 3 \<and>
      (\<forall>s\<in>set cells. s = m \<or> count_list cells s = 1)" using win fr pos pay e(3) by auto
    have "length (filter sc_matching (sk_cells res)) = count_list ys m"
      by (simp add: res filter_map comp_def count_list_filter)
    then show ?thesis unfolding syms cnt pay e(3) using w sets(1) by (auto simp: res)
  qed
  show "rw_payout (sk_reward res) = 0 \<and> (\<forall>x\<in>set (sk_cells res). \<not> sc_matching x \<and>
       count_list (map sc_symbol (sk_cells res)) (sc_symbol x) \<le> 2)" if "rw_payout (sk_reward res) \<le> 0"
    unfolding syms cnt using fr that pay e(3) loss sets(1) by (auto simp: res)
qed

subsection \<open>The summon\<close>

lemma summon_loop_Ok:
  "summon_loop draw n i ds h pay = Ok (ds', h', pay') \<Longrightarrow>
     \<exists>new. ds' = ds @ new \<and> length new = n \<and> pay' = pay + sum_list (map dw_multiplier new) \<and>
       (\<forall>k<n. draw (i + int k) = Ok (new ! k)) \<and> h' = foldl (\<lambda>h d. if string_less h (dw_tier d) then dw_tier d else h) h new"
proof (induction n arbitrary: i ds h pay)
  case (Suc n)
  then obtain d where d: "draw i = Ok d" and r: "summon_loop draw n (i + 1) (ds @ [d])
      (if string_less h (dw_tier d) then dw_tier d else h) (pay + dw_multiplier d) = Ok (ds', h', pay')"
    by (auto simp: res_simps)
  from Suc.IH[OF r] obtain new where new: "ds' = (ds @ [d]) @ new" "length new = n"
    "pay' = pay + dw_multiplier d + sum_list (map dw_multiplier new)"
    "\<forall>k<n. draw (i + 1 + int k) = Ok (new ! k)"
    "h' = foldl (\<lambda>h d. if string_less h (dw_tier d) then dw_tier d else h)
      (if string_less h (dw_tier d) then dw_tier d else h) new" by blast
  have "draw (i + int k) = Ok ((d # new) ! k)" if "k < Suc n" for k
    using that d new(4) by (cases k) (auto simp: algebra_simps)
  then show ?case using new by (intro exI[of _ "d # new"]) auto
qed simp

lemma tier_order:
  "list_all (\<lambda>a. list_all (\<lambda>b. string_less (pz_tier a) (pz_tier b) \<longleftrightarrow> pz_multiplier a < pz_multiplier b)
     summon_prizes_v1) summon_prizes_v1"
  by code_simp

definition tier_of :: "int \<Rightarrow> string" where
  "tier_of m = (case find (\<lambda>p. pz_multiplier p = m) summon_prizes_v1 of Some p \<Rightarrow> pz_tier p | None \<Rightarrow> '''')"

lemma tier_of_frozen: "list_all (\<lambda>e. tier_of (pz_multiplier e) = pz_tier e \<and> 0 \<le> pz_multiplier e \<and> pz_multiplier e \<le> 100) summon_prizes_v1"
  by code_simp

lemma tier_fold:
  assumes "\<forall>d\<in>set ds. \<exists>e\<in>set summon_prizes_v1. dw_tier d = pz_tier e \<and> dw_multiplier d = pz_multiplier e"
    "e0 \<in> set summon_prizes_v1"
  shows "foldl (\<lambda>h d. if string_less h (dw_tier d) then dw_tier d else h) (pz_tier e0) ds =
    tier_of (foldl max (pz_multiplier e0) (map dw_multiplier ds))"
  using assms
proof (induction ds arbitrary: e0)
  case Nil
  then show ?case using tier_of_frozen by (auto simp: list_all_iff)
next
  case (Cons d ds)
  then obtain e where e: "e \<in> set summon_prizes_v1" "dw_tier d = pz_tier e" "dw_multiplier d = pz_multiplier e" by auto
  have "string_less (pz_tier e0) (pz_tier e) \<longleftrightarrow> pz_multiplier e0 < pz_multiplier e"
    using tier_order e(1) Cons.prems(2) unfolding list_all_iff by blast
  then show ?case using Cons.IH[of e] Cons.IH[of e0] Cons.prems e by (auto simp: max_def)
qed

text \<open>A summon adds up its independent draws, and names the tier of its best one.\<close>

lemma summon_adds_up:
  assumes "summon sha mac seed r c mode = Ok res" "prize_table_ok summon_prizes_v1 (gc_prizes c)"
  shows "length (sm_draws res) = (if mode = Single then 1 else 10)"
    "rw_cost (sm_reward res) = int (length (sm_draws res))"
    "rw_payout (sm_reward res) = sum_list (map dw_multiplier (sm_draws res))"
    "0 \<le> rw_payout (sm_reward res) \<and> rw_payout (sm_reward res) \<le> 1000"
    "\<forall>k<length (sm_draws res). summon_draw sha mac seed r c (int k + 1) = Ok (sm_draws res ! k)"
    "sm_highest res = tier_of (foldl max 0 (map dw_multiplier (sm_draws res)))"
proof -
  obtain n ds h pay where n: "n = (if mode = Single then 1 else 10)"
    and l: "summon_loop (summon_draw sha mac seed r c) n 1 [] ''T0'' 0 = Ok (ds, h, pay)"
    and res: "res = \<lparr>sm_mode = mode, sm_draws = ds, sm_highest = h, sm_reward = reward (int n) pay\<rparr>"
    using assms(1) by (cases mode) (auto simp: summon_def res_simps)
  from summon_loop_Ok[OF l] have ds: "length ds = n" "pay = sum_list (map dw_multiplier ds)"
    "\<forall>k<n. summon_draw sha mac seed r c (1 + int k) = Ok (ds ! k)"
    "h = foldl (\<lambda>h d. if string_less h (dw_tier d) then dw_tier d else h) ''T0'' ds" by auto
  have mem: "\<exists>e\<in>set summon_prizes_v1. dw_tier d = pz_tier e \<and> dw_multiplier d = pz_multiplier e"
    if d: "d \<in> set ds" for d
  proof -
    obtain k where k: "k < length ds" "ds ! k = d" using d unfolding in_set_conv_nth by blast
    have "summon_draw sha mac seed r c (1 + int k) = Ok (ds ! k)" using ds(3) k(1) unfolding ds(1) by blast
    then have "summon_draw sha mac seed r c (1 + int k) = Ok d" unfolding k(2) .
    then obtain p x where "sample_prize sha mac c seed r x = Ok p" "dw_tier d = pz_tier p" "dw_multiplier d = pz_multiplier p"
      by (auto simp: summon_draw_def res_simps split: if_splits)
    then show ?thesis using sample_prize_mem assms(2) by (fastforce simp: prize_table_ok_def)
  qed
  have range: "0 \<le> dw_multiplier d \<and> dw_multiplier d \<le> 100" if "d \<in> set ds" for d
    using mem[OF that] tier_of_frozen unfolding list_all_iff by fastforce
  have "0 \<le> sum_list (map dw_multiplier xs) \<and> sum_list (map dw_multiplier xs) \<le> 100 * int (length xs)"
    if "set xs \<subseteq> set ds" for xs using that range by (induction xs) fastforce+
  then have "0 \<le> pay" "pay \<le> 100 * int n" using ds(1,2) by auto
  moreover have "n \<le> 10" using n by simp
  ultimately show "0 \<le> rw_payout (sm_reward res) \<and> rw_payout (sm_reward res) \<le> 1000"
    by (simp add: res reward_def)
  obtain e where e: "e \<in> set summon_prizes_v1" "pz_tier e = ''T0''" "pz_multiplier e = 0"
    by (rule that[of "hd summon_prizes_v1"]) (simp_all add: summon_prizes_v1_def)
  have "foldl (\<lambda>h d. if string_less h (dw_tier d) then dw_tier d else h) (pz_tier e) ds =
      tier_of (foldl max (pz_multiplier e) (map dw_multiplier ds))"
    using mem by (intro tier_fold e(1)) blast
  then show "sm_highest res = tier_of (foldl max 0 (map dw_multiplier (sm_draws res)))"
    unfolding e(2,3) by (simp add: res ds(4))
  show "length (sm_draws res) = (if mode = Single then 1 else 10)" using ds(1) n by (simp add: res)
  show "rw_cost (sm_reward res) = int (length (sm_draws res))" using ds(1) by (simp add: res reward_def)
  show "rw_payout (sm_reward res) = sum_list (map dw_multiplier (sm_draws res))" using ds(2) by (simp add: res reward_def)
  show "\<forall>k<length (sm_draws res). summon_draw sha mac seed r c (int k + 1) = Ok (sm_draws res ! k)"
    using ds(1,3) by (simp add: res add.commute)
qed

end
