(* ===== verification/GameSamples.thy ===== *)
theory GameSamples
  imports FairSamples BlackjackFacts SlotReturn DirectFacts
begin

text \<open>Concrete rounds of the games, for the witnesses.\<close>

definition is_ok :: "('e, 'a) res \<Rightarrow> bool" where
  "is_ok r = (case r of Ok _ \<Rightarrow> True | _ \<Rightarrow> False)"

fun the_ok :: "('e, 'a) res \<Rightarrow> 'a" where
  "the_ok (Ok x) = x"

lemma is_ok_the: "is_ok r \<Longrightarrow> r = Ok (the_ok r)"
  by (auto simp: is_ok_def split: res.splits)

subsection \<open>Blackjack\<close>

definition sample_shoe :: "nat list" where
  "sample_shoe = [0..<312]"

lemma sample_shoe_length: "length sample_shoe = 312"
  by (simp add: sample_shoe_def)

lemma sample_shoe_nth: "i < 312 \<Longrightarrow> sample_shoe ! i = i"
  by (simp add: sample_shoe_def)

lemma sample_shoe_hash: "\<exists>h. shoe_hash sample_sha sample_shoe = Ok h"
  using shoe_hash_Ok[OF sample_shoe_length] by (simp add: shoe_ok_def sample_shoe_def atLeast_upt)

definition sample_bj :: "string \<Rightarrow> bj_state" where
  "sample_bj h = \<lparr>initial_hand = ''h1'', created_at = 1, wager = 5000000, hash_of_shoe = h, shoe_index = 4,
     dealt = map (\<lambda>i. \<lparr>c_shoe_index = int i, c_instance = i\<rparr>) [0, 1, 2, 3],
     dealer = map (\<lambda>i. \<lparr>c_shoe_index = int i, c_instance = i\<rparr>) [1, 3], dealer_revealed = False,
     hands = [\<lparr>h_id = ''h1'', h_index = 0, h_parent = '''',
        h_cards = map (\<lambda>i. \<lparr>c_shoe_index = int i, c_instance = i\<rparr>) [0, 2], h_stake = 5000000,
        h_from_split = False, h_split_aces = False, h_natural = False, h_status = Active,
        h_value = \<lparr>hard_total = 4, best_total = 14, soft = True\<rparr>, h_result = '''', h_payout = 0, h_net = 0\<rparr>],
     active_hand = ''h1'', phase = PlayerTurn, bj_version = 1, actions = [], last_action = 1,
     auto_resolve_at = 1 + day, total_stake = 5000000, total_payout = 0, fair_return = 0, net_change = 0,
     class_of = ''''\<rparr>"

lemma sample_bj_new: "\<exists>h. bj_new sample_sha sample_shoe 5000000 ''h1'' 1 = Ok (sample_bj h)"
proof -
  obtain h where "shoe_hash sample_sha sample_shoe = Ok h" using sample_shoe_hash by blast
  then have "bj_new sample_sha sample_shoe 5000000 ''h1'' 1 = Ok (sample_bj h)"
    by (simp add: bj_new_def units_per_chip_def fresh_round_def first_hand_def draw_any_def draw_def
      sample_shoe_length sample_shoe_nth revalue_def value_of_def bj_evaluate_def point_def sample_bj_def Let_def)
  then show ?thesis ..
qed

lemma sample_bj_turn: "phase (sample_bj h) = PlayerTurn" "actions (sample_bj h) = []" "length (dealer (sample_bj h)) = 2"
  "total_stake (sample_bj h) = 5000000" "\<not> dealer_revealed (sample_bj h)" "last_action (sample_bj h) = 1"
  "auto_resolve_at (sample_bj h) = 1 + day" "active_hand (sample_bj h) = ''h1''" "bj_version (sample_bj h) = 1"
  by (simp_all add: sample_bj_def)

lemma sample_bj_legal: "bj_legal (sample_bj h) 10000000 = [Hit, Stand, Double]"
  by (simp add: bj_legal_def sample_bj_def active_index_def point_def max_hands_def)

lemma sample_bj_stand:
  assumes "bj_apply shoe \<lparr>a_id = ''a1'', a_version = 1, a_hand = ''h1'', a_type = Stand, a_new_hand = ''''\<rparr> av 2 False
    (sample_bj h) = Ok (t, x)"
  shows "phase t = BjSettled"
  using assms
  by (auto simp: bj_apply_def sample_bj_def active_index_def act_on_def act_stand_def put_hand_def book_def advance_def
    bj_settle_def Let_def res_simps split: if_splits)

subsection \<open>The slot machine\<close>

lemma sample_spin:
  "\<exists>r. (spin 5000000 (Some (\<lambda>s d n. Ok (7, s))) () fair_config :: (unit slot_error, _) res) = Ok (r, ())"
proof -
  have c: "fair_config \<in> slot_configs" by (simp add: slot_configs_def)
  have w: "validate_wager 5000000 fair_config = (Ok () :: (unit slot_error, unit) res)"
    by (simp add: validate_wager_Ok units_per_chip_def limits)
  have "stops_ok [7, 7, 7, 7, 7]" by (simp add: stops_ok_def)
  from resolve_returns[OF c w this] obtain r where
    "(resolve 5000000 [7, 7, 7, 7, 7] fair_config :: (unit slot_error, _) res) = Ok r" by metis
  then show ?thesis using w by (simp add: spin_def domains_def)
qed

subsection \<open>The direct games\<close>

definition const_sha :: "byte list \<Rightarrow> byte list" where
  "const_sha m = replicate 32 1"

definition round_for :: "game_config \<Rightarrow> round" where
  "round_for c = (let b = gc_binding c in
     sample_round\<lparr>rd_game := ascii (bd_game b), rd_algorithm_version := ascii (bd_algorithm b),
       rd_config_version := ascii (bd_version b), rd_config_hash := bd_hash b, rd_server_seed_hash := replicate 32 1\<rparr>)"

definition bound :: "game_config \<Rightarrow> string \<Rightarrow> game_config" where
  "bound c canon = c\<lparr>gc_binding := (gc_binding c)\<lparr>bd_hash := replicate 32 1\<rparr>, gc_canonical := canon\<rparr>"

lemma round_for_bound: "round_for (bound c canon) = round_for (bound c '''')"
  by (simp add: round_for_def bound_def)

lemma seal_const: "valid_version (bd_version (gc_binding c)) \<Longrightarrow> \<exists>canon. seal_config const_sha c payload = Ok (bound c canon)"
  by (auto simp: seal_config_def bound_def const_sha_def Let_def)

lemma check_bound: "game = bd_game (gc_binding c) \<Longrightarrow> check_round (bound c canon) (round_for (bound c '''')) game = Ok ()"
  by (simp add: check_round_def bound_def round_for_def Let_def)
definition scratch_base :: game_config where
  "scratch_base = zero_config\<lparr>gc_binding := (gc_binding zero_config)\<lparr>bd_game := ''scratch'',
     bd_version := ''c1'', bd_algorithm := ''scratch-map-v1'', bd_ruleset := ''scratch-rules-v1'',
     bd_schema := ''scratch-config-v1'', bd_prize_version := ''scratch-prize-v1''\<rparr>, gc_prizes := scratch_prizes_v1\<rparr>"

definition summon_base :: game_config where
  "summon_base = zero_config\<lparr>gc_binding := (gc_binding zero_config)\<lparr>bd_game := ''summon'',
     bd_version := ''c1'', bd_algorithm := ''summon-map-v1'', bd_ruleset := ''summon-rules-v1'',
     bd_schema := ''summon-config-v1'', bd_prize_version := ''summon-prize-v1'', bd_pool := ''SUMMON_MAIN_V1''\<rparr>,
     gc_prizes := summon_prizes_v1\<rparr>"

definition dice_base :: game_config where
  "dice_base = zero_config\<lparr>gc_binding := (gc_binding zero_config)\<lparr>bd_game := ''dice'', bd_version := ''c1'',
     bd_algorithm := ''dice-map-v1'', bd_ruleset := ''dice-rules-v2'', bd_schema := ''dice-config-v1''\<rparr>,
     gc_dice_counts := [105, 105, 6]\<rparr>"

lemma sample_versions: "valid_version ''c1''" "valid_version ''scratch-prize-v1''" "valid_version ''summon-prize-v1''"
  by code_simp+

lemma sample_tables: "check_prizes scratch_prizes_v1 [] 0 scratch_prizes_v1 = Ok 100000"
  "check_prizes summon_prizes_v1 [] 0 summon_prizes_v1 = Ok 100000"
  by code_simp+

lemma sample_scratch: "\<exists>canon. scratch_v1 const_sha ''c1'' = Ok (bound scratch_base canon)"
  using seal_const[of scratch_base] sample_versions sample_tables(1)
  by (simp add: scratch_v1_def new_scratch_config_def new_prize_config_def scratch_base_def prize_weight_total_def Let_def)

lemma sample_summon: "\<exists>canon. summon_v1 const_sha ''c1'' = Ok (bound summon_base canon)"
  using seal_const[of summon_base] sample_versions sample_tables(2)
  by (simp add: summon_v1_def new_summon_config_def new_prize_config_def summon_base_def prize_weight_total_def Let_def)

lemma sample_dice: "\<exists>canon. dice_v2 const_sha ''c1'' = Ok (bound dice_base canon)"
  using seal_const[of dice_base] sample_versions(1)
  by (simp add: dice_v2_def dice_config_def dice_counts_eq dice_base_def Let_def)
text \<open>A hash whose key stream is constant: every draw succeeds with the same word.\<close>

definition win_mac :: hmac where
  "win_mac k m = replicate 32 2"

definition steady :: "nat \<Rightarrow> stream \<Rightarrow> bool" where
  "steady p s \<longleftrightarrow> (\<exists>seed prefix. stream_inv win_mac seed prefix s \<and> stream_pos s = p)"

lemma steady_draw:
  assumes "steady p s" "p \<le> 1000" "0 < n" "n \<le> 100000"
  shows "\<exists>t. uniform_int (stream_word win_mac) s n = Ok (33686018 mod n, t) \<and> steady (p + 4) t"
proof -
  obtain seed prefix where s: "stream_inv win_mac seed prefix s" "stream_pos s = p" using assms(1) by (auto simp: steady_def)
  have lim: "p + 4 \<le> stream_limit" using assms(2) by (simp add: stream_limit_def max_uint64_def)
  have mac: "hmac_ok win_mac" by (simp add: hmac_ok_def win_mac_def)
  obtain t where t: "stream_read win_mac s 4 = (map (keystream win_mac seed prefix) [p..<p + 4], None, t)"
    "stream_inv win_mac seed prefix t" "stream_pos t = p + 4"
    using stream_read_keystream[OF mac s(1), of 4] lim s(2) by auto
  have "keystream win_mac seed prefix = (\<lambda>_. 2)" by (simp add: keystream_def win_mac_def fun_eq_iff)
  then have "map (keystream win_mac seed prefix) [p..<p + 4] = replicate 4 2" by (simp add: map_replicate_const)
  moreover have "be_val (replicate 4 2) = 33686018" by code_simp
  ultimately have w: "stream_word win_mac s = Ok (33686018, t)" using t(1) by (simp add: stream_word_def)
  have "2 ^ 32 mod n < (100000 :: nat)" using less_le_trans[OF mod_less_divisor[OF assms(3)] assms(4)] .
  then have "33686018 < 2 ^ 32 - (2 ^ 32 :: nat) mod n" by simp
  then have "reject_loop (stream_word win_mac) (uniform_limit n) n s = Some (Ok (33686018 mod n, t))"
    using w by (simp add: reject_loop.simps[of _ _ _ s] uniform_limit_def)
  then show ?thesis using t(2,3) assms(3,4) by (auto simp: uniform_int_def returned_def steady_def)
qed


lemma steady_new: "new_stream sha seed r domain = Ok s \<Longrightarrow> steady 0 s"
  using new_stream_inv[of sha seed r domain s] by (auto simp: steady_def)

lemma steady_shuffle:
  "steady p s \<Longrightarrow> p + 4 * i \<le> 1000 \<Longrightarrow> i < 1000 \<Longrightarrow>
     \<exists>ys t. fy_loop (uniform_int (stream_word win_mac)) i xs s = Ok (ys, t)"
proof (induction i arbitrary: p s xs)
  case (Suc i)
  obtain t where "uniform_int (stream_word win_mac) s (Suc i + 1) = Ok (33686018 mod (Suc i + 1), t)" "steady (p + 4) t"
    using steady_draw[of p s "Suc i + 1"] Suc.prems by auto
  then show ?case using Suc.IH[of "p + 4" t] Suc.prems by simp
qed simp

lemma steady_games_shuffle:
  "steady 0 s \<Longrightarrow> length cells \<le> 100 \<Longrightarrow> \<exists>ys t. games_shuffle (uniform_int (stream_word win_mac)) s cells = Ok (ys, t)"
  unfolding games_shuffle_def by (rule steady_shuffle) auto

lemma steady_prize:
  assumes "prize_table_ok frozen (gc_prizes c)" "is_ok (new_stream sha seed r (ascii domain))"
  shows "\<exists>p. sample_prize sha win_mac c seed r domain = Ok p \<and> prize_at c 86018 = Ok p"
proof -
  from is_ok_the[OF assms(2)] obtain s where s: "new_stream sha seed r (ascii domain) = Ok s" by blast
  obtain t where "uniform_int (stream_word win_mac) s 100000 = Ok (33686018 mod 100000, t)"
    using steady_draw[OF steady_new[OF s], of 100000] by auto
  then show ?thesis using prize_at_returns[OF assms(1), of 86018] s
    by (auto simp: sample_prize_def prize_weight_total_def)
qed


lemma sample_streams:
  "list_all (\<lambda>d. is_ok (new_stream const_sha sample_seed (round_for (bound scratch_base '''')) (ascii d)))
     [''scratch:prize'', ''scratch:filler'', ''scratch:layout'']"
  "list_all (\<lambda>d. is_ok (new_stream const_sha sample_seed (round_for (bound dice_base '''')) (ascii d)))
     [''dice:d1'', ''dice:d2'', ''dice:d3'']"
  "is_ok (new_stream const_sha sample_seed (round_for (bound summon_base '''')) (ascii ''summon:draw:1''))"
  by code_simp+

lemma sample_die:
  assumes "is_ok (new_stream const_sha seed r (ascii domain))"
  shows "roll_die const_sha win_mac seed r domain = Ok 3"
proof -
  from is_ok_the[OF assms] obtain s where s: "new_stream const_sha seed r (ascii domain) = Ok s" by blast
  obtain t where "uniform_int (stream_word win_mac) s 6 = Ok (33686018 mod 6, t)"
    using steady_draw[OF steady_new[OF s], of 6] by auto
  then show ?thesis by (simp add: roll_die_def s)
qed

lemma sample_games: "bd_game (gc_binding scratch_base) = ''scratch''" "bd_game (gc_binding summon_base) = ''summon''"
    "bd_game (gc_binding dice_base) = ''dice''" "gc_prizes (bound scratch_base canon) = scratch_prizes_v1"
    "gc_prizes (bound summon_base canon) = summon_prizes_v1"
  by (simp_all add: scratch_base_def summon_base_def dice_base_def bound_def)

lemma sample_prize_tables: "prize_table_ok scratch_prizes_v1 scratch_prizes_v1" "prize_table_ok summon_prizes_v1 summon_prizes_v1"
  using check_prizes_Ok[OF sample_tables(1)] check_prizes_Ok[OF sample_tables(2)]
  by (auto simp: prize_table_ok_def prize_weight_total_def)

lemma sample_roll:
  obtains c where "dice_v2 const_sha ''c1'' = Ok c"
    "is_ok (roll_dice const_sha win_mac sample_seed (round_for c) c Big)"
proof -
  obtain canon where c: "dice_v2 const_sha ''c1'' = Ok (bound dice_base canon)" using sample_dice by blast
  have "is_ok (evaluate_dice (3, 3, 3) Big)" by code_simp
  from is_ok_the[OF this] obtain e where e: "evaluate_dice (3, 3, 3) Big = Ok e" by blast
  have "is_ok (roll_dice const_sha win_mac sample_seed (round_for (bound dice_base canon)) (bound dice_base canon) Big)"
    using sample_streams(2) check_bound[of _ dice_base canon]
    by (simp add: roll_dice_def sample_die round_for_bound[of _ canon] sample_games e) (simp add: is_ok_def)
  with c show thesis by (rule that)
qed

lemma sample_summons:
  obtains c where "summon_v1 const_sha ''c1'' = Ok c" "prize_table_ok summon_prizes_v1 (gc_prizes c)"
    "is_ok (summon const_sha win_mac sample_seed (round_for c) c Single)"
proof -
  obtain canon where c: "summon_v1 const_sha ''c1'' = Ok (bound summon_base canon)" using sample_summon by blast
  have t: "prize_table_ok summon_prizes_v1 (gc_prizes (bound summon_base canon))"
    by (simp add: sample_games sample_prize_tables)
  have d: "''summon:draw:'' @ json_int 1 = ''summon:draw:1''" by code_simp
  obtain p where "sample_prize const_sha win_mac (bound summon_base canon) sample_seed (round_for (bound summon_base ''''))
      (''summon:draw:'' @ json_int 1) = Ok p"
    using steady_prize[OF t] sample_streams(3) unfolding d by blast
  then have "is_ok (summon const_sha win_mac sample_seed (round_for (bound summon_base canon)) (bound summon_base canon) Single)"
    by (simp add: summon_def summon_draw_def round_for_bound[of _ canon] check_bound[of _ summon_base canon] sample_games
        eval_nat_numeral) (simp add: is_ok_def)
  with c t show thesis by (rule that)
qed

lemma sample_card:
  obtains c where "scratch_v1 const_sha ''c1'' = Ok c" "prize_table_ok scratch_prizes_v1 (gc_prizes c)"
    "is_ok (scratch_card const_sha win_mac sample_seed (round_for c) c)"
proof -
  obtain canon where c: "scratch_v1 const_sha ''c1'' = Ok (bound scratch_base canon)" using sample_scratch by blast
  have t: "prize_table_ok scratch_prizes_v1 (gc_prizes (bound scratch_base canon))"
    by (simp add: sample_games sample_prize_tables)
  let ?r = "round_for (bound scratch_base '''')"
  obtain fil lay where s: "new_stream const_sha sample_seed ?r (ascii ''scratch:filler'') = Ok fil"
    "new_stream const_sha sample_seed ?r (ascii ''scratch:layout'') = Ok lay"
    using sample_streams(1) is_ok_the by (auto simp del: ascii_def)
  obtain p where p: "sample_prize const_sha win_mac (bound scratch_base canon) sample_seed ?r ''scratch:prize'' = Ok p"
    "prize_at (bound scratch_base canon) 86018 = Ok p"
    using steady_prize[OF t, of const_sha sample_seed ?r "''scratch:prize''"] sample_streams(1) by auto
  have "prize_at (bound scratch_base canon) 86018 = Ok \<lparr>pz_multiplier = 2, pz_tier = ''T2'', pz_weight = 18500\<rparr>"
    by (simp add: prize_at_def sample_games scratch_prizes_v1_def prize_weight_total_def uint64_of_def)
  then have tier: "pz_tier p = ''T2''" using p(2) by simp
  have m: "scratch_multiset (uniform_int (stream_word win_mac)) ''T2'' fil = Ok ([''P2'', ''P2'', ''P2''] @
      [''P1'', ''P3'', ''P5'', ''P10'', ''P25'', ''P100''], ''P2'')"
    by (simp add: scratch_multiset_def scratch_prizes_v1_def scratch_symbols_def Let_def)
  obtain ys u where sh: "games_shuffle (uniform_int (stream_word win_mac)) lay ([''P2'', ''P2'', ''P2''] @
      [''P1'', ''P3'', ''P5'', ''P10'', ''P25'', ''P100'']) = Ok (ys, u)"
    using steady_games_shuffle[OF steady_new[OF s(2)], of "[''P2'', ''P2'', ''P2''] @
      [''P1'', ''P3'', ''P5'', ''P10'', ''P25'', ''P100'']"] by (force simp del: append.simps)
  have "is_ok (scratch_card const_sha win_mac sample_seed (round_for (bound scratch_base canon)) (bound scratch_base canon))"
    by (simp add: scratch_card_def round_for_bound[of _ canon] check_bound sample_games p(1) s tier m sh del: append.simps)
      (simp add: is_ok_def)
  with c t show thesis by (rule that)
qed


lemma sample_scratch_statistics: "scratch_v1 const_sha ''c1'' = Ok c \<Longrightarrow> \<exists>st. statistics_of c = Ok st"
  using sample_scratch by (auto simp: statistics_of_def bound_def scratch_base_def Let_def)

lemma sample_dice_statistics: "dice_v2 const_sha ''c1'' = Ok c \<Longrightarrow> \<exists>st. statistics_of c = Ok st"
  using sample_dice by (auto simp: statistics_of_def bound_def dice_base_def Let_def)

end
