(* ===== verification/Roulette.thy ===== *)
theory Roulette
  imports Shuffle
begin

text \<open>
  What the two roulette games share (\<open>src/internal/roulette\<close>): the actions of \<open>types.go\<close> and the
  bounded draws of \<open>fairness.go\<close>. The kinds, targets and items a client may name are strings in
  Go; here they are enumerations with a constructor for every other string.
\<close>

datatype roulette_error = RouletteInput | ActionInvalid | RouletteUnavailable | IndexPanic | Random game_error

datatype action_kind =
    Join | Leave | Ready | Unready | Cancel | Surrender
  | DevilShoot | DevilItem
  | PressureFire | PressurePass | PressureAgain | PressureCharge | PressureUnload | PressureRiposte | PressureVote
  | Timeout | GameLimit | OtherKind string

datatype target = NoTarget | TargetSelf | TargetOpponent | OtherTarget string

datatype item =
    Handcuffs | Adrenaline | Saw | Magnifier | Inverter | Phone | Beer | Cigarette | Medicine
  | NoItem | OtherItem string

record raction =
  ra_kind :: action_kind
  ra_target :: target
  ra_item :: item
  ra_stolen :: item
  ra_agree :: "bool option"

definition plain :: "action_kind \<Rightarrow> raction" where
  "plain k = \<lparr>ra_kind = k, ra_target = NoTarget, ra_item = NoItem, ra_stolen = NoItem, ra_agree = None\<rparr>"

definition item_order :: "item list" where
  "item_order = [Handcuffs, Adrenaline, Saw, Magnifier, Inverter, Phone, Beer, Cigarette, Medicine]"

definition valid_item :: "item \<Rightarrow> bool" where
  "valid_item i \<longleftrightarrow> i \<in> set item_order"

definition bare_action :: "raction \<Rightarrow> bool" where
  "bare_action a \<longleftrightarrow> ra_target a = NoTarget \<and> ra_item a = NoItem \<and> ra_stolen a = NoItem \<and> ra_agree a = None"

definition valid_action :: "raction \<Rightarrow> bool \<Rightarrow> bool" where
  "valid_action a internal =
     (case ra_kind a of
        DevilShoot \<Rightarrow> (ra_target a = TargetSelf \<or> ra_target a = TargetOpponent) \<and> ra_item a = NoItem \<and>
          ra_stolen a = NoItem \<and> ra_agree a = None
      | DevilItem \<Rightarrow> ra_target a = NoTarget \<and> ra_agree a = None \<and> valid_item (ra_item a) \<and>
          (ra_item a = Adrenaline \<and> valid_item (ra_stolen a) \<and> ra_stolen a \<noteq> Adrenaline \<or>
           ra_item a \<noteq> Adrenaline \<and> ra_stolen a = NoItem)
      | PressureVote \<Rightarrow> ra_agree a \<noteq> None \<and> ra_target a = NoTarget \<and> ra_item a = NoItem \<and> ra_stolen a = NoItem
      | Timeout \<Rightarrow> internal \<and> bare_action a
      | GameLimit \<Rightarrow> internal \<and> bare_action a
      | OtherKind _ \<Rightarrow> False
      | _ \<Rightarrow> bare_action a)"

lemma bindr_Fail_iff: "bindr r f = Fail e \<longleftrightarrow> r = Fail e \<or> (\<exists>x. r = Ok x \<and> f x = Fail e)"
  by (cases r) auto

text \<open>\<open>randomInt\<close>: the shared rejection sampler, whose errors pass through.\<close>

definition random_int ::
  "('s \<Rightarrow> (game_error, nat \<times> 's) res) \<Rightarrow> 's \<Rightarrow> nat \<Rightarrow> (roulette_error, nat \<times> 's) res" where
  "random_int word s n = (case uniform_int word s n of Ok r \<Rightarrow> Ok r | Fail e \<Rightarrow> Fail (Random e) | Hang \<Rightarrow> Hang)"

text \<open>A draw of the rules between 1 and 2^32 only fails when the source of words does: the sampler
  interface every rule is verified against adds that a failing draw in this range reports an
  error of the source. Whoever draws below 0 or beyond the range cannot appeal to it.\<close>

locale rule_sampler = sampler draw
  for draw :: "'s \<Rightarrow> nat \<Rightarrow> (roulette_error, nat \<times> 's) res" +
  fixes source :: "roulette_error \<Rightarrow> bool"
  assumes draw_source: "draw s n = Fail e \<Longrightarrow> 0 < n \<Longrightarrow> n \<le> 2 ^ 32 \<Longrightarrow> source e"
begin

lemma fy_loop_source: "fy_loop draw i xs s = Fail e \<Longrightarrow> i < 2 ^ 32 \<Longrightarrow> source e"
proof (induction i arbitrary: xs s)
  case (Suc i)
  then show ?case using draw_source[of s "Suc i + 1" e]
    by (auto elim!: bindr.elims split: prod.splits)
qed simp

lemma shuffle_source: "roulette_shuffle draw s xs = Fail e \<Longrightarrow> length xs \<le> 2 ^ 32 \<Longrightarrow> source e"
  unfolding roulette_shuffle_def by (rule fy_loop_source) auto

lemma roulette_shuffle_mset: "roulette_shuffle draw s xs = Ok (ys, s') \<Longrightarrow> mset ys = mset xs"
  unfolding roulette_shuffle_def by (rule shuffle_mset)

end

interpretation roulette: rule_sampler "random_int word" "\<lambda>e. \<exists>g r. e = Random g \<and> word r = Fail g" for word
proof unfold_locales
  fix s n v s'
  assume "random_int word s n = Ok (v, s')"
  then have "uniform_int word s n = Ok (v, s')" by (auto simp: random_int_def split: res.splits)
  then show "v < n" by (rule uniform_int_less)
next
  fix s n e
  assume "random_int word s n = Fail e" "0 < n" "n \<le> 2 ^ 32"
  then obtain g where "e = Random g" "uniform_int word s n = Fail g" by (auto simp: random_int_def split: res.splits)
  from uniform_int_fail[OF this(2) \<open>0 < n\<close> \<open>n \<le> 2 ^ 32\<close>] \<open>e = Random g\<close>
  show "\<exists>g r. e = Random g \<and> word r = Fail g" by auto
qed

end
