(* ===== verification/Devil.thy ===== *)
theory Devil
  imports Roulette
begin

text \<open>
  Devil roulette (\<open>src/internal/roulette/devil.go\<close>), the duel of two seats over a hidden
  magazine. The two-element arrays of the state are lists of length two, the maps of known
  shells partial functions, and the event text is the list of the sentences it is put
  together from. An index out of range, where Go panics, is the error \<open>IndexPanic\<close>.
\<close>

datatype devil_event =
    EvOpened | EvLimit | EvSurrendered | EvHit nat nat int | EvBlank nat nat | EvReloaded
  | EvUsed nat item | EvEjected bool

record devil_state =
  dv_hp :: "int list"
  dv_items :: "item list list"
  dv_known :: "(nat \<Rightarrow> bool option) list"
  dv_shells :: "bool list"
  dv_pointer :: nat
  dv_turn :: nat
  dv_first :: nat
  dv_saw :: bool
  dv_cuffed :: "bool list"
  dv_obscured :: bool
  dv_ended :: bool
  dv_eligible :: "nat list"
  dv_forfeited :: "bool list"
  dv_event :: "devil_event list"

definition item_weights :: "nat list" where
  "item_weights = [2, 2, 2, 3, 4, 4, 4, 5, 5]"

definition exclusive_groups :: "item list list" where
  "exclusive_groups = [[Cigarette, Medicine], [Saw, Handcuffs, Adrenaline]]"

definition item_max :: "item \<Rightarrow> nat" where
  "item_max i = (if i \<in> {Saw, Handcuffs, Adrenaline, Inverter, Cigarette, Medicine} then 1 else 2)"

definition acquire :: "item list \<Rightarrow> item \<Rightarrow> bool" where
  "acquire held i \<longleftrightarrow> \<not> count_list held i \<ge> item_max i \<and>
     \<not> list_ex (\<lambda>group. i \<in> set group \<and> list_ex (\<lambda>v. v \<in> set group) held) exclusive_groups"

text \<open>The two loops of a dealt item: the total weight of the items the seat may take, and the
  walk that subtracts weights from the drawn number.\<close>

definition offer :: "item list \<Rightarrow> (item \<times> nat) list" where
  "offer held = filter (\<lambda>(i, w). acquire held i) (zip item_order item_weights)"

fun pick_item :: "(item \<times> nat) list \<Rightarrow> int \<Rightarrow> item list" where
  "pick_item [] n = []"
| "pick_item ((i, w) # rest) n = (if n - int w < 0 then [i] else pick_item rest (n - int w))"

fun deal_items ::
  "('s \<Rightarrow> nat \<Rightarrow> (roulette_error, nat \<times> 's) res) \<Rightarrow> nat \<Rightarrow> item list \<Rightarrow> 's \<Rightarrow> (roulette_error, item list \<times> 's) res" where
  "deal_items draw 0 held r = Ok (held, r)"
| "deal_items draw (Suc n) held r =
     (if length held = 4 then Ok (held, r)
      else let total = sum_list (map snd (offer held)) in
        if total = 0 then Ok (held, r)
        else bindr (draw r total) (\<lambda>(v, r). deal_items draw n (held @ pick_item (offer held) (int v)) r))"

definition devil_reload ::
  "('s \<Rightarrow> nat \<Rightarrow> (roulette_error, nat \<times> 's) res) \<Rightarrow> bool \<Rightarrow> devil_state \<Rightarrow> 's \<Rightarrow>
     (roulette_error, devil_state \<times> 's) res" where
  "devil_reload draw alternate s r =
     bindr (draw r 4) (\<lambda>(n, r).
       let n = n + 5; lo = (4 * n + 5) div 10; hi = (6 * n + 5) div 10 in
     bindr (draw r (hi - lo + 1)) (\<lambda>(live, r).
       let live = live + lo in
     bindr (roulette_shuffle draw r (map (\<lambda>i. i < live) [0..<n])) (\<lambda>(shells, r).
     bindr (draw r 2) (\<lambda>(count, r).
       let count = count + 2 in
     bindr (deal_items draw count (dv_items s ! 0) r) (\<lambda>(items0, r).
     bindr (deal_items draw count (dv_items s ! 1) r) (\<lambda>(items1, r).
       let s = s\<lparr>dv_shells := shells, dv_pointer := 0, dv_obscured := False,
                 dv_known := [\<lambda>_. None, \<lambda>_. None], dv_items := [items0, items1]\<rparr>
       in Ok (if alternate then s\<lparr>dv_cuffed := [False, False], dv_first := 1 - dv_first s,
                                 dv_turn := 1 - dv_first s\<rparr> else s, r)))))))"

definition new_devil ::
  "('s \<Rightarrow> nat \<Rightarrow> (roulette_error, nat \<times> 's) res) \<Rightarrow> 's \<Rightarrow> (roulette_error, devil_state \<times> 's) res" where
  "new_devil draw r =
     (let s = \<lparr>dv_hp = [4, 4], dv_items = [[], []], dv_known = [\<lambda>_. None, \<lambda>_. None], dv_shells = [],
               dv_pointer = 0, dv_turn = 0, dv_first = 0, dv_saw = False, dv_cuffed = [False, False],
               dv_obscured = False, dv_ended = False, dv_eligible = [], dv_forfeited = [False, False],
               dv_event = []\<rparr>
      in bindr (devil_reload draw False s r) (\<lambda>(s, r).
         bindr (draw r 2) (\<lambda>(turn, r). Ok (s\<lparr>dv_turn := turn, dv_first := turn, dv_event := [EvOpened]\<rparr>, r))))"

definition item_legal :: "devil_state \<Rightarrow> nat \<Rightarrow> item \<Rightarrow> bool" where
  "item_legal s seat i \<longleftrightarrow> \<not> (\<not> valid_item i \<or> i = Adrenaline) \<and>
     \<not> (i = Phone \<and> dv_pointer s + 1 \<ge> length (dv_shells s) \<or>
        i = Handcuffs \<and> (dv_pointer s + 1 \<ge> length (dv_shells s) \<or> dv_cuffed s ! (1 - seat)))"

definition use_item :: "item \<Rightarrow> item \<Rightarrow> raction" where
  "use_item i stolen = (plain DevilItem)\<lparr>ra_item := i, ra_stolen := stolen\<rparr>"

definition shoot :: "target \<Rightarrow> raction" where
  "shoot t = (plain DevilShoot)\<lparr>ra_target := t\<rparr>"

definition devil_item_actions :: "devil_state \<Rightarrow> nat \<Rightarrow> item \<Rightarrow> raction list" where
  "devil_item_actions s seat i =
     (if i = Adrenaline
      then map (use_item i) (filter (\<lambda>other. valid_item other \<and> other \<noteq> Adrenaline) (rev (remdups (rev (dv_items s ! (1 - seat))))))
      else if item_legal s seat i then [use_item i NoItem] else [])"

definition devil_actions :: "devil_state \<Rightarrow> int \<Rightarrow> raction list" where
  "devil_actions s seat =
     (if dv_ended s \<or> seat < 0 \<or> seat > 1 then []
      else plain Surrender #
        (if nat seat \<noteq> dv_turn s then []
         else [shoot TargetSelf, shoot TargetOpponent] @
              concat (map (devil_item_actions s (nat seat)) (rev (remdups (rev (dv_items s ! nat seat)))))))"

text \<open>Passing the turn skips a cuffed seat once for each of the two rounds of the loop.\<close>

fun turn_loop :: "nat \<Rightarrow> bool list \<Rightarrow> nat \<Rightarrow> bool list \<times> nat" where
  "turn_loop 0 cuffed seat = (cuffed, seat)"
| "turn_loop (Suc n) cuffed seat =
     (if \<not> cuffed ! seat then (cuffed, seat) else turn_loop n (cuffed[seat := False]) (1 - seat))"

definition pass_turn :: "nat \<Rightarrow> devil_state \<Rightarrow> devil_state" where
  "pass_turn seat s = (let (c, t) = turn_loop 2 (dv_cuffed s) seat in s\<lparr>dv_cuffed := c, dv_turn := t\<rparr>)"

definition consume :: "devil_state \<Rightarrow> devil_state" where
  "consume s = s\<lparr>dv_known := map (\<lambda>k. k(dv_pointer s := None)) (dv_known s), dv_pointer := dv_pointer s + 1,
     dv_obscured := False\<rparr>"

definition devil_finish :: "devil_state \<Rightarrow> devil_state" where
  "devil_finish s = fold (\<lambda>i s. if dv_hp s ! i \<le> 0 \<or> dv_forfeited s ! i
     then s\<lparr>dv_ended := True, dv_eligible := [1 - i]\<rparr> else s) [0, 1] s"

text \<open>\<open>slices.Delete(items, index, index+1)\<close> panics at index \<open>-1\<close>.\<close>

definition remove_item :: "item list \<Rightarrow> item \<Rightarrow> (roulette_error, item list) res" where
  "remove_item held i = (if i \<in> set held then Ok (remove1 i held) else Fail IndexPanic)"

definition set_hp :: "nat \<Rightarrow> int \<Rightarrow> devil_state \<Rightarrow> devil_state" where
  "set_hp seat v s = s\<lparr>dv_hp := (dv_hp s)[seat := v]\<rparr>"

definition know :: "nat \<Rightarrow> nat \<Rightarrow> devil_state \<Rightarrow> devil_state" where
  "know seat i s = s\<lparr>dv_known := (dv_known s)[seat := (dv_known s ! seat)(i := Some (dv_shells s ! i))]\<rparr>"

definition devil_say :: "devil_event list \<Rightarrow> devil_state \<Rightarrow> devil_state" where
  "devil_say es s = s\<lparr>dv_event := dv_event s @ es\<rparr>"

text \<open>After a shell left the magazine: an empty one is reloaded and the first turn alternates.\<close>

definition refill_empty ::
  "('s \<Rightarrow> nat \<Rightarrow> (roulette_error, nat \<times> 's) res) \<Rightarrow> devil_state \<Rightarrow> 's \<Rightarrow> (roulette_error, devil_state \<times> 's) res" where
  "refill_empty draw s r = bindr (devil_reload draw True s r) (\<lambda>(s, r). Ok (devil_say [EvReloaded] s, r))"

definition devil_shoot ::
  "('s \<Rightarrow> nat \<Rightarrow> (roulette_error, nat \<times> 's) res) \<Rightarrow> nat \<Rightarrow> target \<Rightarrow> devil_state \<Rightarrow> 's \<Rightarrow>
     (roulette_error, devil_state \<times> 's) res" where
  "devil_shoot draw seat t s r =
     (if dv_pointer s \<ge> length (dv_shells s) then Fail IndexPanic
      else let hit = dv_shells s ! dv_pointer s;
               target = (if t = TargetSelf then seat else 1 - seat);
               damage = (if dv_saw s then 2 else 1);
               s = consume (s\<lparr>dv_saw := False\<rparr>);
               s = (if hit then (set_hp target (max 0 (dv_hp s ! target - damage)) s)\<lparr>dv_event := [EvHit (seat + 1) (target + 1) damage]\<rparr>
                    else s\<lparr>dv_event := [EvBlank (seat + 1) (target + 1)]\<rparr>);
               s = devil_finish s
           in if dv_ended s then Ok (s, r)
              else if dv_pointer s = length (dv_shells s) then refill_empty draw s r
              else Ok (pass_turn (if \<not> hit \<and> t = TargetSelf then seat else 1 - seat) s, r))"

text \<open>The shells a phone may reveal: the unknown future ones, or any future one.\<close>

definition phone_choices :: "devil_state \<Rightarrow> nat \<Rightarrow> nat list" where
  "phone_choices s seat =
     (let future = [dv_pointer s + 1..<length (dv_shells s)];
          unknown = filter (\<lambda>i. (dv_known s ! seat) i = None) future
      in if unknown \<noteq> [] then unknown else future)"

definition flip_known :: "nat \<Rightarrow> (nat \<Rightarrow> bool option) \<Rightarrow> nat \<Rightarrow> bool option" where
  "flip_known p k = (case k p of Some v \<Rightarrow> k(p := Some (\<not> v)) | None \<Rightarrow> k)"

definition devil_effect ::
  "('s \<Rightarrow> nat \<Rightarrow> (roulette_error, nat \<times> 's) res) \<Rightarrow> nat \<Rightarrow> item \<Rightarrow> devil_state \<Rightarrow> 's \<Rightarrow>
     (roulette_error, devil_state \<times> 's) res" where
  "devil_effect draw seat i s r =
     (case i of
        Magnifier \<Rightarrow> if dv_pointer s \<ge> length (dv_shells s) then Fail IndexPanic else Ok (know seat (dv_pointer s) s, r)
      | Phone \<Rightarrow>
          (let choices = phone_choices s seat in
           if choices = [] then Ok (s, r)
           else bindr (draw r (length choices)) (\<lambda>(v, r). Ok (know seat (choices ! v) s, r)))
      | Saw \<Rightarrow> Ok (s\<lparr>dv_saw := True\<rparr>, r)
      | Handcuffs \<Rightarrow> Ok (s\<lparr>dv_cuffed := (dv_cuffed s)[1 - seat := True]\<rparr>, r)
      | Cigarette \<Rightarrow> Ok (set_hp seat (min 4 (dv_hp s ! seat + 1)) s, r)
      | Medicine \<Rightarrow>
          bindr (draw r 5) (\<lambda>(v, r).
            Ok (devil_finish (set_hp seat (if v < 2 then min 4 (dv_hp s ! seat + 2) else dv_hp s ! seat - 1) s), r))
      | Inverter \<Rightarrow>
          if dv_pointer s \<ge> length (dv_shells s) then Fail IndexPanic
          else Ok (s\<lparr>dv_shells := (dv_shells s)[dv_pointer s := \<not> dv_shells s ! dv_pointer s], dv_obscured := True,
                     dv_known := map (flip_known (dv_pointer s)) (dv_known s)\<rparr>, r)
      | Beer \<Rightarrow>
          if dv_pointer s \<ge> length (dv_shells s) then Fail IndexPanic
          else let live = dv_shells s ! dv_pointer s; s = devil_say [EvEjected live] (consume s)
               in if dv_pointer s = length (dv_shells s) then refill_empty draw s r else Ok (s, r)
      | _ \<Rightarrow> Ok (s, r))"

definition devil_item ::
  "('s \<Rightarrow> nat \<Rightarrow> (roulette_error, nat \<times> 's) res) \<Rightarrow> nat \<Rightarrow> raction \<Rightarrow> devil_state \<Rightarrow> 's \<Rightarrow>
     (roulette_error, devil_state \<times> 's) res" where
  "devil_item draw seat a s r =
     bindr (remove_item (dv_items s ! seat) (ra_item a)) (\<lambda>mine.
       let s = s\<lparr>dv_items := (dv_items s)[seat := mine]\<rparr> in
     bindr (if ra_item a = Adrenaline
            then bindr (remove_item (dv_items s ! (1 - seat)) (ra_stolen a)) (\<lambda>theirs.
                   Ok (ra_stolen a, s\<lparr>dv_items := (dv_items s)[1 - seat := theirs]\<rparr>))
            else Ok (ra_item a, s)) (\<lambda>(i, s).
       devil_effect draw seat i (s\<lparr>dv_event := [EvUsed (seat + 1) i]\<rparr>) r))"

definition apply_devil ::
  "('s \<Rightarrow> nat \<Rightarrow> (roulette_error, nat \<times> 's) res) \<Rightarrow> devil_state \<Rightarrow> int \<Rightarrow> raction \<Rightarrow> 's \<Rightarrow>
     (roulette_error, devil_state \<times> 's) res" where
  "apply_devil draw s seat a r =
     (if \<not> valid_action a True \<or> seat < 0 \<or> seat > 1 \<or> dv_ended s then Fail ActionInvalid
      else let a = (if ra_kind a = Timeout then shoot TargetOpponent else a) in
        if ra_kind a \<noteq> GameLimit \<and> a \<notin> set (devil_actions s seat) then Fail ActionInvalid
        else let s = s\<lparr>dv_event := []\<rparr> in
          case ra_kind a of
            GameLimit \<Rightarrow> Ok (s\<lparr>dv_ended := True, dv_eligible := [0, 1], dv_event := [EvLimit]\<rparr>, r)
          | Surrender \<Rightarrow> Ok ((devil_finish (s\<lparr>dv_forfeited := (dv_forfeited s)[nat seat := True]\<rparr>))
                              \<lparr>dv_event := [EvSurrendered]\<rparr>, r)
          | DevilShoot \<Rightarrow> devil_shoot draw (nat seat) (ra_target a) s r
          | DevilItem \<Rightarrow> devil_item draw (nat seat) a s r
          | _ \<Rightarrow> Fail ActionInvalid)"

record devil_view =
  vw_remaining :: int
  vw_live :: "int option"
  vw_blank :: "int option"
  vw_saw :: bool
  vw_cuffed :: "bool list"

definition devil_public :: "devil_state \<Rightarrow> devil_view" where
  "devil_public s =
     (let remaining = int (length (dv_shells s)) - int (dv_pointer s);
          live = int (length (filter id (drop (dv_pointer s) (dv_shells s))))
      in \<lparr>vw_remaining = remaining, vw_live = (if dv_obscured s then None else Some live),
          vw_blank = (if dv_obscured s then None else Some (remaining - live)),
          vw_saw = dv_saw s, vw_cuffed = dv_cuffed s\<rparr>)"

end
