(* ===== verification/DevilFacts.thy ===== *)
theory DevilFacts
  imports Devil
begin

text \<open>
  Devil roulette keeps its invariant: lives between 0 and 4, item hands within their limits,
  intelligence that tells the truth about the shells still in the magazine, a shell to fire
  as long as the duel runs, and a verdict that fits the lives when it ends. From it: no step
  runs into a panic, and every action a player is offered is carried out.
\<close>

definition hand_limits :: "item list \<Rightarrow> bool" where
  "hand_limits held \<longleftrightarrow> length held \<le> 4 \<and> set held \<subseteq> set item_order \<and> (\<forall>x. count_list held x \<le> item_max x) \<and>
     (\<forall>g\<in>set exclusive_groups. length (filter (\<lambda>v. v \<in> set g) held) \<le> 1)"

definition truthful :: "bool list \<Rightarrow> nat \<Rightarrow> (nat \<Rightarrow> bool option) \<Rightarrow> bool" where
  "truthful shells p k \<longleftrightarrow> (\<forall>i v. k i = Some v \<longrightarrow> p \<le> i \<and> i < length shells \<and> shells ! i = v)"

definition devil_sizes :: "devil_state \<Rightarrow> bool" where
  "devil_sizes s \<longleftrightarrow> length (dv_hp s) = 2 \<and> length (dv_items s) = 2 \<and> length (dv_known s) = 2 \<and>
     length (dv_cuffed s) = 2 \<and> length (dv_forfeited s) = 2 \<and> dv_turn s \<le> 1 \<and> dv_first s \<le> 1"

definition devil_lives :: "devil_state \<Rightarrow> bool" where
  "devil_lives s \<longleftrightarrow> (\<forall>h\<in>set (dv_hp s). 0 \<le> h \<and> h \<le> 4)"

definition devil_hands :: "devil_state \<Rightarrow> bool" where
  "devil_hands s \<longleftrightarrow> (\<forall>held\<in>set (dv_items s). hand_limits held)"

definition devil_knows :: "devil_state \<Rightarrow> bool" where
  "devil_knows s \<longleftrightarrow> (\<forall>k\<in>set (dv_known s). truthful (dv_shells s) (dv_pointer s) k)"

definition devil_out :: "devil_state \<Rightarrow> nat \<Rightarrow> bool" where
  "devil_out s i \<longleftrightarrow> dv_hp s ! i \<le> 0 \<or> dv_forfeited s ! i"

definition devil_running :: "devil_state \<Rightarrow> bool" where
  "devil_running s \<longleftrightarrow> \<not> dv_ended s \<and> dv_eligible s = [] \<and> \<not> devil_out s 0 \<and> \<not> devil_out s 1"

definition devil_over :: "devil_state \<Rightarrow> bool" where
  "devil_over s \<longleftrightarrow> dv_ended s \<and>
     (dv_eligible s = [0, 1] \<and> \<not> devil_out s 0 \<and> \<not> devil_out s 1 \<or>
      (\<exists>w\<in>{0, 1}. dv_eligible s = [w] \<and> \<not> devil_out s w \<and> devil_out s (1 - w)))"

definition devil_inv :: "devil_state \<Rightarrow> bool" where
  "devil_inv s \<longleftrightarrow> devil_sizes s \<and> devil_lives s \<and> devil_hands s \<and> devil_knows s \<and>
     dv_pointer s \<le> length (dv_shells s) \<and> length (dv_shells s) \<le> 8 \<and>
     (devil_running s \<and> dv_pointer s < length (dv_shells s) \<or> devil_over s)"

lemmas devil_inv_defs = devil_inv_def devil_sizes_def devil_lives_def devil_hands_def devil_knows_def

lemma two: "length xs = 2 \<Longrightarrow> \<exists>a b. xs = [a, b]"
  by (cases xs; cases "tl xs") auto

lemma set_two: "length xs = 2 \<Longrightarrow> set xs = {xs ! 0, xs ! 1}"
  using two[of xs] by auto

subsection \<open>Dealing items\<close>

lemma pick_item_mem: "0 \<le> n \<Longrightarrow> n < int (sum_list (map snd ws)) \<Longrightarrow> \<exists>i\<in>fst ` set ws. pick_item ws n = [i]"
proof (induction ws n rule: pick_item.induct)
  case (2 i w rest n)
  then show ?case by (cases "n - int w < 0") auto
qed simp

lemma offer_acquire: "i \<in> fst ` set (offer held) \<Longrightarrow> acquire held i \<and> i \<in> set item_order"
  by (auto simp: offer_def dest: set_zip_leftD)

lemma hand_limits_snoc:
  assumes "hand_limits held" "acquire held i" "i \<in> set item_order" "length held \<noteq> 4"
  shows "hand_limits (held @ [i])"
proof -
  have g: "length (filter (\<lambda>v. v \<in> set g) (held @ [i])) \<le> 1" if "g \<in> set exclusive_groups" for g
  proof (cases "i \<in> set g")
    case True
    then have "\<not> list_ex (\<lambda>v. v \<in> set g) held" using assms(2) that by (auto simp: acquire_def list_ex_iff)
    then have "filter (\<lambda>v. v \<in> set g) held = []" by (auto simp: list_ex_iff filter_empty_conv)
    then show ?thesis by simp
  next
    case False
    then show ?thesis using assms(1) that by (simp add: hand_limits_def)
  qed
  have "count_list (held @ [i]) x \<le> item_max x" for x
    using assms(1,2) by (auto simp: hand_limits_def acquire_def)
  then show ?thesis using assms g by (simp add: hand_limits_def)
qed

lemma hand_limits_remove: "hand_limits held \<Longrightarrow> hand_limits (remove1 i held)"
proof -
  assume h: "hand_limits held"
  have len: "length (filter P (remove1 i held)) \<le> length (filter P held)" for P
    by (induction held) auto
  have cnt: "count_list (remove1 i held) x \<le> count_list held x" for x
    by (induction held) auto
  have "length (remove1 i held) \<le> 4" "set (remove1 i held) \<subseteq> set item_order"
    using h set_remove1_subset[of i held] by (auto simp: hand_limits_def length_remove1)
  moreover have "count_list (remove1 i held) x \<le> item_max x" for x
    using h cnt[of x] unfolding hand_limits_def by (meson le_trans)
  moreover have "length (filter (\<lambda>v. v \<in> set g) (remove1 i held)) \<le> 1" if "g \<in> set exclusive_groups" for g
    using h len[of "\<lambda>v. v \<in> set g"] that unfolding hand_limits_def by (meson le_trans)
  ultimately show ?thesis by (simp add: hand_limits_def)
qed

lemma offer_total: "sum_list (map snd (offer held)) \<le> 31"
proof -
  have "sum_list (map snd (offer held)) \<le> sum_list (map snd (zip item_order item_weights))"
    unfolding offer_def by (rule sum_list_filter_le_nat)
  then show ?thesis by (simp add: item_order_def item_weights_def)
qed

context rule_sampler
begin

lemma deal_items_limits:
  "hand_limits held \<Longrightarrow> deal_items draw n held r = Ok (held', r') \<Longrightarrow> hand_limits held'"
proof (induction n arbitrary: held r)
  case (Suc n)
  show ?case
  proof (cases "length held = 4 \<or> sum_list (map snd (offer held)) = 0")
    case True
    then have "deal_items draw (Suc n) held r = Ok (held, r)" by auto
    then show ?thesis using Suc.prems by simp
  next
    case False
    let ?t = "sum_list (map snd (offer held))"
    have "deal_items draw (Suc n) held r =
        bindr (draw r ?t) (\<lambda>(v, r). deal_items draw n (held @ pick_item (offer held) (int v)) r)"
      using False by (simp add: Let_def del: sum_list_eq_0_iff)
    then obtain v r2 where v: "draw r ?t = Ok (v, r2)"
      "deal_items draw n (held @ pick_item (offer held) (int v)) r2 = Ok (held', r')"
      using Suc.prems(2) by (auto simp: res_simps)
    have "v < ?t" using v(1) by (rule draw_less)
    then obtain i where i: "i \<in> fst ` set (offer held)" "pick_item (offer held) (int v) = [i]"
      using pick_item_mem[of "int v" "offer held"] by auto
    have "hand_limits (held @ [i])"
      using hand_limits_snoc[OF Suc.prems(1)] offer_acquire[OF i(1)] False by blast
    then show ?thesis using Suc.IH v(2) i(2) by simp
  qed
qed simp

lemma deal_items_fail: "deal_items draw n held r = Fail e \<Longrightarrow> source e"
proof (induction n arbitrary: held r)
  case (Suc n)
  let ?t = "sum_list (map snd (offer held))"
  have ne: "\<not> (length held = 4 \<or> ?t = 0)"
  proof
    assume "length held = 4 \<or> ?t = 0"
    then have "deal_items draw (Suc n) held r = Ok (held, r)" by auto
    then show False using Suc.prems by simp
  qed
  then have t: "0 < ?t" by linarith
  have "bindr (draw r ?t) (\<lambda>(v, r). deal_items draw n (held @ pick_item (offer held) (int v)) r) = Fail e"
    using Suc.prems ne by (simp add: Let_def del: sum_list_eq_0_iff)
  then consider "draw r ?t = Fail e" | v r2 where "deal_items draw n (held @ pick_item (offer held) (int v)) r2 = Fail e"
    by (auto simp: bindr_Fail_iff)
  then show ?case
  proof cases
    case 1
    then show ?thesis using draw_source[OF 1 t] offer_total[of held] by simp
  next
    case 2
    then show ?thesis by (rule Suc.IH)
  qed
qed simp

end


declare deal_items.simps [simp del]

subsection \<open>Reloading\<close>

definition live_count :: "bool list \<Rightarrow> nat" where
  "live_count shells = length (filter id shells)"

lemma live_count_mset: "mset xs = mset ys \<Longrightarrow> live_count xs = live_count ys"
  unfolding live_count_def by (metis mset_filter size_mset)

lemma live_count_prefix: "live \<le> n \<Longrightarrow> live_count (map (\<lambda>i. i < live) [0..<n]) = live"
proof -
  assume "live \<le> n"
  then have "[0..<n] = [0..<live] @ [live..<n]" by (metis le_add_diff_inverse upt_add_eq_append zero_le)
  then have "filter (\<lambda>i. i < live) [0..<n] = [0..<live]" by (simp add: filter_empty_conv)
  then show ?thesis by (simp add: live_count_def filter_map comp_def id_def)
qed

context rule_sampler
begin

lemma devil_reload_Ok:
  assumes "devil_reload draw alternate s r = Ok (s', r')" "length (dv_items s) = 2" "devil_hands s"
  obtains shells items0 items1 where
    "5 \<le> length shells" "length shells \<le> 8"
    "(4 * length shells + 5) div 10 \<le> live_count shells" "live_count shells \<le> (6 * length shells + 5) div 10"
    "hand_limits items0" "hand_limits items1"
    "s' = (let t = s\<lparr>dv_shells := shells, dv_pointer := 0, dv_obscured := False,
                      dv_known := [\<lambda>_. None, \<lambda>_. None], dv_items := [items0, items1]\<rparr>
           in if alternate then t\<lparr>dv_cuffed := [False, False], dv_first := 1 - dv_first s, dv_turn := 1 - dv_first s\<rparr> else t)"
proof -
  obtain k r1 where k: "draw r 4 = Ok (k, r1)" using assms(1) unfolding devil_reload_def by (auto simp: res_simps)
  let ?n = "k + 5"
  let ?lo = "(4 * ?n + 5) div 10" and ?hi = "(6 * ?n + 5) div 10"
  obtain v r2 where v: "draw r1 (?hi - ?lo + 1) = Ok (v, r2)"
    using assms(1) k unfolding devil_reload_def Let_def by (auto simp: res_simps)
  obtain shells r3 where shells: "roulette_shuffle draw r2 (map (\<lambda>i. i < v + ?lo) [0..<?n]) = Ok (shells, r3)"
    using assms(1) k v unfolding devil_reload_def Let_def by (auto simp: res_simps)
  obtain c r4 where c: "draw r3 2 = Ok (c, r4)"
    using assms(1) k v shells unfolding devil_reload_def Let_def by (auto simp: res_simps)
  obtain items0 r5 where i0: "deal_items draw (c + 2) (dv_items s ! 0) r4 = Ok (items0, r5)"
    using assms(1) k v shells c unfolding devil_reload_def Let_def by (auto simp: res_simps)
  obtain items1 r6 where i1: "deal_items draw (c + 2) (dv_items s ! 1) r5 = Ok (items1, r6)"
    using assms(1) k v shells c i0 unfolding devil_reload_def Let_def by (auto simp: res_simps)
  have "hand_limits (dv_items s ! 0)" "hand_limits (dv_items s ! 1)"
    using assms(2,3) by (auto simp: devil_hands_def set_two)
  then have items: "hand_limits items0" "hand_limits items1"
    using deal_items_limits i0 i1 by blast+
  have ms: "mset shells = mset (map (\<lambda>i. i < v + ?lo) [0..<?n])"
    using shells by (rule roulette_shuffle_mset)
  have len: "length shells = ?n" using mset_eq_length[OF ms] by simp
  have "k < 4" "v < ?hi - ?lo + 1" using draw_less[OF k] draw_less[OF v] by simp_all
  moreover from this(1) have "k \<in> {0, 1, 2, 3}" by auto
  ultimately have lim: "?n \<le> 8" "v + ?lo \<le> ?hi" "?hi \<le> ?n" by auto
  have live: "live_count shells = v + ?lo"
    using live_count_mset[OF ms] live_count_prefix[of "v + ?lo" ?n] lim by simp
  have s': "s' = (let t = s\<lparr>dv_shells := shells, dv_pointer := 0, dv_obscured := False,
                      dv_known := [\<lambda>_. None, \<lambda>_. None], dv_items := [items0, items1]\<rparr>
           in if alternate then t\<lparr>dv_cuffed := [False, False], dv_first := 1 - dv_first s, dv_turn := 1 - dv_first s\<rparr> else t)"
    using assms(1) k v shells c i0 i1 unfolding devil_reload_def Let_def by auto
  show ?thesis
    by (rule that[OF _ _ _ _ items s']) (use live len lim in simp_all)
qed

lemma devil_reload_fail: "devil_reload draw alternate s r = Fail e \<Longrightarrow> source e"
proof -
  assume f: "devil_reload draw alternate s r = Fail e"
  have live: "source e" if "draw r1 ((6 * (k + 5) + 5) div 10 - (4 * (k + 5) + 5) div 10 + 1) = Fail e" "draw r 4 = Ok (k, r1)" for k r1
  proof -
    have "k < 4" using draw_less[OF that(2)] .
    then have "(6 * (k + 5) + 5) div 10 - (4 * (k + 5) + 5) div 10 + 1 \<le> 2 ^ 32" by simp
    then show ?thesis using draw_source[OF that(1)] by simp
  qed
  have order: "source e" if "roulette_shuffle draw r2 (map (\<lambda>i. i < v) [0..<k + 5]) = Fail e" "draw r 4 = Ok (k, r1)" for k v r1 r2
    using shuffle_source[OF that(1)] draw_less[OF that(2)] by simp
  have two: "source e" if "draw r3 2 = Fail e" for r3 using draw_source[OF that] by simp
  have four: "source e" if "draw r3 4 = Fail e" for r3 using draw_source[OF that] by simp
  show ?thesis using f live order two four deal_items_fail
    unfolding devil_reload_def Let_def by (auto simp: bindr_Fail_iff split: prod.splits)
qed

end


subsection \<open>The parts of a step\<close>

definition devil_base :: "devil_state \<Rightarrow> bool" where
  "devil_base s \<longleftrightarrow> devil_sizes s \<and> devil_lives s \<and> devil_hands s \<and> devil_knows s \<and>
     dv_pointer s \<le> length (dv_shells s) \<and> length (dv_shells s) \<le> 8"

text \<open>What decides a duel.\<close>

definition same_fate :: "devil_state \<Rightarrow> devil_state \<Rightarrow> bool" where
  "same_fate s t \<longleftrightarrow> dv_hp t = dv_hp s \<and> dv_forfeited t = dv_forfeited s \<and> dv_ended t = dv_ended s \<and>
     dv_eligible t = dv_eligible s"

lemma same_fate_verdict:
  "same_fate s t \<Longrightarrow> devil_running t = devil_running s \<and> devil_over t = devil_over s"
  by (simp add: same_fate_def devil_running_def devil_over_def devil_out_def)

lemma devil_inv_base: "devil_inv s \<longleftrightarrow> devil_base s \<and> (devil_running s \<and> dv_pointer s < length (dv_shells s) \<or> devil_over s)"
  by (auto simp: devil_inv_def devil_base_def)

lemma devil_base_event [simp]: "devil_base (s\<lparr>dv_event := es\<rparr>) = devil_base s"
  "devil_base (s\<lparr>dv_saw := b\<rparr>) = devil_base s" "devil_base (s\<lparr>dv_ended := b\<rparr>) = devil_base s"
  "devil_base (s\<lparr>dv_eligible := el\<rparr>) = devil_base s" "devil_base (s\<lparr>dv_obscured := b\<rparr>) = devil_base s"
  by (simp_all add: devil_base_def devil_sizes_def devil_lives_def devil_hands_def devil_knows_def)

lemma truthful_consume: "truthful shells p k \<Longrightarrow> truthful shells (Suc p) (k(p := None))"
  unfolding truthful_def by (metis Suc_leI fun_upd_apply le_neq_implies_less option.distinct(1))

lemma truthful_know: "truthful shells p k \<Longrightarrow> p \<le> i \<Longrightarrow> i < length shells \<Longrightarrow> truthful shells p (k(i := Some (shells ! i)))"
  by (simp add: truthful_def)

lemma truthful_none: "truthful shells p (\<lambda>_. None)"
  by (simp add: truthful_def)

lemma base_consume: "devil_base s \<Longrightarrow> dv_pointer s < length (dv_shells s) \<Longrightarrow> devil_base (consume s)"
  unfolding devil_base_def consume_def devil_sizes_def devil_lives_def devil_hands_def devil_knows_def
  by (simp add: truthful_consume)

lemma consume_simps [simp]:
  "same_fate s (consume s)" "dv_pointer (consume s) = Suc (dv_pointer s)" "dv_shells (consume s) = dv_shells s"
  "dv_items (consume s) = dv_items s" "dv_hp (consume s) = dv_hp s"
  by (simp_all add: consume_def same_fate_def)

lemma base_set_hp: "devil_base s \<Longrightarrow> 0 \<le> v \<Longrightarrow> v \<le> 4 \<Longrightarrow> devil_base (set_hp i v s)"
  using set_update_subset_insert[of "dv_hp s" i v]
  by (auto simp: devil_base_def set_hp_def devil_sizes_def devil_lives_def devil_hands_def devil_knows_def)

lemma finish_eq:
  "devil_finish s = (if devil_out s 1 then s\<lparr>dv_ended := True, dv_eligible := [0]\<rparr>
     else if devil_out s 0 then s\<lparr>dv_ended := True, dv_eligible := [1]\<rparr> else s)"
  by (simp add: devil_finish_def devil_out_def)

lemma base_finish: "devil_base s \<Longrightarrow> devil_base (devil_finish s)"
  by (simp add: finish_eq)

lemma finish_simps [simp]:
  "dv_pointer (devil_finish s) = dv_pointer s" "dv_shells (devil_finish s) = dv_shells s"
  "dv_items (devil_finish s) = dv_items s"
  by (simp_all add: finish_eq)

lemma finish_verdict:
  assumes "\<not> dv_ended s" "dv_eligible s = []" "\<not> (devil_out s 0 \<and> devil_out s 1)"
  shows "(if dv_ended (devil_finish s) then devil_over (devil_finish s) else devil_running (devil_finish s))"
  using assms by (auto simp: finish_eq devil_over_def devil_running_def devil_out_def)

lemma base_turn: "devil_base s \<Longrightarrow> i \<le> 1 \<Longrightarrow> devil_base (pass_turn i s)"
  by (auto simp: pass_turn_def devil_base_def devil_sizes_def devil_lives_def devil_hands_def devil_knows_def
      numeral_2_eq_2 Let_def split: prod.splits if_splits)

lemma pass_turn_simps [simp]:
  "same_fate s (pass_turn i s)" "dv_pointer (pass_turn i s) = dv_pointer s" "dv_shells (pass_turn i s) = dv_shells s"
  by (simp_all add: pass_turn_def same_fate_def split: prod.splits)

lemma base_know:
  assumes "devil_base s" "dv_pointer s \<le> i" "i < length (dv_shells s)" "seat \<le> 1"
  shows "devil_base (know seat i s)"
proof -
  have "dv_known s ! seat \<in> set (dv_known s)"
    using assms(1,4) by (intro nth_mem) (simp add: devil_base_def devil_sizes_def)
  then have "truthful (dv_shells s) (dv_pointer s) ((dv_known s ! seat)(i := Some (dv_shells s ! i)))"
    using assms(1-3) by (intro truthful_know) (auto simp: devil_base_def devil_knows_def)
  then have "\<forall>k\<in>set ((dv_known s)[seat := (dv_known s ! seat)(i := Some (dv_shells s ! i))]).
      truthful (dv_shells s) (dv_pointer s) k"
    using assms(1) set_update_subset_insert[of "dv_known s" seat "(dv_known s ! seat)(i := Some (dv_shells s ! i))"]
    unfolding devil_base_def devil_knows_def by blast
  then show ?thesis using assms(1)
    by (simp add: devil_base_def know_def devil_sizes_def devil_lives_def devil_hands_def devil_knows_def)
qed

lemma base_flip:
  assumes "devil_base s" "dv_pointer s < length (dv_shells s)"
  shows "devil_base (s\<lparr>dv_shells := (dv_shells s)[dv_pointer s := \<not> dv_shells s ! dv_pointer s], dv_obscured := b,
    dv_known := map (flip_known (dv_pointer s)) (dv_known s)\<rparr>)"
proof -
  let ?p = "dv_pointer s" and ?sh = "dv_shells s"
  have "truthful (?sh[?p := \<not> ?sh ! ?p]) ?p (flip_known ?p k)" if t: "truthful ?sh ?p k" for k
    unfolding truthful_def
  proof (intro allI impI)
    fix i v assume f: "flip_known ?p k i = Some v"
    show "?p \<le> i \<and> i < length (?sh[?p := \<not> ?sh ! ?p]) \<and> ?sh[?p := \<not> ?sh ! ?p] ! i = v"
    proof (cases "i = ?p")
      case True
      then obtain w where "k ?p = Some w" "v = (\<not> w)"
        using f by (auto simp: flip_known_def split: option.splits)
      then show ?thesis using True t assms(2) by (auto simp: truthful_def)
    next
      case False
      then have "k i = Some v" using f by (auto simp: flip_known_def split: option.splits)
      then show ?thesis using False t by (auto simp: truthful_def)
    qed
  qed
  then show ?thesis using assms
    by (auto simp: devil_base_def devil_sizes_def devil_lives_def devil_hands_def devil_knows_def)
qed

lemma base_items:
  "devil_base s \<Longrightarrow> hand_limits held \<Longrightarrow> devil_base (s\<lparr>dv_items := (dv_items s)[seat := held]\<rparr>)"
  using set_update_subset_insert[of "dv_items s" seat held]
  by (auto simp: devil_base_def devil_sizes_def devil_lives_def devil_hands_def devil_knows_def)

lemma base_cuff: "devil_base s \<Longrightarrow> devil_base (s\<lparr>dv_cuffed := (dv_cuffed s)[i := b]\<rparr>)"
  by (auto simp: devil_base_def devil_sizes_def devil_lives_def devil_hands_def devil_knows_def)

lemma base_forfeit: "devil_base s \<Longrightarrow> devil_base (s\<lparr>dv_forfeited := (dv_forfeited s)[i := b]\<rparr>)"
  by (auto simp: devil_base_def devil_sizes_def devil_lives_def devil_hands_def devil_knows_def)

lemma base_hand: "devil_base s \<Longrightarrow> i \<le> 1 \<Longrightarrow> hand_limits (dv_items s ! i)"
  by (auto simp: devil_base_def devil_sizes_def devil_hands_def)

context rule_sampler
begin

lemma base_reload:
  assumes "devil_reload draw alternate s r = Ok (s', r')" "devil_base s"
  shows "devil_base s' \<and> same_fate s s' \<and> dv_pointer s' < length (dv_shells s')"
proof (rule devil_reload_Ok[OF assms(1)])
  show "length (dv_items s) = 2" "devil_hands s" using assms(2) by (simp_all add: devil_base_def devil_sizes_def)
next
  fix shells items0 items1
  assume h: "5 \<le> length shells" "length shells \<le> 8" "hand_limits items0" "hand_limits items1"
    and s': "s' = (let t = s\<lparr>dv_shells := shells, dv_pointer := 0, dv_obscured := False,
                      dv_known := [\<lambda>_. None, \<lambda>_. None], dv_items := [items0, items1]\<rparr>
           in if alternate then t\<lparr>dv_cuffed := [False, False], dv_first := 1 - dv_first s, dv_turn := 1 - dv_first s\<rparr> else t)"
  have "0 < length shells" using h(1) by linarith
  then show ?thesis using h assms(2) unfolding s'
    by (simp add: devil_base_def devil_sizes_def devil_lives_def devil_hands_def devil_knows_def truthful_none
        same_fate_def Let_def)
qed

lemma base_refill:
  assumes "refill_empty draw s r = Ok (s', r')" "devil_base s"
  shows "devil_base s' \<and> same_fate s s' \<and> dv_pointer s' < length (dv_shells s')"
proof -
  obtain t r2 where "devil_reload draw True s r = Ok (t, r2)" "s' = devil_say [EvReloaded] t"
    using assms(1) by (auto simp: refill_empty_def res_simps)
  then show ?thesis using base_reload assms(2) by (auto simp: devil_say_def same_fate_def)
qed

end


subsection \<open>Every step keeps the invariant\<close>

text \<open>A running duel with a shell to fire: what every action starts from.\<close>

definition devil_live :: "devil_state \<Rightarrow> bool" where
  "devil_live s \<longleftrightarrow> devil_base s \<and> devil_running s \<and> dv_pointer s < length (dv_shells s)"

lemma devil_inv_live: "devil_inv s \<Longrightarrow> \<not> dv_ended s \<Longrightarrow> devil_live s"
  by (auto simp: devil_inv_base devil_live_def devil_over_def)

lemma devil_live_inv: "devil_live s \<Longrightarrow> devil_inv s"
  by (simp add: devil_inv_base devil_live_def)

lemma finish_inv:
  assumes "devil_base s" "\<not> dv_ended s" "dv_eligible s = []" "\<not> (devil_out s 0 \<and> devil_out s 1)"
    "dv_pointer s < length (dv_shells s) \<or> dv_ended (devil_finish s)"
  shows "devil_inv (devil_finish s)"
  using finish_verdict[OF assms(2-4)] base_finish[OF assms(1)] assms(5)
  by (auto simp: devil_inv_base devil_running_def split: if_splits)

lemma running_same: "devil_running s \<Longrightarrow> same_fate s t \<Longrightarrow> devil_running t"
  using same_fate_verdict by blast

lemma set_hp_simps [simp]:
  "dv_ended (set_hp i v s) = dv_ended s" "dv_eligible (set_hp i v s) = dv_eligible s"
  "dv_pointer (set_hp i v s) = dv_pointer s" "dv_shells (set_hp i v s) = dv_shells s"
  "dv_event (set_hp i v s) = dv_event s"
  by (simp_all add: set_hp_def)

lemma set_hp_out: "j \<noteq> i \<Longrightarrow> devil_out (set_hp i v s) j = devil_out s j"
  by (simp add: devil_out_def set_hp_def)

lemma not_both_out: "devil_running s \<Longrightarrow> i \<le> 1 \<Longrightarrow> \<not> (devil_out (set_hp i v s) 0 \<and> devil_out (set_hp i v s) 1)"
  using set_hp_out[of "1 - i" i v s] by (cases "i = 0") (auto simp: devil_running_def)

lemma hp_range: "devil_base s \<Longrightarrow> i \<le> 1 \<Longrightarrow> 0 \<le> dv_hp s ! i \<and> dv_hp s ! i \<le> 4"
proof -
  assume s: "devil_base s" "i \<le> 1"
  then have "dv_hp s ! i \<in> set (dv_hp s)" by (intro nth_mem) (simp add: devil_base_def devil_sizes_def)
  then show ?thesis using s by (auto simp: devil_base_def devil_lives_def)
qed

lemma running_hp: "devil_running s \<Longrightarrow> i \<le> 1 \<Longrightarrow> 0 < dv_hp s ! i"
proof -
  assume h: "devil_running s" "i \<le> 1"
  then have "i = 0 \<or> i = 1" by linarith
  then show ?thesis using h(1) by (auto simp: devil_running_def devil_out_def)
qed

definition shot_state :: "nat \<Rightarrow> target \<Rightarrow> devil_state \<Rightarrow> devil_state" where
  "shot_state seat t s =
     (let hit = dv_shells s ! dv_pointer s; target = (if t = TargetSelf then seat else 1 - seat);
          damage = (if dv_saw s then 2 else 1); s = consume (s\<lparr>dv_saw := False\<rparr>)
      in if hit then (set_hp target (max 0 (dv_hp s ! target - damage)) s)\<lparr>dv_event := [EvHit (seat + 1) (target + 1) damage]\<rparr>
         else s\<lparr>dv_event := [EvBlank (seat + 1) (target + 1)]\<rparr>)"

lemma devil_shoot_eq:
  "devil_shoot draw seat t s r =
     (if dv_pointer s \<ge> length (dv_shells s) then Fail IndexPanic
      else let u = devil_finish (shot_state seat t s)
           in if dv_ended u then Ok (u, r)
              else if dv_pointer u = length (dv_shells u) then refill_empty draw u r
              else Ok (pass_turn (if \<not> dv_shells s ! dv_pointer s \<and> t = TargetSelf then seat else 1 - seat) u, r))"
  by (simp add: devil_shoot_def shot_state_def Let_def)

lemma shot_state_kept:
  assumes "devil_live s" "seat \<le> 1"
  shows "devil_base (shot_state seat t s)" "\<not> dv_ended (shot_state seat t s)" "dv_eligible (shot_state seat t s) = []"
    "\<not> (devil_out (shot_state seat t s) 0 \<and> devil_out (shot_state seat t s) 1)"
    "dv_shells (shot_state seat t s) = dv_shells s" "dv_pointer (shot_state seat t s) = Suc (dv_pointer s)"
proof -
  define target where "target = (if t = TargetSelf then seat else 1 - seat)"
  define damage :: int where "damage = (if dv_saw s then 2 else 1)"
  define u where "u = consume (s\<lparr>dv_saw := False\<rparr>)"
  have tgt: "target \<le> 1" using assms(2) by (simp add: target_def)
  have bu: "devil_base u" unfolding u_def using assms(1) by (intro base_consume) (simp_all add: devil_live_def)
  have ru: "devil_running u" unfolding u_def using assms(1)
    by (auto simp: devil_live_def devil_running_def devil_out_def consume_def)
  have hp: "0 \<le> max 0 (dv_hp u ! target - damage)" "max 0 (dv_hp u ! target - damage) \<le> 4"
    using hp_range[OF bu tgt] by (auto simp: damage_def)
  have eq: "shot_state seat t s = (if dv_shells s ! dv_pointer s
      then (set_hp target (max 0 (dv_hp u ! target - damage)) u)\<lparr>dv_event := [EvHit (seat + 1) (target + 1) damage]\<rparr>
      else u\<lparr>dv_event := [EvBlank (seat + 1) (target + 1)]\<rparr>)"
    by (simp add: shot_state_def target_def damage_def u_def Let_def)
  have out_event: "devil_out (v\<lparr>dv_event := es\<rparr>) i = devil_out v i" for v es i by (simp add: devil_out_def)
  show "devil_base (shot_state seat t s)" unfolding eq using bu base_set_hp[OF bu hp] by simp
  show "\<not> dv_ended (shot_state seat t s)" "dv_eligible (shot_state seat t s) = []"
    unfolding eq using ru by (simp_all add: devil_running_def)
  show "\<not> (devil_out (shot_state seat t s) 0 \<and> devil_out (shot_state seat t s) 1)"
    unfolding eq using not_both_out[OF ru tgt] ru by (simp add: out_event devil_running_def)
  show "dv_shells (shot_state seat t s) = dv_shells s" "dv_pointer (shot_state seat t s) = Suc (dv_pointer s)"
    unfolding eq by (simp_all add: u_def)
qed

lemma not_ended_running:
  "devil_inv s \<or> devil_running s \<Longrightarrow> \<not> dv_ended s \<Longrightarrow> devil_running s"
  by (auto simp: devil_inv_base devil_over_def)

context rule_sampler
begin

lemma devil_shoot_inv:
  assumes "devil_live s" "seat \<le> 1" "devil_shoot draw seat t s r = Ok (s', r')"
  shows "devil_inv s'"
proof -
  note k = shot_state_kept[OF assms(1,2), of t]
  define u where "u = devil_finish (shot_state seat t s)"
  have v: "if dv_ended u then devil_over u else devil_running u" unfolding u_def by (rule finish_verdict[OF k(2-4)])
  have bu: "devil_base u" unfolding u_def by (rule base_finish[OF k(1)])
  have le: "dv_pointer u \<le> length (dv_shells u)" using bu by (simp add: devil_base_def)
  have np: "\<not> dv_pointer s \<ge> length (dv_shells s)" using assms(1) by (simp add: devil_live_def)
  define j where "j = (if \<not> dv_shells s ! dv_pointer s \<and> t = TargetSelf then seat else 1 - seat)"
  have j: "j \<le> 1" using assms(2) by (simp add: j_def)
  have eq: "(if dv_ended u then Ok (u, r) else if dv_pointer u = length (dv_shells u) then refill_empty draw u r
              else Ok (pass_turn j u, r)) = Ok (s', r')"
    using assms(3) np unfolding devil_shoot_eq Let_def u_def[symmetric] j_def by (simp only: if_False)
  consider "dv_ended u" "s' = u" | "\<not> dv_ended u" "refill_empty draw u r = Ok (s', r')"
    | "\<not> dv_ended u" "dv_pointer u < length (dv_shells u)" "s' = pass_turn j u"
    using eq le by (auto split: if_splits simp: le_less)
  then show ?thesis
  proof cases
    case 1
    then show ?thesis using v bu by (simp add: devil_inv_base)
  next
    case 2
    from base_refill[OF 2(2) bu] have "devil_base s'" "devil_running s'" "dv_pointer s' < length (dv_shells s')"
      using v 2(1) running_same by auto
    then show ?thesis by (simp add: devil_inv_base)
  next
    case 3
    have "devil_running u" using v 3(1) by simp
    then have "devil_running s'" unfolding 3(3) by (rule running_same) simp
    then show ?thesis using base_turn[OF bu j] 3(2,3) by (simp add: devil_inv_base)
  qed
qed

lemma refill_fail: "refill_empty draw s r = Fail e \<Longrightarrow> source e"
  by (auto simp: refill_empty_def bindr_Fail_iff dest: devil_reload_fail)

lemma devil_shoot_fail:
  "devil_live s \<Longrightarrow> devil_shoot draw seat t s r = Fail e \<Longrightarrow> source e"
  by (auto simp: devil_shoot_eq devil_live_def Let_def dest: refill_fail split: if_splits)

end


lemma live_step:
  "devil_live s \<Longrightarrow> devil_base t \<Longrightarrow> same_fate s t \<Longrightarrow> dv_pointer t < length (dv_shells t) \<Longrightarrow> devil_inv t"
  using running_same[of s t] by (simp add: devil_inv_base devil_live_def)

lemma know_simps [simp]: "same_fate s (know seat i s)" "dv_pointer (know seat i s) = dv_pointer s"
  "dv_shells (know seat i s) = dv_shells s"
  by (simp_all add: know_def same_fate_def)

lemma phone_choices_range:
  "i \<in> set (phone_choices s seat) \<Longrightarrow> dv_pointer s \<le> i \<and> i < length (dv_shells s)"
  by (auto simp: phone_choices_def Let_def split: if_splits)

lemma hp_step_inv:
  assumes "devil_live s" "seat \<le> 1" "0 \<le> v" "v \<le> 4"
  shows "devil_inv (devil_finish (set_hp seat v s))"
proof (rule finish_inv)
  have r: "devil_running s" "devil_base s" "dv_pointer s < length (dv_shells s)"
    using assms(1) by (simp_all add: devil_live_def)
  show "devil_base (set_hp seat v s)" using r(2) assms(3,4) by (rule base_set_hp)
  show "\<not> dv_ended (set_hp seat v s)" "dv_eligible (set_hp seat v s) = []" using r(1) by (simp_all add: devil_running_def)
  show "\<not> (devil_out (set_hp seat v s) 0 \<and> devil_out (set_hp seat v s) 1)" using r(1) assms(2) by (rule not_both_out)
  show "dv_pointer (set_hp seat v s) < length (dv_shells (set_hp seat v s)) \<or> dv_ended (devil_finish (set_hp seat v s))"
    using r(3) by simp
qed

lemma heal_inv:
  assumes "devil_live s" "seat \<le> 1" "0 < v" "v \<le> 4"
  shows "devil_inv (set_hp seat v s)"
proof -
  have r: "devil_running s" "devil_base s" using assms(1) by (simp_all add: devil_live_def)
  have "length (dv_hp s) = 2" using r(2) by (simp add: devil_base_def devil_sizes_def)
  then have "\<not> devil_out (set_hp seat v s) 0" "\<not> devil_out (set_hp seat v s) 1"
    using r(1) assms(2,3) by (auto simp: devil_running_def devil_out_def set_hp_def nth_list_update)
  then have "devil_finish (set_hp seat v s) = set_hp seat v s" by (simp add: finish_eq)
  then show ?thesis using hp_step_inv[OF assms(1,2) _ assms(4)] assms(3) by simp
qed

context rule_sampler
begin

lemma devil_effect_inv:
  assumes "devil_live s" "seat \<le> 1" "devil_effect draw seat i s r = Ok (s', r')"
  shows "devil_inv s'"
proof -
  have l: "devil_base s" "devil_running s" "dv_pointer s < length (dv_shells s)"
    using assms(1) by (simp_all add: devil_live_def)
  note hp = hp_range[OF l(1) assms(2)] running_hp[OF l(2) assms(2)]
  have same: "devil_inv s" using assms(1) by (rule devil_live_inv)
  show ?thesis
  proof (cases i)
    case Magnifier
    then have "s' = know seat (dv_pointer s) s" using assms(3) l(3) by (simp add: devil_effect_def)
    then show ?thesis using l assms(2) by (intro live_step[OF assms(1)]) (simp_all add: base_know)
  next
    case Phone
    show ?thesis
    proof (cases "phone_choices s seat = []")
      case True
      then show ?thesis using assms(3) Phone same by (simp add: devil_effect_def)
    next
      case False
      then obtain v r2 where v: "draw r (length (phone_choices s seat)) = Ok (v, r2)"
        "s' = know seat (phone_choices s seat ! v) s"
        using assms(3) Phone by (auto simp: devil_effect_def Let_def res_simps)
      have "phone_choices s seat ! v \<in> set (phone_choices s seat)" using draw_less[OF v(1)] by simp
      from phone_choices_range[OF this] show ?thesis
        unfolding v(2) using l assms(2) by (intro live_step[OF assms(1)]) (simp_all add: base_know)
    qed
  next
    case Saw
    then show ?thesis using assms(3) l by (intro live_step[OF assms(1)]) (auto simp: devil_effect_def same_fate_def)
  next
    case Handcuffs
    then show ?thesis using assms(3) l base_cuff[OF l(1)]
      by (intro live_step[OF assms(1)]) (auto simp: devil_effect_def same_fate_def)
  next
    case Cigarette
    then have "s' = set_hp seat (min 4 (dv_hp s ! seat + 1)) s" using assms(3) by (simp add: devil_effect_def)
    then show ?thesis using heal_inv[OF assms(1,2)] hp by simp
  next
    case Medicine
    then obtain v r2 where "s' = devil_finish (set_hp seat (if v < 2 then min 4 (dv_hp s ! seat + 2) else dv_hp s ! seat - 1) s)"
      "draw r 5 = Ok (v, r2)" using assms(3) by (auto simp: devil_effect_def res_simps)
    then show ?thesis using hp_step_inv[OF assms(1,2)] hp by (cases "v < 2") auto
  next
    case Inverter
    then have "s' = s\<lparr>dv_shells := (dv_shells s)[dv_pointer s := \<not> dv_shells s ! dv_pointer s], dv_obscured := True,
        dv_known := map (flip_known (dv_pointer s)) (dv_known s)\<rparr>"
      using assms(3) l(3) by (simp add: devil_effect_def)
    then show ?thesis using base_flip[OF l(1,3)] l(3)
      by (intro live_step[OF assms(1)]) (simp_all add: same_fate_def)
  next
    case Beer
    define u where "u = devil_say [EvEjected (dv_shells s ! dv_pointer s)] (consume s)"
    have u: "devil_base u" "same_fate s u" "dv_pointer u \<le> length (dv_shells u)"
      using base_consume[OF l(1,3)] l(3) by (simp_all add: u_def devil_say_def consume_def same_fate_def)
    have "devil_effect draw seat i s r = (if dv_pointer u = length (dv_shells u) then refill_empty draw u r else Ok (u, r))"
      using l(3) Beer by (simp add: devil_effect_def u_def Let_def)
    then have "(if dv_pointer u = length (dv_shells u) then refill_empty draw u r else Ok (u, r)) = Ok (s', r')"
      using assms(3) by simp
    then consider "refill_empty draw u r = Ok (s', r')" | "s' = u" "dv_pointer u < length (dv_shells u)"
      using u(3) by (auto split: if_splits)
    then show ?thesis
    proof cases
      case 1
      from base_refill[OF 1 u(1)] u(2) show ?thesis
        by (intro live_step[OF assms(1)]) (auto simp: same_fate_def)
    next
      case 2
      then show ?thesis using u by (intro live_step[OF assms(1)]) simp_all
    qed
  qed (use assms(3) same in \<open>auto simp: devil_effect_def\<close>)
qed

lemma devil_effect_fail:
  assumes "devil_live s" "devil_effect draw seat i s r = Fail e"
  shows "source e"
proof -
  have "length (phone_choices s seat) \<le> length (dv_shells s)" by (auto simp: phone_choices_def Let_def intro: order_trans[OF length_filter_le])
  then have phone: "source e" if "draw r (length (phone_choices s seat)) = Fail e" "phone_choices s seat \<noteq> []"
    using draw_source[OF that(1)] that(2) assms(1) by (simp add: devil_live_def devil_base_def)
  have five: "source e" if "draw r 5 = Fail e" using draw_source[OF that] by simp
  show ?thesis using assms phone five by (cases i)
    (auto simp: devil_effect_def devil_live_def Let_def bindr_Fail_iff dest: refill_fail split: if_splits)
qed

end

lemma same_fate_items: "same_fate s (s\<lparr>dv_items := x\<rparr>)" "same_fate s (s\<lparr>dv_event := es\<rparr>)"
  by (simp_all add: same_fate_def)

lemma live_items:
  assumes "devil_live s" "hand_limits held"
  shows "devil_live (s\<lparr>dv_items := (dv_items s)[seat := held]\<rparr>)"
  using assms base_items[OF _ assms(2), of s seat] running_same[OF _ same_fate_items(1), of s]
  by (simp add: devil_live_def)

lemma live_event: "devil_live s \<Longrightarrow> devil_live (s\<lparr>dv_event := es\<rparr>)"
  using running_same[OF _ same_fate_items(2), of s] by (simp add: devil_live_def)

context rule_sampler
begin

lemma devil_item_inv:
  assumes "devil_live s" "seat \<le> 1" "devil_item draw seat a s r = Ok (s', r')"
  shows "devil_inv s'"
proof -
  have h: "hand_limits (dv_items s ! seat)" "hand_limits (dv_items s ! (1 - seat))"
    using assms(1,2) base_hand by (auto simp: devil_live_def)
  define t where "t = s\<lparr>dv_items := (dv_items s)[seat := remove1 (ra_item a) (dv_items s ! seat)]\<rparr>"
  have t: "devil_live t" unfolding t_def by (intro live_items assms(1) hand_limits_remove h)
  obtain i u where u: "devil_effect draw seat i (u\<lparr>dv_event := [EvUsed (seat + 1) i]\<rparr>) r = Ok (s', r')"
    "u = t \<or> (\<exists>held. hand_limits held \<and> u = t\<lparr>dv_items := (dv_items t)[1 - seat := held]\<rparr>)"
  proof (cases "ra_item a = Adrenaline")
    case True
    have "hand_limits (dv_items t ! (1 - seat))"
      using t assms(2) by (intro base_hand) (auto simp: devil_live_def)
    then have held: "hand_limits (remove1 (ra_stolen a) (dv_items t ! (1 - seat)))" by (rule hand_limits_remove)
    have "devil_effect draw seat (ra_stolen a) (t\<lparr>dv_items := (dv_items t)[1 - seat :=
        remove1 (ra_stolen a) (dv_items t ! (1 - seat))]\<rparr>\<lparr>dv_event := [EvUsed (seat + 1) (ra_stolen a)]\<rparr>) r = Ok (s', r')"
      using assms(3) True unfolding t_def by (auto simp: devil_item_def remove_item_def res_simps Let_def split: if_splits)
    then show ?thesis using that held by blast
  next
    case False
    then show ?thesis using that assms(3)
      by (auto simp: devil_item_def remove_item_def res_simps t_def[symmetric] Let_def split: if_splits)
  qed
  have "devil_live u" using u(2) t live_items by auto
  then show ?thesis using devil_effect_inv[OF live_event assms(2) u(1)] by blast
qed

end


subsection \<open>The duel as a whole\<close>

lemma action_kinds:
  "a \<in> set (devil_actions s seat) \<Longrightarrow>
     \<not> dv_ended s \<and> 0 \<le> seat \<and> seat \<le> 1 \<and>
     (a = plain Surrender \<or> nat seat = dv_turn s \<and>
       ((\<exists>t\<in>{TargetSelf, TargetOpponent}. a = shoot t) \<or>
        (\<exists>i\<in>set (dv_items s ! nat seat). a \<in> set (devil_item_actions s (nat seat) i))))"
  by (auto simp: devil_actions_def split: if_splits)

lemma item_action:
  "a \<in> set (devil_item_actions s seat i) \<Longrightarrow> ra_kind a = DevilItem \<and> ra_item a = i \<and> ra_target a = NoTarget \<and>
     ra_agree a = None \<and> (i = Adrenaline \<longrightarrow> ra_stolen a \<in> set (dv_items s ! (1 - seat)) \<and> valid_item (ra_stolen a) \<and>
       ra_stolen a \<noteq> Adrenaline) \<and> (i \<noteq> Adrenaline \<longrightarrow> item_legal s seat i \<and> ra_stolen a = NoItem)"
  by (auto simp: devil_item_actions_def use_item_def plain_def split: if_splits)

lemma item_action_own:
  assumes "a \<in> set (devil_actions s seat)" "ra_kind a = DevilItem"
  shows "ra_item a \<in> set (dv_items s ! nat seat) \<and>
    (ra_item a = Adrenaline \<longrightarrow> ra_stolen a \<in> set (dv_items s ! (1 - nat seat)))"
  using action_kinds[OF assms(1)] assms(2) by (auto simp: plain_def shoot_def dest: item_action)

definition step_action :: "raction \<Rightarrow> raction" where
  "step_action a = (if ra_kind a = Timeout then shoot TargetOpponent else a)"

lemma apply_devil_eq:
  "apply_devil draw s seat a r =
     (if \<not> valid_action a True \<or> seat < 0 \<or> seat > 1 \<or> dv_ended s then Fail ActionInvalid
      else if ra_kind a \<noteq> GameLimit \<and> step_action a \<notin> set (devil_actions s seat) then Fail ActionInvalid
      else case ra_kind (step_action a) of
            GameLimit \<Rightarrow> Ok (s\<lparr>dv_ended := True, dv_eligible := [0, 1], dv_event := [EvLimit]\<rparr>, r)
          | Surrender \<Rightarrow> Ok ((devil_finish (s\<lparr>dv_event := [], dv_forfeited := (dv_forfeited s)[nat seat := True]\<rparr>))
                              \<lparr>dv_event := [EvSurrendered]\<rparr>, r)
          | DevilShoot \<Rightarrow> devil_shoot draw (nat seat) (ra_target (step_action a)) (s\<lparr>dv_event := []\<rparr>) r
          | DevilItem \<Rightarrow> devil_item draw (nat seat) (step_action a) (s\<lparr>dv_event := []\<rparr>) r
          | _ \<Rightarrow> Fail ActionInvalid)"
proof -
  have k: "ra_kind (step_action a) = GameLimit \<longleftrightarrow> ra_kind a = GameLimit"
    by (simp add: step_action_def shoot_def plain_def)
  show ?thesis unfolding apply_devil_def Let_def step_action_def[symmetric] k
    by (simp split: action_kind.splits)
qed

lemma surrender_inv:
  assumes "devil_live s" "seat \<le> 1"
  shows "devil_inv ((devil_finish (s\<lparr>dv_event := es, dv_forfeited := (dv_forfeited s)[seat := True]\<rparr>))\<lparr>dv_event := es'\<rparr>)"
proof -
  let ?t = "s\<lparr>dv_event := es, dv_forfeited := (dv_forfeited s)[seat := True]\<rparr>"
  have ev: "devil_inv (u\<lparr>dv_event := es'\<rparr>) = devil_inv u" for u
    by (simp add: devil_inv_base devil_running_def devil_over_def devil_out_def)
  have s: "devil_running s" "devil_base s" "length (dv_forfeited s) = 2"
    using assms(1) by (simp_all add: devil_live_def devil_base_def devil_sizes_def)
  have b: "devil_base ?t" using base_forfeit[of "s\<lparr>dv_event := es\<rparr>" seat True] s(2) by simp
  have seat: "seat = 0 \<or> seat = 1" using assms(2) by linarith
  then have out: "devil_out ?t seat" "\<not> devil_out ?t (1 - seat)"
    using s by (auto simp: devil_out_def devil_running_def)
  have "devil_inv (devil_finish ?t)"
  proof (rule finish_inv[OF b])
    show "\<not> dv_ended ?t" "dv_eligible ?t = []" using s(1) by (simp_all add: devil_running_def)
    show "\<not> (devil_out ?t 0 \<and> devil_out ?t 1)" using out(2) seat by auto
    show "dv_pointer ?t < length (dv_shells ?t) \<or> dv_ended (devil_finish ?t)"
      using assms(1) by (simp add: devil_live_def)
  qed
  then show ?thesis by (simp only: ev)
qed

lemma limit_inv: "devil_live s \<Longrightarrow> devil_inv (s\<lparr>dv_ended := True, dv_eligible := [0, 1], dv_event := es\<rparr>)"
  by (auto simp: devil_live_def devil_inv_base devil_over_def devil_running_def devil_out_def)

context rule_sampler
begin

lemma apply_devil_inv:
  assumes "devil_inv s" "apply_devil draw s seat a r = Ok (s', r')"
  shows "devil_inv s'"
proof -
  have g: "0 \<le> seat" "seat \<le> 1" "\<not> dv_ended s"
    using assms(2) by (auto simp: apply_devil_eq split: if_splits)
  have l: "devil_live s" by (rule devil_inv_live[OF assms(1) g(3)])
  have le: "nat seat \<le> 1" using g by simp
  consider "ra_kind (step_action a) = GameLimit" | "ra_kind (step_action a) = Surrender"
    | "ra_kind (step_action a) = DevilShoot" | "ra_kind (step_action a) = DevilItem"
    using assms(2) by (auto simp: apply_devil_eq split: if_splits action_kind.splits)
  then show ?thesis
  proof cases
    case 1
    then show ?thesis using assms(2) limit_inv[OF l] by (auto simp: apply_devil_eq split: if_splits)
  next
    case 2
    then show ?thesis using assms(2) surrender_inv[OF l le] by (auto simp: apply_devil_eq split: if_splits)
  next
    case 3
    then have "devil_shoot draw (nat seat) (ra_target (step_action a)) (s\<lparr>dv_event := []\<rparr>) r = Ok (s', r')"
      using assms(2) by (auto simp: apply_devil_eq split: if_splits)
    then show ?thesis by (rule devil_shoot_inv[OF live_event[OF l] le])
  next
    case 4
    then have "devil_item draw (nat seat) (step_action a) (s\<lparr>dv_event := []\<rparr>) r = Ok (s', r')"
      using assms(2) by (auto simp: apply_devil_eq split: if_splits)
    then show ?thesis by (rule devil_item_inv[OF live_event[OF l] le])
  qed
qed

text \<open>An action on the list of a seat, or the clock, is never rejected: only the stream can fail.\<close>

lemma devil_item_fail:
  assumes "devil_live s" "seat \<le> 1" "devil_item draw seat a s r = Fail e" "ra_item a \<in> set (dv_items s ! seat)"
    "ra_item a = Adrenaline \<longrightarrow> ra_stolen a \<in> set (dv_items s ! (1 - seat))"
  shows "source e"
proof -
  have h: "hand_limits (dv_items s ! seat)" "hand_limits (dv_items s ! (1 - seat))"
    using assms(1,2) base_hand by (auto simp: devil_live_def)
  define t where "t = s\<lparr>dv_items := (dv_items s)[seat := remove1 (ra_item a) (dv_items s ! seat)]\<rparr>"
  have t: "devil_live t" unfolding t_def by (intro live_items assms(1) hand_limits_remove h)
  have other: "dv_items t ! (1 - seat) = dv_items s ! (1 - seat)"
    using assms(2) by (cases "seat = 0") (auto simp: t_def)
  show ?thesis
  proof (cases "ra_item a = Adrenaline")
    case True
    then have "devil_item draw seat a s r = devil_effect draw seat (ra_stolen a) (t\<lparr>dv_items := (dv_items t)[1 - seat :=
        remove1 (ra_stolen a) (dv_items t ! (1 - seat))]\<rparr>\<lparr>dv_event := [EvUsed (seat + 1) (ra_stolen a)]\<rparr>) r"
      using assms(4,5) other unfolding t_def by (simp add: devil_item_def remove_item_def Let_def)
    moreover have "devil_live (t\<lparr>dv_items := (dv_items t)[1 - seat := remove1 (ra_stolen a) (dv_items t ! (1 - seat))]\<rparr>)"
      unfolding other by (intro live_items t hand_limits_remove h)
    ultimately show ?thesis using devil_effect_fail[OF live_event] assms(3) by metis
  next
    case False
    then have "devil_item draw seat a s r = devil_effect draw seat (ra_item a) (t\<lparr>dv_event := [EvUsed (seat + 1) (ra_item a)]\<rparr>) r"
      using assms(4) unfolding t_def by (simp add: devil_item_def remove_item_def Let_def)
    then show ?thesis using devil_effect_fail[OF live_event[OF t]] assms(3) by metis
  qed
qed

lemma apply_devil_fail:
  assumes "devil_inv s" "apply_devil draw s seat a r = Fail e" "valid_action a True" "0 \<le> seat" "seat \<le> 1" "\<not> dv_ended s"
    "ra_kind a = GameLimit \<or> step_action a \<in> set (devil_actions s seat)"
  shows "source e"
proof -
  have l: "devil_live s" by (rule devil_inv_live[OF assms(1,6)])
  have le: "nat seat \<le> 1" using assms(4,5) by simp
  have kinds: "ra_kind (step_action a) \<in> {GameLimit, Surrender, DevilShoot, DevilItem}"
  proof (cases "ra_kind a = GameLimit")
    case False
    then have "step_action a \<in> set (devil_actions s seat)" using assms(7) by simp
    from action_kinds[OF this] show ?thesis by (auto simp: plain_def shoot_def dest: item_action)
  qed (simp add: step_action_def)
  have eq: "(case ra_kind (step_action a) of
            GameLimit \<Rightarrow> Ok (s\<lparr>dv_ended := True, dv_eligible := [0, 1], dv_event := [EvLimit]\<rparr>, r)
          | Surrender \<Rightarrow> Ok ((devil_finish (s\<lparr>dv_event := [], dv_forfeited := (dv_forfeited s)[nat seat := True]\<rparr>))
                              \<lparr>dv_event := [EvSurrendered]\<rparr>, r)
          | DevilShoot \<Rightarrow> devil_shoot draw (nat seat) (ra_target (step_action a)) (s\<lparr>dv_event := []\<rparr>) r
          | DevilItem \<Rightarrow> devil_item draw (nat seat) (step_action a) (s\<lparr>dv_event := []\<rparr>) r
          | _ \<Rightarrow> Fail ActionInvalid) = Fail e"
    using assms(2-7) unfolding apply_devil_eq by (auto split: if_splits)
  show ?thesis
  proof (cases "ra_kind (step_action a) = DevilItem")
    case True
    then have "ra_kind a \<noteq> GameLimit" by (auto simp: step_action_def)
    then have "step_action a \<in> set (devil_actions s seat)" using assms(7) by simp
    from item_action_own[OF this True] show ?thesis
      using devil_item_fail[OF live_event[OF l] le] eq True by simp
  next
    case False
    then show ?thesis using kinds eq devil_shoot_fail[OF live_event[OF l]] by auto
  qed
qed

lemma new_devil_inv: "new_devil draw r = Ok (s, r') \<Longrightarrow> devil_inv s"
proof -
  let ?s = "\<lparr>dv_hp = [4, 4], dv_items = [[], []], dv_known = [\<lambda>_. None, \<lambda>_. None], dv_shells = [],
               dv_pointer = 0, dv_turn = 0, dv_first = 0, dv_saw = False, dv_cuffed = [False, False],
               dv_obscured = False, dv_ended = False, dv_eligible = [], dv_forfeited = [False, False],
               dv_event = []\<rparr>"
  assume "new_devil draw r = Ok (s, r')"
  then obtain t r2 turn where t: "devil_reload draw False ?s r = Ok (t, r2)" "draw r2 2 = Ok (turn, r')"
    "s = t\<lparr>dv_turn := turn, dv_first := turn, dv_event := [EvOpened]\<rparr>"
    by (auto simp: new_devil_def res_simps Let_def)
  have "devil_base ?s"
    by (simp add: devil_base_def devil_sizes_def devil_lives_def devil_hands_def devil_knows_def truthful_none hand_limits_def)
  from base_reload[OF t(1) this] have b: "devil_base t" "same_fate ?s t" "dv_pointer t < length (dv_shells t)" by auto
  have "devil_running ?s" by (simp add: devil_running_def devil_out_def)
  from running_same[OF this b(2)] have "devil_running t" .
  moreover have "turn \<le> 1" using draw_less[OF t(2)] by simp
  ultimately show ?thesis using b unfolding t(3)
    by (simp add: devil_inv_base devil_base_def devil_sizes_def devil_lives_def devil_hands_def devil_knows_def
        devil_running_def devil_out_def)
qed

end

inductive devil_reach :: "('s \<Rightarrow> nat \<Rightarrow> (roulette_error, nat \<times> 's) res) \<Rightarrow> devil_state \<Rightarrow> bool" for draw where
  start: "new_devil draw r = Ok (s, r') \<Longrightarrow> devil_reach draw s"
| step: "devil_reach draw s \<Longrightarrow> apply_devil draw s seat a r = Ok (s', r') \<Longrightarrow> devil_reach draw s'"

context rule_sampler
begin

lemma devil_reach_inv: "devil_reach draw s \<Longrightarrow> devil_inv s"
  by (induction rule: devil_reach.induct) (auto intro: new_devil_inv apply_devil_inv)

end


subsection \<open>What is offered\<close>

lemma devil_offered_valid:
  assumes "a \<in> set (devil_actions s seat)"
  shows "valid_action a True \<and> ra_kind a \<noteq> GameLimit \<and> ra_kind a \<noteq> Timeout"
proof -
  have "valid_action a True \<and> ra_kind a = DevilItem" if "a \<in> set (devil_item_actions s (nat seat) i)" for i
    using item_action[OF that]
    by (cases "i = Adrenaline") (auto simp: valid_action_def item_legal_def valid_item_def item_order_def)
  with action_kinds[OF assms] show ?thesis
    by (auto simp: valid_action_def plain_def shoot_def bare_action_def)
qed

lemma devil_clock_offered:
  "dv_turn s \<le> 1 \<Longrightarrow> \<not> dv_ended s \<Longrightarrow> step_action (plain Timeout) \<in> set (devil_actions s (int (dv_turn s)))"
  by (auto simp: step_action_def devil_actions_def plain_def)

end
