(* ===== verification/Pressure.thy ===== *)
theory Pressure
  imports Roulette "HOL-Library.AList"
begin

text \<open>
  Pressure roulette (\<open>src/internal/roulette/pressure.go\<close>), three to six seats around a revolver of
  six chambers. The fixed arrays are lists of length six, seat pointers are options, the votes
  an association list (\<open>len\<close> is its length), and the event text the list of its sentences. An
  index out of range, a missing pointer and a division by zero, where Go panics, are the error
  \<open>IndexPanic\<close>.
\<close>

datatype chamber = EmptyChamber | LiveRound | DudRound

datatype reveal = NoReveal | Unknown | RevealedEmpty | DudSpent | LiveSpent

text \<open>The phases and the modes a vote resumes with; both are strings in Go.\<close>

datatype phase = Fire | Choice | Vote | Ended | ForcedPass | NoPhase

datatype pressure_event =
    PvVote | PvRefilled | PvShot nat nat chamber | PvLimit | PvVoteExpired | PvTimedOut | PvPassed | PvAgain
  | PvCharged nat nat nat int | PvUnloaded | PvUnloadPass | PvRiposte nat nat | PvSurrendered nat
  | PvRefused | PvAgreed nat | PvUnanimous

record pressure_state =
  pr_alive :: "nat list"
  pr_turn :: nat
  pr_phase :: phase
  pr_pool :: "chamber list"
  pr_pool_duds :: int
  pr_wave :: int
  pr_chambers :: "chamber list"
  pr_revealed :: "reveal list"
  pr_pointer :: nat
  pr_bullets :: int
  pr_gun_duds :: int
  pr_charge :: int
  pr_debt_owner :: "nat option"
  pr_debt :: int
  pr_aggressor :: "nat option"
  pr_holder :: "nat option"
  pr_rip_initiator :: "nat option"
  pr_rip_target :: "nat option"
  pr_unload_used :: "bool list"
  pr_timeout_tiers :: "int list"
  pr_forfeited :: "bool list"
  pr_votes :: "(nat \<times> bool) list"
  pr_resume :: phase
  pr_ended :: bool
  pr_eligible :: "nat list"
  pr_reason :: string
  pr_event :: "pressure_event list"

type_synonym 's sampler = "'s \<Rightarrow> nat \<Rightarrow> (roulette_error, nat \<times> 's) res"

type_synonym 's pressure_step = "'s \<Rightarrow> (roulette_error, pressure_state \<times> 's) res"

definition pressure_say :: "pressure_event list \<Rightarrow> pressure_state \<Rightarrow> pressure_state" where
  "pressure_say es s = s\<lparr>pr_event := pr_event s @ es\<rparr>"

definition prepare_pool :: "'s sampler \<Rightarrow> pressure_state \<Rightarrow> 's pressure_step" where
  "prepare_pool draw s r =
     bindr (draw r 3) (\<lambda>(n, r).
       let duds = n + 1 in
     bindr (roulette_shuffle draw r (map (\<lambda>i. if i < duds then DudRound else LiveRound) [0..<9])) (\<lambda>(pool, r).
       Ok (s\<lparr>pr_pool_duds := int duds, pr_pool := pool, pr_wave := pr_wave s + 1\<rparr>, r)))"

text \<open>The rounds \<open>draw\<close> takes from the pool, and the state after them.\<close>

definition taken :: "int \<Rightarrow> pressure_state \<Rightarrow> chamber list" where
  "taken n s = take (nat n) (pr_pool s)"

definition count_duds :: "chamber list \<Rightarrow> nat" where
  "count_duds cs = length (filter (\<lambda>c. c = DudRound) cs)"

definition pressure_draw :: "int \<Rightarrow> pressure_state \<Rightarrow> pressure_state" where
  "pressure_draw n s = s\<lparr>pr_pool := drop (nat n) (pr_pool s), pr_bullets := pr_bullets s + int (length (taken n s)),
     pr_gun_duds := pr_gun_duds s + int (count_duds (taken n s))\<rparr>"

text \<open>Filling the first \<open>n\<close> of the listed positions, duds first.\<close>

fun fill :: "nat list \<Rightarrow> nat \<Rightarrow> nat \<Rightarrow> chamber list \<Rightarrow> chamber list" where
  "fill ps 0 duds cs = cs"
| "fill (p # ps) (Suc n) duds cs = fill ps n (duds - 1) (cs[p := if duds > 0 then DudRound else LiveRound])"
| "fill [] (Suc n) duds cs = cs"

definition pressure_spin :: "'s sampler \<Rightarrow> pressure_state \<Rightarrow> 's pressure_step" where
  "pressure_spin draw s r =
     bindr (roulette_shuffle draw r [0..<6]) (\<lambda>(positions, r).
       if pr_bullets s > int (length positions) then Fail IndexPanic
       else Ok (s\<lparr>pr_chambers := fill positions (nat (pr_bullets s)) (nat (pr_gun_duds s)) (replicate 6 EmptyChamber),
                  pr_revealed := replicate 6 Unknown, pr_pointer := 0\<rparr>, r))"

definition unknown_chambers :: "pressure_state \<Rightarrow> nat list" where
  "unknown_chambers s = filter (\<lambda>i. pr_revealed s ! i = Unknown) [0..<length (pr_revealed s)]"

definition pressure_reload :: "'s sampler \<Rightarrow> pressure_state \<Rightarrow> 's pressure_step" where
  "pressure_reload draw s r =
     (if unknown_chambers s = [] then pressure_spin draw (pressure_draw 1 s) r
      else bindr (roulette_shuffle draw r (unknown_chambers s)) (\<lambda>(positions, r).
        Ok ((pressure_draw 1 s)\<lparr>pr_chambers := fill positions (length (taken 1 s)) (count_duds (taken 1 s)) (pr_chambers s)\<rparr>, r)))"

definition index_of :: "nat list \<Rightarrow> nat \<Rightarrow> nat option" where
  "index_of xs x = find (\<lambda>i. xs ! i = x) [0..<length xs]"

definition next_alive :: "pressure_state \<Rightarrow> nat \<Rightarrow> (roulette_error, nat) res" where
  "next_alive s seat =
     (if pr_alive s = [] then Fail IndexPanic
      else let i = (case index_of (pr_alive s) seat of Some i \<Rightarrow> i + 1 | None \<Rightarrow> 0)
           in Ok (pr_alive s ! (i mod length (pr_alive s))))"

definition forced :: "pressure_state \<Rightarrow> int" where
  "forced s = (if pr_charge s \<ge> 2 then 2 else 1)"

definition load_count :: "pressure_state \<Rightarrow> int" where
  "load_count s = min (1 + pr_charge s) (min (6 - pr_bullets s) (int (length (pr_pool s))))"

definition debt_of :: "pressure_state \<Rightarrow> nat \<Rightarrow> int" where
  "debt_of s seat = (if pr_debt_owner s = Some seat then pr_debt s else 0)"

definition clear_debt :: "nat \<Rightarrow> pressure_state \<Rightarrow> pressure_state" where
  "clear_debt seat s = (if pr_debt_owner s = Some seat then s\<lparr>pr_debt := 0, pr_debt_owner := None\<rparr> else s)"

definition pressure_finish :: "string \<Rightarrow> pressure_state \<Rightarrow> pressure_state" where
  "pressure_finish reason s = s\<lparr>pr_ended := True, pr_phase := Ended, pr_eligible := pr_alive s, pr_reason := reason\<rparr>"

definition pressure_remove :: "nat \<Rightarrow> pressure_state \<Rightarrow> pressure_state" where
  "pressure_remove seat s =
     (let s = clear_debt seat (s\<lparr>pr_alive := filter (\<lambda>v. v \<noteq> seat) (pr_alive s)\<rparr>);
          s = (if pr_holder s = Some seat \<or> pr_aggressor s = Some seat
               then s\<lparr>pr_holder := None, pr_aggressor := None\<rparr> else s);
          s = (if pr_rip_target s = Some seat \<or> pr_rip_initiator s = Some seat
               then s\<lparr>pr_rip_target := None, pr_rip_initiator := None\<rparr> else s)
      in if length (pr_alive s) \<le> 1 then pressure_finish ''LAST_SURVIVOR'' s else s)"

definition pressure_pass :: "pressure_state \<Rightarrow> (roulette_error, pressure_state) res" where
  "pressure_pass s =
     bindr (next_alive s (pr_turn s)) (\<lambda>nxt.
       let seat = pr_turn s; s = s\<lparr>pr_turn := nxt, pr_charge := 0, pr_phase := Fire\<rparr>
       in Ok (if pr_holder s = Some seat then s\<lparr>pr_holder := None, pr_aggressor := None\<rparr> else s))"

definition pressure_enter :: "phase \<Rightarrow> pressure_state \<Rightarrow> (roulette_error, pressure_state) res" where
  "pressure_enter mode s = (if mode = ForcedPass then pressure_pass s else Ok (s\<lparr>pr_phase := mode\<rparr>))"

definition pressure_resume :: "'s sampler \<Rightarrow> phase \<Rightarrow> pressure_state \<Rightarrow> 's pressure_step" where
  "pressure_resume draw mode s r =
     (if pr_ended s then Ok (s, r)
      else if pr_bullets s = 0 \<and> pr_pool s = []
      then Ok (pressure_say [PvVote] (s\<lparr>pr_phase := Vote, pr_votes := [], pr_resume := mode\<rparr>), r)
      else bindr (if pr_bullets s = 0
                  then bindr (pressure_reload draw s r) (\<lambda>(s, r). Ok (pressure_say [PvRefilled] s, r))
                  else Ok (s, r)) (\<lambda>(s, r).
           bindr (pressure_enter mode s) (\<lambda>s. Ok (s, r))))"

definition vote_action :: "bool \<Rightarrow> raction" where
  "vote_action b = (plain PressureVote)\<lparr>ra_agree := Some b\<rparr>"

definition pressure_actions :: "pressure_state \<Rightarrow> nat \<Rightarrow> raction list" where
  "pressure_actions s seat =
     (if pr_ended s \<or> seat \<notin> set (pr_alive s) then []
      else if pr_phase s = Vote
      then (if map_of (pr_votes s) seat = None then [vote_action True, vote_action False] else [])
      else if seat \<noteq> pr_turn s then []
      else if pr_phase s = Fire
      then plain PressureFire # (if pr_rip_target s = None
             then plain Surrender # (if \<not> pr_unload_used s ! seat then [plain PressureUnload] else []) else [])
      else if pr_phase s = Choice \<and> debt_of s seat = 0
      then [plain PressurePass, plain PressureAgain] @ (if load_count s > 0 then [plain PressureCharge] else []) @
           (if pr_rip_target s = None \<and> pr_holder s = Some seat \<and>
               (case pr_aggressor s of Some g \<Rightarrow> g \<in> set (pr_alive s) | None \<Rightarrow> False)
            then [plain PressureRiposte] else [])
      else [])"

subsection \<open>A shot\<close>

definition spend :: "pressure_state \<Rightarrow> pressure_state" where
  "spend s =
     (let index = pr_pointer s; bullet = pr_chambers s ! index;
          s = s\<lparr>pr_revealed := (pr_revealed s)[index := RevealedEmpty], pr_chambers := (pr_chambers s)[index := EmptyChamber],
                pr_pointer := (index + 1) mod 6\<rparr>
      in case bullet of
           EmptyChamber \<Rightarrow> s
         | DudRound \<Rightarrow> s\<lparr>pr_bullets := pr_bullets s - 1, pr_gun_duds := pr_gun_duds s - 1,
                         pr_revealed := (pr_revealed s)[index := DudSpent]\<rparr>
         | LiveRound \<Rightarrow> s\<lparr>pr_bullets := pr_bullets s - 1, pr_revealed := (pr_revealed s)[index := LiveSpent], pr_charge := 0\<rparr>)"

definition riposte_shot :: "nat \<Rightarrow> bool \<Rightarrow> pressure_state \<Rightarrow> (roulette_error, pressure_state \<times> phase) res" where
  "riposte_shot seat hit s =
     (case pr_rip_initiator s of
        None \<Rightarrow> Fail IndexPanic
      | Some initiator \<Rightarrow>
          bindr (next_alive s initiator) (\<lambda>nxt.
          bindr (if hit \<and> nxt = seat then next_alive s seat else Ok nxt) (\<lambda>nxt.
            let s = s\<lparr>pr_rip_target := None, pr_rip_initiator := None, pr_turn := nxt\<rparr>;
                s = (if hit then pressure_remove seat s else s)
            in Ok (s, if hit \<or> nxt \<noteq> seat then Fire else Choice))))"

definition pay_debt :: "nat \<Rightarrow> pressure_state \<Rightarrow> pressure_state" where
  "pay_debt seat s =
     (if debt_of s seat > 0
      then let s = s\<lparr>pr_debt := pr_debt s - 1\<rparr> in if pr_debt s = 0 then s\<lparr>pr_debt_owner := None\<rparr> else s
      else s)"

definition plain_shot :: "nat \<Rightarrow> bool \<Rightarrow> bool \<Rightarrow> pressure_state \<Rightarrow> (roulette_error, pressure_state \<times> phase) res" where
  "plain_shot seat hit unload s =
     (let s = pay_debt seat s in
      if hit then bindr (next_alive s seat) (\<lambda>nxt. Ok ((pressure_remove seat s)\<lparr>pr_turn := nxt\<rparr>, Fire))
      else Ok (s, if debt_of s seat > 0 then Fire else if unload then ForcedPass else Choice))"

definition pressure_shot :: "'s sampler \<Rightarrow> bool \<Rightarrow> pressure_state \<Rightarrow> 's pressure_step" where
  "pressure_shot draw unload s r =
     (if pr_pointer s \<ge> length (pr_chambers s) then Fail IndexPanic
      else let seat = pr_turn s; index = pr_pointer s; bullet = pr_chambers s ! index; hit = (bullet = LiveRound);
               s = pressure_say [PvShot (seat + 1) (index + 1) bullet] (spend s)
           in bindr (if pr_rip_target s \<noteq> None then riposte_shot seat hit s else plain_shot seat hit unload s)
                (\<lambda>(s, mode). pressure_resume draw mode s r))"

subsection \<open>The actions\<close>

definition do_charge :: "'s sampler \<Rightarrow> nat \<Rightarrow> pressure_state \<Rightarrow> 's pressure_step" where
  "do_charge draw seat s r =
     (let n = load_count s; k = forced s in
      bindr (pressure_spin draw (pressure_draw n s) r) (\<lambda>(s, r).
      bindr (pressure_pass s) (\<lambda>s.
        let s = s\<lparr>pr_aggressor := Some seat, pr_holder := Some (pr_turn s)\<rparr>;
            s = (if k = 2 then s\<lparr>pr_debt_owner := Some (pr_turn s), pr_debt := k\<rparr>
                 else s\<lparr>pr_debt_owner := None, pr_debt := 0\<rparr>)
        in Ok (pressure_say [PvCharged (seat + 1) (nat n) (pr_turn s + 1) k] s, r))))"

definition discard_one :: "'s sampler \<Rightarrow> pressure_state \<Rightarrow> 's pressure_step" where
  "discard_one draw s r =
     (if pr_bullets s > 0
      then bindr (draw r (nat (pr_bullets s))) (\<lambda>(n, r).
             let s = s\<lparr>pr_bullets := pr_bullets s - 1\<rparr>
             in Ok (if int n < pr_gun_duds s then s\<lparr>pr_gun_duds := pr_gun_duds s - 1\<rparr> else s, r))
      else Ok (s, r))"

definition do_unload :: "'s sampler \<Rightarrow> nat \<Rightarrow> pressure_state \<Rightarrow> 's pressure_step" where
  "do_unload draw seat s r =
     (let skip = (debt_of s seat = 1) in
      bindr (discard_one draw (clear_debt seat s) r) (\<lambda>(s, r).
      bindr (pressure_spin draw s r) (\<lambda>(s, r).
        let s = s\<lparr>pr_unload_used := (pr_unload_used s)[seat := True], pr_charge := 0, pr_event := [PvUnloaded]\<rparr>
        in if skip then pressure_resume draw ForcedPass (pressure_say [PvUnloadPass] s) r
           else pressure_shot draw True s r)))"

definition do_riposte :: "nat \<Rightarrow> pressure_state \<Rightarrow> (roulette_error, pressure_state) res" where
  "do_riposte seat s =
     (case pr_aggressor s of
        None \<Rightarrow> Fail IndexPanic
      | Some g \<Rightarrow> Ok (s\<lparr>pr_rip_initiator := Some seat, pr_rip_target := Some g, pr_turn := g, pr_aggressor := None,
                       pr_holder := None, pr_charge := 0, pr_phase := Fire, pr_event := [PvRiposte (seat + 1) (g + 1)]\<rparr>))"

definition do_surrender :: "'s sampler \<Rightarrow> nat \<Rightarrow> pressure_state \<Rightarrow> 's pressure_step" where
  "do_surrender draw seat s r =
     bindr (next_alive s seat) (\<lambda>nxt.
       let s = (pressure_remove seat (s\<lparr>pr_forfeited := (pr_forfeited s)[seat := True], pr_charge := 0\<rparr>))\<lparr>pr_turn := nxt\<rparr>;
           s = (if pr_ended s then s\<lparr>pr_reason := ''FORFEIT''\<rparr> else s);
           s = s\<lparr>pr_event := [PvSurrendered (seat + 1)]\<rparr>
       in pressure_resume draw Fire s r)"

definition do_vote :: "'s sampler \<Rightarrow> nat \<Rightarrow> bool \<Rightarrow> pressure_state \<Rightarrow> 's pressure_step" where
  "do_vote draw seat agree s r =
     (let s = s\<lparr>pr_votes := AList.update seat agree (pr_votes s)\<rparr> in
      if \<not> agree then
        bindr (prepare_pool draw s r) (\<lambda>(s, r).
        bindr (pressure_spin draw (pressure_draw 1 s) r) (\<lambda>(s, r).
          pressure_resume draw (pr_resume s) (s\<lparr>pr_resume := NoPhase, pr_votes := [], pr_event := [PvRefused]\<rparr>) r))
      else let s = s\<lparr>pr_event := [PvAgreed (seat + 1)]\<rparr>
           in Ok (if length (pr_votes s) = length (pr_alive s)
                  then pressure_say [PvUnanimous] (pressure_finish ''VOTE_DRAW'' s) else s, r))"

definition pressure_do :: "'s sampler \<Rightarrow> nat \<Rightarrow> raction \<Rightarrow> pressure_state \<Rightarrow> 's pressure_step" where
  "pressure_do draw seat a s r =
     (case ra_kind a of
        PressureFire \<Rightarrow> pressure_shot draw False s r
      | PressurePass \<Rightarrow> bindr (pressure_pass s) (\<lambda>s. Ok (pressure_say [PvPassed] s, r))
      | PressureAgain \<Rightarrow> Ok (pressure_say [PvAgain] (s\<lparr>pr_charge := pr_charge s + 1, pr_phase := Fire\<rparr>), r)
      | PressureCharge \<Rightarrow> do_charge draw seat s r
      | PressureUnload \<Rightarrow> do_unload draw seat s r
      | PressureRiposte \<Rightarrow> bindr (do_riposte seat s) (\<lambda>s. Ok (s, r))
      | Surrender \<Rightarrow> do_surrender draw seat s r
      | PressureVote \<Rightarrow> (case ra_agree a of None \<Rightarrow> Fail IndexPanic | Some b \<Rightarrow> do_vote draw seat b s r)
      | _ \<Rightarrow> Fail ActionInvalid)"

text \<open>What the clock does for a seat: everyone silent agrees to a draw, or the seat fires or passes.\<close>

definition expire_votes :: "pressure_state \<Rightarrow> pressure_state" where
  "expire_votes s = (pressure_finish ''VOTE_DRAW'' (s\<lparr>pr_votes :=
     fold (\<lambda>v votes. if map_of votes v = None then AList.update v True votes else votes) (pr_alive s) (pr_votes s)\<rparr>))
       \<lparr>pr_event := [PvVoteExpired]\<rparr>"

definition pressure_offered :: "'s sampler \<Rightarrow> nat \<Rightarrow> raction \<Rightarrow> pressure_state \<Rightarrow> 's pressure_step" where
  "pressure_offered draw seat a s r =
     (if a \<in> set (pressure_actions s seat) then pressure_do draw seat a s r else Fail ActionInvalid)"

definition apply_pressure :: "'s sampler \<Rightarrow> pressure_state \<Rightarrow> int \<Rightarrow> raction \<Rightarrow> 's pressure_step" where
  "apply_pressure draw s seat a r =
     (if \<not> valid_action a True \<or> pr_ended s \<or> seat < 0 \<or> seat > 5 then Fail ActionInvalid
      else let seat = nat seat; s = s\<lparr>pr_event := []\<rparr> in
        if ra_kind a = GameLimit then Ok ((pressure_finish ''GAME_LIMIT'' s)\<lparr>pr_event := [PvLimit]\<rparr>, r)
        else if ra_kind a = Timeout then
          (if seat \<noteq> pr_turn s then Fail ActionInvalid
           else if pr_phase s = Vote then Ok (expire_votes s, r)
           else let s = s\<lparr>pr_timeout_tiers := (pr_timeout_tiers s)[seat := min 2 (pr_timeout_tiers s ! seat + 1)],
                          pr_event := [PvTimedOut]\<rparr>
                in pressure_offered draw seat
                     (plain (if pr_phase s = Choice \<and> debt_of s seat = 0 then PressurePass else PressureFire)) s r)
        else pressure_offered draw seat a s r)"

subsection \<open>The start and the public view\<close>

definition new_pressure :: "'s sampler \<Rightarrow> int list \<Rightarrow> 's pressure_step" where
  "new_pressure draw seats r =
     (if length seats < 3 \<or> length seats > 6 then Fail RouletteInput
      else if list_ex (\<lambda>v. v < 0 \<or> v > 5) seats \<or> \<not> distinct seats then Fail RouletteInput
      else bindr (roulette_shuffle draw r (map nat seats)) (\<lambda>(alive, r).
        let s = \<lparr>pr_alive = alive, pr_turn = alive ! 0, pr_phase = Fire, pr_pool = [], pr_pool_duds = 0, pr_wave = 0,
              pr_chambers = replicate 6 EmptyChamber, pr_revealed = replicate 6 NoReveal, pr_pointer = 0,
              pr_bullets = 0, pr_gun_duds = 0, pr_charge = 0, pr_debt_owner = None, pr_debt = 0,
              pr_aggressor = None, pr_holder = None, pr_rip_initiator = None, pr_rip_target = None,
              pr_unload_used = replicate 6 False, pr_timeout_tiers = replicate 6 0,
              pr_forfeited = replicate 6 False, pr_votes = [], pr_resume = NoPhase, pr_ended = False,
              pr_eligible = [], pr_reason = '''', pr_event = []\<rparr> in
        bindr (prepare_pool draw s r) (\<lambda>(s, r). pressure_spin draw (pressure_draw 1 s) r)))"

record pressure_view =
  pw_phase :: phase
  pw_chambers :: "reveal list"
  pw_pool_remaining :: nat
  pw_duds :: int
  pw_charge :: int
  pw_loaded :: int
  pw_forced :: int
  pw_aggressor :: "nat option"
  pw_riposte_target :: "nat option"
  pw_votes :: "(nat \<times> bool) list"
  pw_actual_load :: int
  pw_forced_shots :: int
  pw_order :: "nat list"
  pw_pointer :: nat
  pw_unload_skips :: bool
  pw_timeout_tier :: int

definition pressure_public :: "pressure_state \<Rightarrow> pressure_view" where
  "pressure_public s = \<lparr>pw_phase = pr_phase s, pw_chambers = pr_revealed s, pw_pool_remaining = length (pr_pool s),
     pw_duds = pr_pool_duds s, pw_charge = pr_charge s, pw_loaded = pr_bullets s,
     pw_forced = debt_of s (pr_turn s), pw_aggressor = pr_aggressor s, pw_riposte_target = pr_rip_target s,
     pw_votes = pr_votes s, pw_actual_load = load_count s, pw_forced_shots = forced s, pw_order = pr_alive s,
     pw_pointer = pr_pointer s, pw_unload_skips = (debt_of s (pr_turn s) = 1),
     pw_timeout_tier = pr_timeout_tiers s ! pr_turn s\<rparr>"

end
