(* ===== verification/PressureFacts.thy ===== *)
theory PressureFacts
  imports Pressure
begin

text \<open>
  Pressure roulette keeps its invariant: the counters agree with the chambers, loaded chambers
  are hidden, a shot always falls on a hidden chamber, the gun is loaded whenever somebody has
  to act on it, debts and ripostes belong to the seat whose turn it is, and a finished game
  names its survivors. From it: no step runs into a panic and no offered action is rejected.
\<close>

subsection \<open>The cylinder\<close>

definition loaded :: "chamber list \<Rightarrow> nat" where
  "loaded cs = length (filter (\<lambda>c. c \<noteq> EmptyChamber) cs)"

lemma length_filter_update:
  "i < length xs \<Longrightarrow> length (filter P (xs[i := y])) + (if P (xs ! i) then 1 else 0) =
     length (filter P xs) + (if P y then 1 else 0)"
proof (induction xs arbitrary: i)
  case (Cons x xs)
  show ?case
  proof (cases i)
    case (Suc j)
    then show ?thesis using Cons.IH[of j] Cons.prems by simp
  qed simp
qed simp

lemma loaded_update: "p < length cs \<Longrightarrow> cs ! p = EmptyChamber \<Longrightarrow> c \<noteq> EmptyChamber \<Longrightarrow> loaded (cs[p := c]) = Suc (loaded cs)"
  using length_filter_update[of p cs "\<lambda>c. c \<noteq> EmptyChamber" c] by (simp add: loaded_def)

lemma duds_update: "p < length cs \<Longrightarrow> cs ! p = EmptyChamber \<Longrightarrow>
    count_duds (cs[p := c]) = count_duds cs + (if c = DudRound then 1 else 0)"
  using length_filter_update[of p cs "\<lambda>c. c = DudRound" c] by (simp add: count_duds_def)

lemma duds_le_loaded: "count_duds cs \<le> loaded cs"
  unfolding count_duds_def loaded_def by (induction cs) auto

lemma length_fill [simp]: "length (fill ps n duds cs) = length cs"
  by (induction ps n duds cs rule: fill.induct) auto

lemma fill_counts:
  "n \<le> length ps \<Longrightarrow> duds \<le> n \<Longrightarrow> distinct ps \<Longrightarrow> \<forall>p\<in>set ps. p < length cs \<and> cs ! p = EmptyChamber \<Longrightarrow>
   loaded (fill ps n duds cs) = loaded cs + n \<and> count_duds (fill ps n duds cs) = count_duds cs + duds \<and>
   (\<forall>i<length cs. fill ps n duds cs ! i \<noteq> EmptyChamber \<longrightarrow> i \<in> set ps \<or> cs ! i \<noteq> EmptyChamber)"
proof (induction ps n duds cs rule: fill.induct)
  case (2 p ps n duds cs)
  let ?c = "if duds > 0 then DudRound else LiveRound"
  have IH: "loaded (fill ps n (duds - 1) (cs[p := ?c])) = loaded (cs[p := ?c]) + n \<and>
      count_duds (fill ps n (duds - 1) (cs[p := ?c])) = count_duds (cs[p := ?c]) + (duds - 1) \<and>
      (\<forall>i<length (cs[p := ?c]). fill ps n (duds - 1) (cs[p := ?c]) ! i \<noteq> EmptyChamber \<longrightarrow>
         i \<in> set ps \<or> cs[p := ?c] ! i \<noteq> EmptyChamber)"
    using "2.prems" by (intro "2.IH") (auto simp: nth_list_update)
  have p: "p < length cs" "cs ! p = EmptyChamber" using "2.prems" by auto
  have "loaded (cs[p := ?c]) = Suc (loaded cs)" using p by (intro loaded_update) auto
  moreover have "count_duds (cs[p := ?c]) = count_duds cs + (if duds > 0 then 1 else 0)"
    using p by (simp add: duds_update)
  ultimately show ?case using IH "2.prems" by (auto simp: nth_list_update split: if_splits)
qed auto

definition scanning :: "pressure_state \<Rightarrow> bool" where
  "scanning s \<longleftrightarrow> (\<forall>i<6. pr_revealed s ! i = Unknown \<longleftrightarrow> pr_pointer s \<le> i)"

definition scanned :: "pressure_state \<Rightarrow> bool" where
  "scanned s \<longleftrightarrow> pr_pointer s = 0 \<and> (\<forall>i<6. pr_revealed s ! i \<noteq> Unknown)"

definition gun_counts :: "pressure_state \<Rightarrow> bool" where
  "gun_counts s \<longleftrightarrow> length (pr_chambers s) = 6 \<and> length (pr_revealed s) = 6 \<and> pr_pointer s < 6 \<and>
     pr_bullets s = int (loaded (pr_chambers s)) \<and> pr_gun_duds s = int (count_duds (pr_chambers s)) \<and>
     (\<forall>i<6. pr_chambers s ! i \<noteq> EmptyChamber \<longrightarrow> pr_revealed s ! i = Unknown)"

definition gun_ok :: "pressure_state \<Rightarrow> bool" where
  "gun_ok s \<longleftrightarrow> gun_counts s \<and> (scanning s \<or> scanned s)"

definition numbers_ok :: "pressure_state \<Rightarrow> bool" where
  "numbers_ok s \<longleftrightarrow> 0 \<le> pr_gun_duds s \<and> pr_gun_duds s \<le> pr_bullets s \<and> pr_bullets s \<le> 6"

lemma loaded_le: "loaded cs \<le> length cs"
  by (simp add: loaded_def)

lemma gun_numbers: "gun_counts s \<Longrightarrow> numbers_ok s"
  using duds_le_loaded[of "pr_chambers s"] loaded_le[of "pr_chambers s"] by (simp add: gun_counts_def numbers_ok_def)

lemma loaded_0: "loaded cs = 0 \<longleftrightarrow> (\<forall>c\<in>set cs. c = EmptyChamber)"
  by (auto simp: loaded_def filter_empty_conv)

lemma scanned_empty: "gun_counts s \<Longrightarrow> scanned s \<Longrightarrow> pr_bullets s = 0"
  by (auto simp: gun_counts_def scanned_def loaded_0 in_set_conv_nth)

definition same_gun :: "pressure_state \<Rightarrow> pressure_state \<Rightarrow> bool" where
  "same_gun s t \<longleftrightarrow> pr_chambers t = pr_chambers s \<and> pr_revealed t = pr_revealed s \<and> pr_pointer t = pr_pointer s \<and>
     pr_bullets t = pr_bullets s \<and> pr_gun_duds t = pr_gun_duds s"

lemma same_gun_ok: "same_gun s t \<Longrightarrow> gun_ok t = gun_ok s \<and> gun_counts t = gun_counts s \<and> scanning t = scanning s"
  by (simp add: same_gun_def gun_ok_def gun_counts_def scanning_def scanned_def)

text \<open>Everything but the gun and the pool.\<close>

definition same_seats :: "pressure_state \<Rightarrow> pressure_state \<Rightarrow> bool" where
  "same_seats s t \<longleftrightarrow> pr_alive t = pr_alive s \<and> pr_turn t = pr_turn s \<and> pr_phase t = pr_phase s \<and>
     pr_charge t = pr_charge s \<and> pr_debt_owner t = pr_debt_owner s \<and> pr_debt t = pr_debt s \<and>
     pr_aggressor t = pr_aggressor s \<and> pr_holder t = pr_holder s \<and> pr_rip_initiator t = pr_rip_initiator s \<and>
     pr_rip_target t = pr_rip_target s \<and> pr_unload_used t = pr_unload_used s \<and> pr_timeout_tiers t = pr_timeout_tiers s \<and>
     pr_forfeited t = pr_forfeited s \<and> pr_votes t = pr_votes s \<and> pr_resume t = pr_resume s \<and>
     pr_ended t = pr_ended s \<and> pr_eligible t = pr_eligible s \<and> pr_reason t = pr_reason s"

definition pool_ok :: "pressure_state \<Rightarrow> bool" where
  "pool_ok s \<longleftrightarrow> EmptyChamber \<notin> set (pr_pool s) \<and> length (pr_pool s) \<le> 9"

lemma same_seats_simps:
  assumes "same_seats s t"
  shows "pr_alive t = pr_alive s" "pr_turn t = pr_turn s" "pr_phase t = pr_phase s" "pr_charge t = pr_charge s"
    "pr_debt_owner t = pr_debt_owner s" "pr_debt t = pr_debt s" "pr_aggressor t = pr_aggressor s"
    "pr_holder t = pr_holder s" "pr_rip_initiator t = pr_rip_initiator s" "pr_rip_target t = pr_rip_target s"
    "pr_unload_used t = pr_unload_used s" "pr_timeout_tiers t = pr_timeout_tiers s"
    "pr_forfeited t = pr_forfeited s" "pr_votes t = pr_votes s" "pr_resume t = pr_resume s"
    "pr_ended t = pr_ended s" "pr_eligible t = pr_eligible s" "pr_reason t = pr_reason s"
  using assms by (simp_all add: same_seats_def)

lemma same_seats_refl [simp]: "same_seats s s"
  by (simp add: same_seats_def)

lemma same_seats_trans: "same_seats s t \<Longrightarrow> same_seats t u \<Longrightarrow> same_seats s u"
  by (simp add: same_seats_def)

lemma draw_table: "same_seats s (pressure_draw n s)"
  by (simp add: same_seats_def pressure_draw_def)

lemma draw_pool: "pool_ok s \<Longrightarrow> pool_ok (pressure_draw n s)"
  by (auto simp: pool_ok_def pressure_draw_def dest: in_set_dropD)

lemma taken_loaded: "pool_ok s \<Longrightarrow> count_duds (taken n s) \<le> length (taken n s)"
  by (simp add: count_duds_def)

lemma draw_numbers:
  "numbers_ok s \<Longrightarrow> pr_bullets s + int (length (taken n s)) \<le> 6 \<Longrightarrow> numbers_ok (pressure_draw n s)"
proof -
  assume h: "numbers_ok s" "pr_bullets s + int (length (taken n s)) \<le> 6"
  have "int (count_duds (taken n s)) \<le> int (length (taken n s))" by (simp add: count_duds_def)
  then show ?thesis using h by (simp add: numbers_ok_def pressure_draw_def)
qed

context rule_sampler
begin

lemma spin_ok:
  assumes "pressure_spin draw s r = Ok (t, r')" "numbers_ok s"
  shows "gun_counts t" "scanning t" "same_seats s t" "pr_pool t = pr_pool s" "pr_bullets t = pr_bullets s"
proof -
  obtain ps where ps: "roulette_shuffle draw r [0..<6] = Ok (ps, r')"
    and t: "t = s\<lparr>pr_chambers := fill ps (nat (pr_bullets s)) (nat (pr_gun_duds s)) (replicate 6 EmptyChamber),
        pr_revealed := replicate 6 Unknown, pr_pointer := 0\<rparr>"
    using assms(1) by (auto simp: pressure_spin_def res_simps split: if_splits)
  have m: "mset ps = mset [0..<6]" using ps by (rule roulette_shuffle_mset)
  then have d: "distinct ps" "set ps = {0..<6}" "length ps = 6"
    using mset_eq_imp_distinct_iff[OF m] mset_eq_setD[OF m] mset_eq_length[OF m] by auto
  have l0: "loaded (replicate 6 EmptyChamber) = 0" "count_duds (replicate 6 EmptyChamber) = 0"
    by (simp_all add: loaded_def count_duds_def)
  have "nat (pr_bullets s) \<le> 6" using assms(2) by (simp add: numbers_ok_def nat_le_iff)
  with fill_counts[of "nat (pr_bullets s)" ps "nat (pr_gun_duds s)" "replicate 6 EmptyChamber"]
  have "loaded (pr_chambers t) = nat (pr_bullets s)" "count_duds (pr_chambers t) = nat (pr_gun_duds s)"
    using d assms(2) l0 by (simp_all add: t numbers_ok_def nat_mono)
  then show "gun_counts t" using assms(2) by (simp add: gun_counts_def t numbers_ok_def)
  show "scanning t" by (simp add: scanning_def t)
  show "same_seats s t" by (simp add: same_seats_def t)
qed (use assms in \<open>auto simp: pressure_spin_def res_simps split: if_splits\<close>)

lemma spin_fail: "pressure_spin draw s r = Fail e \<Longrightarrow> numbers_ok s \<Longrightarrow> source e"
proof -
  assume f: "pressure_spin draw s r = Fail e" and n: "numbers_ok s"
  have "length ps = 6" if "roulette_shuffle draw r [0..<6] = Ok (ps, r')" for ps r'
    using mset_eq_length[OF roulette_shuffle_mset[OF that]] by simp
  then show ?thesis using f n
    by (auto simp: pressure_spin_def bindr_Fail_iff numbers_ok_def dest: shuffle_source split: if_splits)
qed

end


lemma unknown_mem: "i \<in> set (unknown_chambers s) \<longleftrightarrow> i < length (pr_revealed s) \<and> pr_revealed s ! i = Unknown"
  by (auto simp: unknown_chambers_def)

lemma taken_one: "pr_pool s \<noteq> [] \<Longrightarrow> \<exists>c. taken 1 s = [c] \<and> c \<in> set (pr_pool s)"
  by (cases "pr_pool s") (auto simp: taken_def)

lemma filled_table: "same_seats s ((pressure_draw n s)\<lparr>pr_chambers := ch\<rparr>)"
  by (simp add: same_seats_def pressure_draw_def)

lemma draw_simps [simp]:
  "pr_revealed (pressure_draw n s) = pr_revealed s" "pr_pointer (pressure_draw n s) = pr_pointer s"
  "pr_bullets (pressure_draw n s) = pr_bullets s + int (length (taken n s))"
  "pr_gun_duds (pressure_draw n s) = pr_gun_duds s + int (count_duds (taken n s))"
  by (simp_all add: pressure_draw_def)

context rule_sampler
begin

text \<open>A reload of the empty gun loads one round and keeps what is known of the cylinder.\<close>

lemma reload_ok:
  assumes "pressure_reload draw s r = Ok (t, r')" "gun_ok s" "pool_ok s" "pr_bullets s = 0" "pr_pool s \<noteq> []"
  shows "gun_counts t" "scanning t" "same_seats s t" "pool_ok t" "pr_bullets t = 1"
proof -
  have c: "gun_counts s" using assms(2) by (simp add: gun_ok_def)
  have n: "numbers_ok (pressure_draw 1 s)"
    using draw_numbers[OF gun_numbers[OF c], of 1] assms(4) by (simp add: taken_def)
  obtain x where x: "taken 1 s = [x]" "x \<in> set (pr_pool s)" using taken_one[OF assms(5)] by blast
  have x0: "x \<noteq> EmptyChamber" using x(2) assms(3) by (auto simp: pool_ok_def)
  have "gun_counts t \<and> scanning t \<and> same_seats s t \<and> pool_ok t \<and> pr_bullets t = 1"
  proof (cases "unknown_chambers s = []")
    case True
    then have sp: "pressure_spin draw (pressure_draw 1 s) r = Ok (t, r')" using assms(1) by (simp add: pressure_reload_def)
    have "pool_ok t" using spin_ok(4)[OF sp n] draw_pool[OF assms(3)] by (simp add: pool_ok_def)
    moreover have "pr_bullets t = 1" using spin_ok(5)[OF sp n] assms(4) x(1) by simp
    ultimately show ?thesis using spin_ok(1,2)[OF sp n] same_seats_trans[OF draw_table spin_ok(3)[OF sp n]] by blast
  next
    case False
    then obtain ps where ps: "roulette_shuffle draw r (unknown_chambers s) = Ok (ps, r')"
      and t: "t = (pressure_draw 1 s)\<lparr>pr_chambers := fill ps (length (taken 1 s)) (count_duds (taken 1 s)) (pr_chambers s)\<rparr>"
      using assms(1) by (auto simp: pressure_reload_def res_simps)
    have m: "mset ps = mset (unknown_chambers s)" using ps by (rule roulette_shuffle_mset)
    have "distinct (unknown_chambers s)" by (simp add: unknown_chambers_def)
    then have d: "distinct ps" using mset_eq_imp_distinct_iff[OF m] by blast
    have d2: "set ps = set (unknown_chambers s)" using m by (rule mset_eq_setD)
    then have d3: "ps \<noteq> []" using False by force
    note d = d d2 d3
    have empty: "loaded (pr_chambers s) = 0" using c assms(4) by (simp add: gun_counts_def)
    then have all: "\<forall>p\<in>set ps. p < length (pr_chambers s) \<and> pr_chambers s ! p = EmptyChamber"
      using d(2) c by (auto simp: unknown_mem gun_counts_def loaded_0)
    have "length (taken 1 s) \<le> length ps" "count_duds (taken 1 s) \<le> length (taken 1 s)"
      using x(1) d(3) by (simp_all add: count_duds_def Suc_le_eq)
    from fill_counts[OF this d(1) all] have f: "loaded (pr_chambers t) = 1"
      "count_duds (pr_chambers t) = count_duds (pr_chambers s) + count_duds (taken 1 s)"
      "\<forall>i<length (pr_chambers s). pr_chambers t ! i \<noteq> EmptyChamber \<longrightarrow> i \<in> set ps \<or> pr_chambers s ! i \<noteq> EmptyChamber"
      using x(1) empty by (simp_all add: t)
    have fields: "length (pr_chambers t) = 6" "length (pr_revealed t) = 6" "pr_pointer t < 6" "pr_revealed t = pr_revealed s"
      "pr_bullets t = 1" "pr_gun_duds t = int (count_duds (pr_chambers s) + count_duds (taken 1 s))"
      using c assms(4) x(1) by (simp_all add: t gun_counts_def)
    have "pr_revealed s ! i = Unknown" if "i < 6" "pr_chambers t ! i \<noteq> EmptyChamber" for i
    proof -
      have "i < length (pr_chambers s)" using that(1) c by (simp add: gun_counts_def)
      then have "i \<in> set ps \<or> pr_chambers s ! i \<noteq> EmptyChamber" using f(3) that(2) by blast
      then show ?thesis using c that(1) d(2) by (auto simp: unknown_mem gun_counts_def)
    qed
    then have "gun_counts t" unfolding gun_counts_def using f(1,2) fields by simp
    moreover have "\<not> scanned s" using False c by (auto simp: scanned_def gun_counts_def unknown_chambers_def filter_empty_conv)
    then have "scanning t" using assms(2) by (simp add: gun_ok_def scanning_def t)
    moreover have "pool_ok t" using draw_pool[OF assms(3), of 1] by (simp add: pool_ok_def t)
    moreover have "pr_bullets t = 1" using assms(4) x(1) by (simp add: t)
    ultimately show ?thesis using filled_table by (simp add: t)
  qed
  then show "gun_counts t" "scanning t" "same_seats s t" "pool_ok t" "pr_bullets t = 1" by blast+
qed

lemma reload_fail:
  assumes "pressure_reload draw s r = Fail e" "gun_ok s" "pr_bullets s = 0"
  shows "source e"
proof -
  have "numbers_ok (pressure_draw 1 s)"
    using draw_numbers[OF gun_numbers, of s 1] assms(2,3) by (simp add: taken_def gun_ok_def)
  moreover have few: "length (unknown_chambers s) \<le> 2 ^ 32"
    using assms(2) by (auto simp: unknown_chambers_def gun_ok_def gun_counts_def intro: order_trans[OF length_filter_le])
  ultimately show ?thesis using assms(1)
    using shuffle_source[of r "unknown_chambers s" e] few
    by (auto simp: pressure_reload_def bindr_Fail_iff dest: spin_fail split: if_splits)
qed

lemma prepare_ok:
  assumes "prepare_pool draw s r = Ok (t, r')"
  shows "same_seats s t" "pool_ok t" "pr_pool t \<noteq> []" "same_gun s t" "pr_event t = pr_event s"
proof -
  obtain n r2 pool where n: "draw r 3 = Ok (n, r2)"
    and pool: "roulette_shuffle draw r2 (map (\<lambda>i. if i < n + 1 then DudRound else LiveRound) [0..<9]) = Ok (pool, r')"
    and t: "t = s\<lparr>pr_pool_duds := int (n + 1), pr_pool := pool, pr_wave := pr_wave s + 1\<rparr>"
    using assms by (auto simp: prepare_pool_def res_simps Let_def)
  have m: "mset pool = mset (map (\<lambda>i. if i < n + 1 then DudRound else LiveRound) [0..<9])"
    using pool by (rule roulette_shuffle_mset)
  have "length pool = 9" using mset_eq_length[OF m] by simp
  moreover have "EmptyChamber \<notin> set pool" using mset_eq_setD[OF m] by auto
  ultimately show "pool_ok t" "pr_pool t \<noteq> []" by (auto simp: pool_ok_def t)
  show "same_gun s t" "pr_event t = pr_event s" by (simp_all add: t same_gun_def)
  show "same_seats s t" by (simp add: same_seats_def t)
qed

lemma prepare_fail: "prepare_pool draw s r = Fail e \<Longrightarrow> source e"
  using draw_source[of r 3 e] by (auto simp: prepare_pool_def bindr_Fail_iff Let_def dest: shuffle_source)

end


subsection \<open>The table\<close>

definition frame_ok :: "pressure_state \<Rightarrow> bool" where
  "frame_ok s \<longleftrightarrow> length (pr_unload_used s) = 6 \<and> length (pr_timeout_tiers s) = 6 \<and> length (pr_forfeited s) = 6 \<and>
     distinct (pr_alive s) \<and> set (pr_alive s) \<subseteq> {..<6} \<and> 0 \<le> pr_charge s \<and> pool_ok s"

definition seated :: "pressure_state \<Rightarrow> bool" where
  "seated s \<longleftrightarrow> 2 \<le> length (pr_alive s) \<and> pr_turn s \<in> set (pr_alive s) \<and> \<not> pr_ended s"

definition debt_ok :: "pressure_state \<Rightarrow> phase \<Rightarrow> bool" where
  "debt_ok s mode \<longleftrightarrow> pr_debt_owner s = None \<and> pr_debt s = 0 \<or>
     pr_debt_owner s = Some (pr_turn s) \<and> 1 \<le> pr_debt s \<and> pr_debt s \<le> 2 \<and> pr_rip_target s = None \<and> mode = Fire"

definition holder_ok :: "pressure_state \<Rightarrow> bool" where
  "holder_ok s \<longleftrightarrow> pr_holder s = None \<and> pr_aggressor s = None \<or>
     (\<exists>g\<in>set (pr_alive s). pr_holder s = Some (pr_turn s) \<and> pr_aggressor s = Some g \<and> g \<noteq> pr_turn s \<and> pr_rip_target s = None)"

definition riposte_ok :: "pressure_state \<Rightarrow> phase \<Rightarrow> bool" where
  "riposte_ok s mode \<longleftrightarrow> pr_rip_target s = None \<and> pr_rip_initiator s = None \<or>
     (\<exists>i\<in>set (pr_alive s). pr_rip_initiator s = Some i \<and> pr_rip_target s = Some (pr_turn s) \<and> i \<noteq> pr_turn s \<and> mode = Fire)"

definition votes_ok :: "pressure_state \<Rightarrow> bool" where
  "votes_ok s \<longleftrightarrow> distinct (map fst (pr_votes s)) \<and> fst ` set (pr_votes s) \<subseteq> set (pr_alive s) \<and>
     (\<forall>v\<in>set (pr_votes s). snd v) \<and> length (pr_votes s) < length (pr_alive s)"

definition pressure_playing :: "pressure_state \<Rightarrow> bool" where
  "pressure_playing s \<longleftrightarrow> frame_ok s \<and> seated s \<and> gun_counts s \<and> pr_phase s \<in> {Fire, Choice} \<and> scanning s \<and>
     1 \<le> pr_bullets s \<and> debt_ok s (pr_phase s) \<and> holder_ok s \<and> riposte_ok s (pr_phase s)"

definition pressure_voting :: "pressure_state \<Rightarrow> bool" where
  "pressure_voting s \<longleftrightarrow> frame_ok s \<and> seated s \<and> gun_counts s \<and> pr_phase s = Vote \<and> pr_bullets s = 0 \<and> pr_pool s = [] \<and>
     pr_resume s \<in> {Fire, Choice, ForcedPass} \<and> debt_ok s (pr_resume s) \<and> holder_ok s \<and>
     pr_rip_target s = None \<and> pr_rip_initiator s = None \<and> votes_ok s"

definition pressure_over :: "pressure_state \<Rightarrow> bool" where
  "pressure_over s \<longleftrightarrow> frame_ok s \<and> pr_ended s \<and> pr_phase s = Ended \<and> pr_eligible s = pr_alive s \<and> pr_alive s \<noteq> []"

definition pressure_inv :: "pressure_state \<Rightarrow> bool" where
  "pressure_inv s \<longleftrightarrow> pressure_playing s \<or> pressure_voting s \<or> pressure_over s"

text \<open>What a step hands to \<open>resume\<close>.\<close>

definition pressure_ready :: "phase \<Rightarrow> pressure_state \<Rightarrow> bool" where
  "pressure_ready mode s \<longleftrightarrow> frame_ok s \<and> gun_ok s \<and>
     (if pr_ended s then pr_phase s = Ended \<and> pr_eligible s = pr_alive s \<and> pr_alive s \<noteq> []
      else seated s \<and> mode \<in> {Fire, Choice, ForcedPass} \<and> debt_ok s mode \<and> holder_ok s \<and>
        pr_rip_target s = None \<and> pr_rip_initiator s = None)"

lemma same_seats_roles:
  assumes "same_seats s t"
  shows "seated t = seated s" "debt_ok t m = debt_ok s m" "holder_ok t = holder_ok s" "riposte_ok t m = riposte_ok s m"
    "votes_ok t = votes_ok s" "pool_ok t \<Longrightarrow> frame_ok s \<Longrightarrow> frame_ok t"
  using assms by (simp_all add: same_seats_def seated_def debt_ok_def holder_ok_def riposte_ok_def votes_ok_def frame_ok_def)

lemma say_table [simp]: "same_seats s (pressure_say es s)" "same_gun s (pressure_say es s)"
  "pr_pool (pressure_say es s) = pr_pool s" "pool_ok (pressure_say es s) = pool_ok s"
  "pr_bullets (pressure_say es s) = pr_bullets s"
  by (simp_all add: same_seats_def same_gun_def pressure_say_def pool_ok_def)

lemma index_of_mem: "x \<in> set xs \<Longrightarrow> \<exists>i<length xs. index_of xs x = Some i \<and> xs ! i = x"
proof -
  assume "x \<in> set xs"
  then obtain i where i: "i < length xs" "xs ! i = x" by (auto simp: in_set_conv_nth)
  then have "index_of xs x \<noteq> None" by (auto simp: index_of_def find_None_iff)
  then obtain j where "find (\<lambda>i. xs ! i = x) [0..<length xs] = Some j" by (auto simp: index_of_def)
  from find_Some_mem[OF this] show ?thesis using \<open>find _ _ = Some j\<close> by (auto simp: index_of_def)
qed

lemma next_alive_ok:
  assumes "distinct (pr_alive s)" "2 \<le> length (pr_alive s)" "seat \<in> set (pr_alive s)"
  obtains n where "next_alive s seat = Ok n" "n \<in> set (pr_alive s)" "n \<noteq> seat"
proof -
  let ?xs = "pr_alive s"
  obtain i where i: "i < length ?xs" "index_of ?xs seat = Some i" "?xs ! i = seat"
    using index_of_mem[OF assms(3)] by blast
  let ?j = "(i + 1) mod length ?xs"
  have j: "?j < length ?xs" using assms(2) by (intro mod_less_divisor) linarith
  have "?j \<noteq> i" using i(1) assms(2) by (cases "i + 1 = length ?xs") auto
  then have "?xs ! ?j \<noteq> seat" using nth_eq_iff_index_eq[OF assms(1) j i(1)] i(3) by simp
  moreover have "next_alive s seat = Ok (?xs ! ?j)" using i(2) assms(2) by (auto simp: next_alive_def)
  ultimately show ?thesis using that j by simp
qed

lemma pass_ok:
  assumes "seated s" "frame_ok s" "debt_ok s m" "m \<noteq> Fire" "holder_ok s" "pr_rip_target s = None"
  obtains t where "pressure_pass s = Ok t" "seated t" "frame_ok t" "same_gun s t" "pr_phase t = Fire" "pr_charge t = 0"
    "pr_debt_owner t = None" "pr_debt t = 0" "pr_holder t = None" "pr_aggressor t = None"
    "pr_rip_target t = None" "pr_rip_initiator t = pr_rip_initiator s" "pr_turn t \<noteq> pr_turn s"
    "pr_alive t = pr_alive s" "pr_event t = pr_event s" "pr_pool t = pr_pool s"
proof -
  obtain n where n: "next_alive s (pr_turn s) = Ok n" "n \<in> set (pr_alive s)" "n \<noteq> pr_turn s"
    using next_alive_ok assms(1,2) by (auto simp: seated_def frame_ok_def)
  define t where "t = (let s' = s\<lparr>pr_turn := n, pr_charge := 0, pr_phase := Fire\<rparr> in
    if pr_holder s' = Some (pr_turn s) then s'\<lparr>pr_holder := None, pr_aggressor := None\<rparr> else s')"
  have p: "pressure_pass s = Ok t" by (simp add: pressure_pass_def n(1) t_def Let_def)
  show ?thesis
    by (rule that[OF p]) (use assms n in \<open>auto simp: t_def Let_def seated_def frame_ok_def same_gun_def debt_ok_def
      holder_ok_def pool_ok_def\<close>)
qed

lemma pass_fail: "pressure_pass s = Fail e \<Longrightarrow> pr_alive s = []"
  by (auto simp: pressure_pass_def bindr_Fail_iff next_alive_def Let_def split: if_splits)

context rule_sampler
begin

lemma resume_ok:
  assumes "pressure_resume draw mode s r = Ok (t, r')" "pressure_ready mode s"
  shows "pressure_inv t"
proof (cases "pr_ended s")
  case True
  then show ?thesis using assms by (simp add: pressure_resume_def pressure_ready_def pressure_inv_def pressure_over_def)
next
  case False
  then have rd: "frame_ok s" "gun_ok s" "seated s" "mode \<in> {Fire, Choice, ForcedPass}" "debt_ok s mode" "holder_ok s"
    "pr_rip_target s = None" "pr_rip_initiator s = None"
    using assms(2) by (simp_all add: pressure_ready_def)
  show ?thesis
  proof (cases "pr_bullets s = 0 \<and> pr_pool s = []")
    case True
    then have "t = pressure_say [PvVote] (s\<lparr>pr_phase := Vote, pr_votes := [], pr_resume := mode\<rparr>)"
      using assms(1) False by (simp add: pressure_resume_def)
    then have "pressure_voting t" using True rd
      by (auto simp: pressure_voting_def pressure_say_def frame_ok_def pool_ok_def seated_def gun_ok_def gun_counts_def
          debt_ok_def holder_ok_def votes_ok_def)
    then show ?thesis by (simp add: pressure_inv_def)
  next
    case nv: False
    obtain u r2 where u: "(if pr_bullets s = 0 then bindr (pressure_reload draw s r) (\<lambda>(s, r). Ok (pressure_say [PvRefilled] s, r))
        else Ok (s, r)) = Ok (u, r2)" "pressure_enter mode u = Ok t"
      using assms(1) nv False by (auto simp: pressure_resume_def res_simps)
    have k: "gun_counts u \<and> scanning u \<and> same_seats s u \<and> pool_ok u \<and> 1 \<le> pr_bullets u"
    proof (cases "pr_bullets s = 0")
      case True
      then obtain v where v: "pressure_reload draw s r = Ok (v, r2)" "u = pressure_say [PvRefilled] v"
        using u(1) by (auto simp: res_simps)
      have "pool_ok s" using rd(1) by (simp add: frame_ok_def)
      from reload_ok[OF v(1) rd(2) this] True nv have "gun_counts v" "scanning v" "same_seats s v" "pool_ok v" "pr_bullets v = 1"
        by blast+
      then show ?thesis using same_gun_ok[of v u] same_seats_trans[of s v u] by (simp add: v(2))
    next
      case no: False
      have "0 \<le> pr_bullets s" using rd(2) by (simp add: gun_ok_def gun_counts_def)
      moreover have "scanning s" using rd(2) no scanned_empty by (auto simp: gun_ok_def)
      ultimately show ?thesis using u(1) no rd by (simp add: gun_ok_def frame_ok_def)
    qed
    have tu: "seated u" "frame_ok u" "debt_ok u mode" "holder_ok u" "pr_rip_target u = None" "pr_rip_initiator u = None"
      using k rd same_seats_roles[of s u] same_seats_simps[of s u] by simp_all
    show ?thesis
    proof (cases "mode = ForcedPass")
      case True
      have "pressure_pass u = Ok t" using u(2) True by (simp add: pressure_enter_def)
      moreover have "mode \<noteq> Fire" using True by simp
      from pass_ok[OF tu(1,2,3) this tu(4,5)] obtain v where v: "pressure_pass u = Ok v" "seated v" "frame_ok v" "same_gun u v"
        "pr_phase v = Fire" "pr_debt_owner v = None" "pr_debt v = 0" "pr_holder v = None" "pr_aggressor v = None"
        "pr_rip_target v = None" "pr_rip_initiator v = pr_rip_initiator u" by metis
      ultimately have "v = t" by simp
      then have "pressure_playing t" using v k tu(6) same_gun_ok[OF v(4)]
        by (auto simp: pressure_playing_def debt_ok_def holder_ok_def riposte_ok_def same_gun_def)
      then show ?thesis by (simp add: pressure_inv_def)
    next
      case nf: False
      then have "t = u\<lparr>pr_phase := mode\<rparr>" using u(2) by (simp add: pressure_enter_def)
      then have "pressure_playing t" using nf tu k rd(4)
        by (auto simp: pressure_playing_def frame_ok_def pool_ok_def seated_def gun_counts_def scanning_def debt_ok_def
            holder_ok_def riposte_ok_def)
      then show ?thesis by (simp add: pressure_inv_def)
    qed
  qed
qed

end


subsection \<open>A shot\<close>

lemma spend_simps [simp]:
  "pr_alive (spend s) = pr_alive s" "pr_turn (spend s) = pr_turn s" "pr_debt_owner (spend s) = pr_debt_owner s"
  "pr_debt (spend s) = pr_debt s" "pr_aggressor (spend s) = pr_aggressor s" "pr_holder (spend s) = pr_holder s"
  "pr_rip_initiator (spend s) = pr_rip_initiator s" "pr_rip_target (spend s) = pr_rip_target s"
  "pr_unload_used (spend s) = pr_unload_used s" "pr_timeout_tiers (spend s) = pr_timeout_tiers s"
  "pr_forfeited (spend s) = pr_forfeited s" "pr_ended (spend s) = pr_ended s" "pr_pool (spend s) = pr_pool s"
  by (simp_all add: spend_def Let_def split: chamber.splits)

lemma spend_charge: "0 \<le> pr_charge s \<Longrightarrow> 0 \<le> pr_charge (spend s)"
  by (simp add: spend_def Let_def split: chamber.splits)

lemma spend_gun:
  assumes "gun_counts s" "scanning s"
  shows "gun_ok (spend s)"
proof -
  let ?p = "pr_pointer s" and ?b = "pr_chambers s ! pr_pointer s"
  have g: "length (pr_chambers s) = 6" "length (pr_revealed s) = 6" "?p < 6"
    "pr_bullets s = int (loaded (pr_chambers s))" "pr_gun_duds s = int (count_duds (pr_chambers s))"
    "\<forall>i<6. pr_chambers s ! i \<noteq> EmptyChamber \<longrightarrow> pr_revealed s ! i = Unknown"
    using assms(1) by (simp_all add: gun_counts_def)
  have l: "int (loaded ((pr_chambers s)[?p := EmptyChamber])) = pr_bullets s - (if ?b = EmptyChamber then 0 else 1)"
    using length_filter_update[of ?p "pr_chambers s" "\<lambda>c. c \<noteq> EmptyChamber" EmptyChamber] g
    by (simp add: loaded_def split: if_splits)
  have d: "int (count_duds ((pr_chambers s)[?p := EmptyChamber])) = pr_gun_duds s - (if ?b = DudRound then 1 else 0)"
    using length_filter_update[of ?p "pr_chambers s" "\<lambda>c. c = DudRound" EmptyChamber] g
    by (simp add: count_duds_def split: if_splits)
  define t where "t = spend s"
  have t: "pr_chambers t = (pr_chambers s)[?p := EmptyChamber]" "pr_pointer t = (?p + 1) mod 6"
    "pr_bullets t = pr_bullets s - (if ?b = EmptyChamber then 0 else 1)"
    "pr_gun_duds t = pr_gun_duds s - (if ?b = DudRound then 1 else 0)"
    "\<exists>v. v \<noteq> Unknown \<and> pr_revealed t = (pr_revealed s)[?p := v]"
    by (simp_all add: t_def spend_def Let_def split: chamber.splits) auto
  obtain v where v: "v \<noteq> Unknown" "pr_revealed t = (pr_revealed s)[?p := v]" using t(5) by blast
  have "gun_counts t"
    using g l d t v by (auto simp: gun_counts_def nth_list_update)
  moreover have "scanning t \<or> scanned t"
  proof (cases "?p = 5")
    case True
    then have "scanned t" using assms(2) t(2) v g(2) by (auto simp: scanned_def scanning_def nth_list_update)
    then show ?thesis ..
  next
    case False
    then have "pr_pointer t = ?p + 1" using t(2) g(3) by simp
    then have "scanning t" using assms(2) v g(2,3) by (auto simp: scanning_def nth_list_update)
    then show ?thesis ..
  qed
  ultimately show ?thesis by (simp add: gun_ok_def t_def)
qed

text \<open>Removing a seat from the table.\<close>

lemma remove_facts:
  "pr_alive (pressure_remove seat s) = filter (\<lambda>v. v \<noteq> seat) (pr_alive s)"
  "pr_turn (pressure_remove seat s) = pr_turn s" "same_gun s (pressure_remove seat s)"
  "pr_pool (pressure_remove seat s) = pr_pool s" "pr_charge (pressure_remove seat s) = pr_charge s"
  "pr_unload_used (pressure_remove seat s) = pr_unload_used s" "pr_timeout_tiers (pressure_remove seat s) = pr_timeout_tiers s"
  "pr_forfeited (pressure_remove seat s) = pr_forfeited s"
  by (simp_all add: pressure_remove_def clear_debt_def pressure_finish_def same_gun_def Let_def)

lemma remove_debt:
  "pr_debt_owner (pressure_remove seat s) = (if pr_debt_owner s = Some seat then None else pr_debt_owner s)"
  "pr_debt (pressure_remove seat s) = (if pr_debt_owner s = Some seat then 0 else pr_debt s)"
  by (simp_all add: pressure_remove_def clear_debt_def pressure_finish_def Let_def)

lemma remove_holder:
  "pr_holder (pressure_remove seat s) = (if pr_holder s = Some seat \<or> pr_aggressor s = Some seat then None else pr_holder s)"
  "pr_aggressor (pressure_remove seat s) = (if pr_holder s = Some seat \<or> pr_aggressor s = Some seat then None else pr_aggressor s)"
  "pr_rip_target (pressure_remove seat s) =
     (if pr_rip_target s = Some seat \<or> pr_rip_initiator s = Some seat then None else pr_rip_target s)"
  "pr_rip_initiator (pressure_remove seat s) =
     (if pr_rip_target s = Some seat \<or> pr_rip_initiator s = Some seat then None else pr_rip_initiator s)"
  by (simp_all add: pressure_remove_def clear_debt_def pressure_finish_def Let_def)

lemma remove_ended:
  "\<not> pr_ended s \<Longrightarrow> pr_ended (pressure_remove seat s) \<longleftrightarrow> length (filter (\<lambda>v. v \<noteq> seat) (pr_alive s)) \<le> 1"
  "length (filter (\<lambda>v. v \<noteq> seat) (pr_alive s)) \<le> 1 \<Longrightarrow> pr_phase (pressure_remove seat s) = Ended \<and>
     pr_eligible (pressure_remove seat s) = filter (\<lambda>v. v \<noteq> seat) (pr_alive s)"
  by (simp_all add: pressure_remove_def clear_debt_def pressure_finish_def Let_def)

lemma remove_ready:
  assumes "frame_ok s" "gun_ok s" "seated s" "seat \<in> set (pr_alive s)"
    "nxt \<in> set (pr_alive s)" "nxt \<noteq> seat"
    "pr_debt_owner s = None \<and> pr_debt s = 0 \<or> pr_debt_owner s = Some seat"
    "pr_holder s = None \<and> pr_aggressor s = None \<or> pr_holder s = Some seat"
    "pr_rip_target s = None \<and> pr_rip_initiator s = None"
  shows "pressure_ready Fire ((pressure_remove seat s)\<lparr>pr_turn := nxt\<rparr>)"
proof -
  let ?t = "(pressure_remove seat s)\<lparr>pr_turn := nxt\<rparr>"
  let ?rest = "filter (\<lambda>v. v \<noteq> seat) (pr_alive s)"
  have nin: "nxt \<in> set ?rest" using assms(5,6) by simp
  then have ne: "?rest \<noteq> []" by force
  have sg: "same_gun s ?t" using remove_facts(3)[of s seat] by (simp add: same_gun_def)
  have fr: "frame_ok ?t" using assms(1) by (auto simp: frame_ok_def pool_ok_def remove_facts)
  have end': "pr_ended ?t \<longleftrightarrow> length ?rest \<le> 1" using remove_ended(1) assms(3) by (simp add: seated_def)
  show ?thesis
  proof (cases "length ?rest \<le> 1")
    case True
    then show ?thesis using fr same_gun_ok[OF sg] assms(2) ne end' remove_ended(2)[OF True]
      by (simp add: pressure_ready_def remove_facts)
  next
    case False
    then show ?thesis using fr same_gun_ok[OF sg] assms(2,7-9) end' nin
      by (auto simp: pressure_ready_def seated_def debt_ok_def holder_ok_def remove_facts remove_debt remove_holder)
  qed
qed

lemma pay_debt_facts:
  "same_gun s (pay_debt seat s)" "pr_alive (pay_debt seat s) = pr_alive s" "pr_turn (pay_debt seat s) = pr_turn s"
  "pr_holder (pay_debt seat s) = pr_holder s" "pr_aggressor (pay_debt seat s) = pr_aggressor s"
  "pr_rip_target (pay_debt seat s) = pr_rip_target s" "pr_rip_initiator (pay_debt seat s) = pr_rip_initiator s"
  "pr_ended (pay_debt seat s) = pr_ended s" "frame_ok (pay_debt seat s) = frame_ok s"
  by (simp_all add: pay_debt_def Let_def same_gun_def frame_ok_def pool_ok_def)

lemma plain_shot_ready:
  assumes "plain_shot seat hit unload s = Ok (t, mode)" "frame_ok s" "gun_ok s" "seated s" "seat = pr_turn s"
    "debt_ok s Fire" "unload \<Longrightarrow> pr_debt_owner s = None" "holder_ok s" "pr_rip_target s = None" "pr_rip_initiator s = None"
  shows "pressure_ready mode t"
proof -
  let ?u = "pay_debt seat s"
  have u: "frame_ok ?u" "gun_ok ?u" "seated ?u" "holder_ok ?u" "pr_rip_target ?u = None" "pr_rip_initiator ?u = None"
    using assms(2-4,8-10) same_gun_ok[OF pay_debt_facts(1)] by (simp_all add: pay_debt_facts seated_def holder_ok_def)
  have debt: "pr_debt_owner ?u = None \<and> pr_debt ?u = 0 \<or> pr_debt_owner ?u = Some seat \<and> 1 \<le> pr_debt ?u \<and> pr_debt ?u \<le> 2"
    using assms(5,6) by (auto simp: debt_ok_def pay_debt_def debt_of_def Let_def)
  show ?thesis
  proof (cases hit)
    case True
    then obtain nxt where n: "next_alive ?u seat = Ok nxt" "t = (pressure_remove seat ?u)\<lparr>pr_turn := nxt\<rparr>" "mode = Fire"
      using assms(1) by (auto simp: plain_shot_def Let_def res_simps)
    have al: "distinct (pr_alive ?u)" "2 \<le> length (pr_alive ?u)" "seat \<in> set (pr_alive ?u)"
      using u(1,3) assms(5) by (simp_all add: frame_ok_def seated_def pay_debt_facts)
    from next_alive_ok[OF al] n(1) have "nxt \<in> set (pr_alive ?u)" "nxt \<noteq> seat" by (metis res.inject(1))+
    then show ?thesis unfolding n(2,3) using u al(3) debt assms(5)
      by (intro remove_ready) (auto simp: holder_ok_def pay_debt_facts)
  next
    case False
    then have t: "t = ?u" "mode = (if debt_of ?u seat > 0 then Fire else if unload then ForcedPass else Choice)"
      using assms(1) False by (auto simp: plain_shot_def Let_def)
    have "unload \<Longrightarrow> pr_debt_owner ?u = None" using assms(7) by (simp add: pay_debt_def debt_of_def)
    then have "debt_ok ?u mode" using debt u(5) t(2) assms(5)
      by (auto simp: debt_ok_def debt_of_def pay_debt_facts split: if_splits)
    then show ?thesis using t u by (auto simp: pressure_ready_def seated_def)
  qed
qed

lemma riposte_shot_ready:
  assumes "riposte_shot seat hit s = Ok (t, mode)" "frame_ok s" "gun_ok s" "seated s" "seat = pr_turn s"
    "debt_ok s Fire" "holder_ok s" "riposte_ok s Fire" "pr_rip_target s \<noteq> None"
  shows "pressure_ready mode t"
proof -
  obtain i where i: "i \<in> set (pr_alive s)" "pr_rip_initiator s = Some i" "pr_rip_target s = Some seat" "i \<noteq> seat"
    using assms(5,8,9) by (auto simp: riposte_ok_def)
  have al: "distinct (pr_alive s)" "2 \<le> length (pr_alive s)" "seat \<in> set (pr_alive s)"
    using assms(2,4,5) by (simp_all add: frame_ok_def seated_def)
  have d: "pr_debt_owner s = None" "pr_debt s = 0" using assms(6,9) by (auto simp: debt_ok_def)
  have h: "pr_holder s = None" "pr_aggressor s = None" using assms(7,9) by (auto simp: holder_ok_def)
  obtain n1 nxt where n: "next_alive s i = Ok n1" "(if hit \<and> n1 = seat then next_alive s seat else Ok n1) = Ok nxt"
    "t = (if hit then pressure_remove seat (s\<lparr>pr_rip_target := None, pr_rip_initiator := None, pr_turn := nxt\<rparr>)
          else s\<lparr>pr_rip_target := None, pr_rip_initiator := None, pr_turn := nxt\<rparr>)"
    "mode = (if hit \<or> nxt \<noteq> seat then Fire else Choice)"
    using assms(1) i(2) by (auto simp: riposte_shot_def res_simps Let_def)
  have n1: "n1 \<in> set (pr_alive s)" using next_alive_ok[OF al(1,2) i(1)] n(1) by (metis res.inject(1))
  have nxt: "nxt \<in> set (pr_alive s)" "hit \<Longrightarrow> nxt \<noteq> seat"
  proof -
    have "hit \<and> n1 = seat \<Longrightarrow> nxt \<in> set (pr_alive s) \<and> nxt \<noteq> seat"
      using next_alive_ok[OF al] n(2) by (metis res.inject(1))
    then show "nxt \<in> set (pr_alive s)" "hit \<Longrightarrow> nxt \<noteq> seat" using n(2) n1 by (auto split: if_splits)
  qed
  let ?s = "s\<lparr>pr_rip_target := None, pr_rip_initiator := None, pr_turn := nxt\<rparr>"
  have sg: "same_gun s ?s" by (simp add: same_gun_def)
  have s': "frame_ok ?s" "gun_ok ?s" "seated ?s"
    using assms(2-4) nxt(1) same_gun_ok[OF sg] by (simp_all add: frame_ok_def pool_ok_def seated_def)
  show ?thesis
  proof (cases hit)
    case True
    have "pressure_ready Fire ((pressure_remove seat ?s)\<lparr>pr_turn := nxt\<rparr>)"
      using s' al(3) nxt True d h by (intro remove_ready) auto
    moreover have "(pressure_remove seat ?s)\<lparr>pr_turn := nxt\<rparr> = pressure_remove seat ?s"
      using remove_facts(2)[of seat ?s] by simp
    ultimately show ?thesis using n(3,4) True by simp
  next
    case False
    then show ?thesis using n(3,4) s' d h by (auto simp: pressure_ready_def seated_def debt_ok_def holder_ok_def)
  qed
qed

lemma shot_fails_only_dead:
  "riposte_shot seat hit s = Fail e \<Longrightarrow> pr_alive s = [] \<or> pr_rip_initiator s = None"
  "plain_shot seat hit unload s = Fail e \<Longrightarrow> pr_alive s = []"
  by (auto simp: riposte_shot_def plain_shot_def bindr_Fail_iff next_alive_def Let_def pay_debt_facts
      split: option.splits if_splits)


subsection \<open>Every action keeps the invariant\<close>

lemma ready_say: "pressure_ready m (pressure_say es s) = pressure_ready m s"
  by (simp add: pressure_ready_def frame_ok_def pool_ok_def gun_ok_def gun_counts_def scanning_def scanned_def seated_def
      debt_ok_def holder_ok_def pressure_say_def)

lemma playing_parts:
  assumes "pressure_playing s"
  shows "frame_ok s" "seated s" "gun_ok s" "gun_counts s" "scanning s" "1 \<le> pr_bullets s" "debt_ok s (pr_phase s)" "holder_ok s"
    "riposte_ok s (pr_phase s)" "distinct (pr_alive s)" "2 \<le> length (pr_alive s)" "pr_turn s \<in> set (pr_alive s)"
    "pr_pointer s < length (pr_chambers s)"
  using assms by (simp_all add: pressure_playing_def gun_ok_def frame_ok_def seated_def gun_counts_def)

context rule_sampler
begin

lemma resume_fail:
  assumes "pressure_resume draw mode s r = Fail e" "pressure_ready mode s"
  shows "source e"
proof -
  have ne: "\<not> pr_ended s" using assms(1) by (auto simp: pressure_resume_def)
  then have rd: "frame_ok s" "gun_ok s" "seated s" using assms(2) by (simp_all add: pressure_ready_def)
  have nopass: "pressure_enter mode u \<noteq> Fail e'" if "same_seats s u" for u e'
  proof -
    have "pr_alive u \<noteq> []" using rd(3) same_seats_simps(1)[OF that] by (auto simp: seated_def)
    then show ?thesis using pass_fail[of u e'] by (auto simp: pressure_enter_def)
  qed
  have nv: "\<not> (pr_bullets s = 0 \<and> pr_pool s = [])" using assms(1) ne by (auto simp: pressure_resume_def)
  show ?thesis
  proof (cases "pr_bullets s = 0")
    case True
    then have "pr_pool s \<noteq> []" "pool_ok s" using nv rd(1) by (simp_all add: frame_ok_def)
    then have tab: "same_seats s v" if "pressure_reload draw s r = Ok (v, r2)" for v r2
      using reload_ok(3)[OF that rd(2) _ True] by simp
    have "pressure_reload draw s r = Fail e"
    proof (rule ccontr)
      assume "pressure_reload draw s r \<noteq> Fail e"
      then obtain v r2 where v: "pressure_reload draw s r = Ok (v, r2)" "pressure_enter mode (pressure_say [PvRefilled] v) = Fail e"
        using assms(1) ne nv True by (auto simp: pressure_resume_def bindr_Fail_iff res_simps)
      have "same_seats s (pressure_say [PvRefilled] v)" using same_seats_trans[OF tab[OF v(1)]] by simp
      then show False using nopass v(2) by blast
    qed
    then show ?thesis using reload_fail[OF _ rd(2) True] by blast
  next
    case False
    then show ?thesis using assms(1) ne nopass[of s] by (auto simp: pressure_resume_def bindr_Fail_iff)
  qed
qed

lemma shot_parts:
  assumes "frame_ok s" "seated s" "gun_counts s" "scanning s" "debt_ok s Fire" "holder_ok s" "riposte_ok s Fire"
    "unload \<Longrightarrow> pr_debt_owner s = None"
    "(if pr_rip_target s \<noteq> None then riposte_shot (pr_turn s) hit (pressure_say es (spend s))
      else plain_shot (pr_turn s) hit unload (pressure_say es (spend s))) = Ok (t, mode)"
  shows "pressure_ready mode t"
proof -
  let ?u = "pressure_say es (spend s)"
  have f: "frame_ok ?u"
    using assms(1) spend_charge by (simp add: frame_ok_def pool_ok_def pressure_say_def)
  have g: "gun_ok ?u" using spend_gun[OF assms(3,4)] same_gun_ok[OF say_table(2)] by blast
  have roles: "seated ?u" "debt_ok ?u Fire" "holder_ok ?u" "riposte_ok ?u Fire" "pr_turn ?u = pr_turn s"
    "pr_rip_target ?u = pr_rip_target s" "pr_debt_owner ?u = pr_debt_owner s" "pr_rip_initiator ?u = pr_rip_initiator s"
    using assms(2,5-7) by (simp_all add: pressure_say_def seated_def debt_ok_def holder_ok_def riposte_ok_def)
  show ?thesis
  proof (cases "pr_rip_target s = None")
    case True
    then have "pr_rip_initiator s = None" using assms(7) by (auto simp: riposte_ok_def)
    then show ?thesis using assms(8,9) True f g roles by (intro plain_shot_ready[of "pr_turn s" hit unload ?u]) auto
  next
    case False
    then show ?thesis using assms(9) f g roles by (intro riposte_shot_ready[of "pr_turn s" hit ?u]) auto
  qed
qed

lemma shot_ok:
  assumes "pressure_shot draw unload s r = Ok (t, r')" "frame_ok s" "seated s" "gun_counts s" "scanning s"
    "debt_ok s Fire" "holder_ok s" "riposte_ok s Fire" "unload \<Longrightarrow> pr_debt_owner s = None"
  shows "pressure_inv t"
proof -
  let ?hit = "pr_chambers s ! pr_pointer s = LiveRound"
  let ?es = "[PvShot (pr_turn s + 1) (pr_pointer s + 1) (pr_chambers s ! pr_pointer s)]"
  obtain u mode where u: "(if pr_rip_target (pressure_say ?es (spend s)) \<noteq> None
      then riposte_shot (pr_turn s) ?hit (pressure_say ?es (spend s))
      else plain_shot (pr_turn s) ?hit unload (pressure_say ?es (spend s))) = Ok (u, mode)"
    "pressure_resume draw mode u r = Ok (t, r')"
    using assms(1) by (auto simp: pressure_shot_def Let_def res_simps split: if_splits)
  have "pr_rip_target (pressure_say ?es (spend s)) = pr_rip_target s" by (simp add: pressure_say_def)
  then have "pressure_ready mode u"
    using shot_parts[OF assms(2-9), where hit = ?hit and es = ?es and t = u and mode = mode and unload = unload] u(1) by simp
  then show ?thesis using resume_ok u(2) by blast
qed

lemma shot_fail:
  assumes "pressure_shot draw unload s r = Fail e" "frame_ok s" "seated s" "gun_counts s" "scanning s"
    "debt_ok s Fire" "holder_ok s" "riposte_ok s Fire" "unload \<Longrightarrow> pr_debt_owner s = None"
  shows "source e"
proof -
  let ?hit = "pr_chambers s ! pr_pointer s = LiveRound"
  let ?es = "[PvShot (pr_turn s + 1) (pr_pointer s + 1) (pr_chambers s ! pr_pointer s)]"
  let ?u = "pressure_say ?es (spend s)"
  let ?R = "(if pr_rip_target ?u \<noteq> None then riposte_shot (pr_turn s) ?hit ?u else plain_shot (pr_turn s) ?hit unload ?u)"
  have rt: "pr_rip_target ?u = pr_rip_target s" "pr_alive ?u = pr_alive s" "pr_rip_initiator ?u = pr_rip_initiator s"
    by (simp_all add: pressure_say_def)
  have eq: "bindr ?R (\<lambda>(s, mode). pressure_resume draw mode s r) = Fail e"
  proof -
    have p: "\<not> pr_pointer s \<ge> length (pr_chambers s)" using assms(4) by (simp add: gun_counts_def)
    show ?thesis using assms(1) unfolding pressure_shot_def Let_def if_not_P[OF p] .
  qed
  have "pr_alive s \<noteq> []" using assms(3) by (auto simp: seated_def)
  moreover have "pr_rip_target s \<noteq> None \<Longrightarrow> pr_rip_initiator s \<noteq> None" using assms(8) by (auto simp: riposte_ok_def)
  ultimately have "?R \<noteq> Fail e" using shot_fails_only_dead(1)[of "pr_turn s" ?hit ?u e] 
      shot_fails_only_dead(2)[of "pr_turn s" ?hit unload ?u e] rt by (auto split: if_splits)
  then obtain t mode where t: "?R = Ok (t, mode)" "pressure_resume draw mode t r = Fail e"
    using eq unfolding bindr_Fail_iff by auto
  have "pressure_ready mode t"
    using shot_parts[OF assms(2-9), where hit = ?hit and es = ?es and t = t and mode = mode and unload = unload] t(1) rt(1) by simp
  then show ?thesis using resume_fail t(2) by blast
qed

end


text \<open>A step that either keeps the invariant or reports an error of the random source.\<close>

definition sound_under :: "(roulette_error \<Rightarrow> bool) \<Rightarrow> (roulette_error, pressure_state \<times> 's) res \<Rightarrow> bool" where
  "sound_under source m \<longleftrightarrow> (\<forall>t r. m = Ok (t, r) \<longrightarrow> pressure_inv t) \<and> (\<forall>e. m = Fail e \<longrightarrow> source e)"

lemma playing_inv: "pressure_playing s \<Longrightarrow> pressure_inv s"
  by (simp add: pressure_inv_def)

lemma choice_free:
  assumes "pressure_playing s" "pr_phase s = Choice"
  shows "pr_debt_owner s = None" "pr_debt s = 0" "pr_rip_target s = None" "pr_rip_initiator s = None"
  using assms by (auto simp: pressure_playing_def debt_ok_def riposte_ok_def)

context rule_sampler
begin

abbreviation sound_step :: "(roulette_error, pressure_state \<times> 's) res \<Rightarrow> bool" where
  "sound_step \<equiv> sound_under source"

lemma sound_bindr:
  "(\<And>e. m = Fail e \<Longrightarrow> source e) \<Longrightarrow> (\<And>x. m = Ok x \<Longrightarrow> sound_step (f x)) \<Longrightarrow> sound_step (bindr m f)"
  by (cases m) (auto simp: sound_under_def)

lemma sound_Ok: "pressure_inv t \<Longrightarrow> sound_step (Ok (t, r))"
  by (simp add: sound_under_def)

lemma sound_resume: "pressure_ready mode s \<Longrightarrow> sound_step (pressure_resume draw mode s r)"
  using resume_ok resume_fail by (fastforce simp: sound_under_def)

lemma sound_shot:
  assumes "frame_ok s" "seated s" "gun_counts s" "scanning s"
    "debt_ok s Fire" "holder_ok s" "riposte_ok s Fire" "unload \<Longrightarrow> pr_debt_owner s = None"
  shows "sound_step (pressure_shot draw unload s r)"
  using shot_ok[OF _ assms] shot_fail[OF _ assms] by (fastforce simp: sound_under_def)

lemma sound_pass:
  assumes "pressure_playing s" "pr_phase s = Choice"
  shows "sound_step (bindr (pressure_pass s) (\<lambda>s. Ok (pressure_say [PvPassed] s, r)))"
proof -
  note p = playing_parts[OF assms(1)] and f = choice_free[OF assms]
  obtain t where t: "pressure_pass s = Ok t" "seated t" "frame_ok t" "same_gun s t" "pr_phase t = Fire"
    "pr_debt_owner t = None" "pr_debt t = 0" "pr_holder t = None" "pr_aggressor t = None"
    "pr_rip_target t = None" "pr_rip_initiator t = pr_rip_initiator s"
    using pass_ok[OF p(2,1,7) _ p(8) f(3)] assms(2) by (metis phase.distinct(1))
  have "pressure_playing (pressure_say [PvPassed] t)"
    using t p f same_gun_ok[OF t(4)]
    by (simp add: pressure_playing_def pressure_say_def frame_ok_def pool_ok_def seated_def gun_counts_def scanning_def
        debt_ok_def holder_ok_def riposte_ok_def same_gun_def)
  then show ?thesis by (simp add: t(1) sound_Ok playing_inv)
qed

lemma sound_again:
  assumes "pressure_playing s" "pr_phase s = Choice"
  shows "pressure_inv (pressure_say [PvAgain] (s\<lparr>pr_charge := pr_charge s + 1, pr_phase := Fire\<rparr>))"
  using assms choice_free[OF assms]
  by (intro playing_inv) (auto simp: pressure_playing_def pressure_say_def frame_ok_def pool_ok_def seated_def gun_counts_def
      scanning_def debt_ok_def holder_ok_def riposte_ok_def)

lemma sound_riposte:
  assumes "pressure_playing s" "pr_phase s = Choice" "pr_holder s = Some seat" "seat = pr_turn s"
  shows "sound_step (bindr (do_riposte seat s) (\<lambda>s. Ok (s, r)))"
proof -
  obtain g where g: "g \<in> set (pr_alive s)" "pr_aggressor s = Some g" "g \<noteq> pr_turn s"
    using assms(1,3) by (auto simp: pressure_playing_def holder_ok_def)
  have "pressure_playing (s\<lparr>pr_rip_initiator := Some seat, pr_rip_target := Some g, pr_turn := g, pr_aggressor := None,
      pr_holder := None, pr_charge := 0, pr_phase := Fire, pr_event := [PvRiposte (seat + 1) (g + 1)]\<rparr>)"
    using assms(1,4) g choice_free[OF assms(1,2)]
    by (simp add: pressure_playing_def frame_ok_def pool_ok_def seated_def gun_counts_def
      scanning_def debt_ok_def holder_ok_def riposte_ok_def)
  then show ?thesis by (simp add: do_riposte_def g(2) sound_Ok playing_inv)
qed

end


lemma taken_length: "0 \<le> n \<Longrightarrow> n \<le> int (length (pr_pool s)) \<Longrightarrow> int (length (taken n s)) = n"
  by (simp add: taken_def)

context rule_sampler
begin

text \<open>A spin after the counters changed within their range.\<close>

lemma sound_spin_then:
  assumes "numbers_ok s"
    "\<And>t r. gun_counts t \<Longrightarrow> scanning t \<Longrightarrow> same_seats s t \<Longrightarrow> pr_pool t = pr_pool s \<Longrightarrow> pr_bullets t = pr_bullets s \<Longrightarrow>
       sound_step (f (t, r))"
  shows "sound_step (bindr (pressure_spin draw s r) f)"
proof (rule sound_bindr)
  show "source e" if "pressure_spin draw s r = Fail e" for e using spin_fail[OF that assms(1)] .
  show "sound_step (f x)" if "pressure_spin draw s r = Ok x" for x
    using that assms(2) spin_ok[OF _ assms(1)] by (cases x) simp
qed

lemma sound_charge:
  assumes "pressure_playing s" "pr_phase s = Choice" "seat = pr_turn s" "load_count s > 0"
  shows "sound_step (do_charge draw seat s r)"
proof -
  note p = playing_parts[OF assms(1)] and f = choice_free[OF assms(1,2)]
  let ?n = "load_count s"
  let ?u = "pressure_draw ?n s"
  have n: "int (length (taken ?n s)) = ?n" using assms(4) by (intro taken_length) (auto simp: load_count_def)
  have "pr_bullets s + ?n \<le> 6" by (simp add: load_count_def)
  then have num: "numbers_ok ?u" using draw_numbers[OF gun_numbers[OF p(4)], of ?n] n by simp
  show ?thesis unfolding do_charge_def Let_def
  proof (rule sound_spin_then[OF num], unfold prod.case)
    fix t r assume t: "gun_counts t" "scanning t" "same_seats ?u t" "pr_pool t = pr_pool ?u" "pr_bullets t = pr_bullets ?u"
    have st: "same_seats s t" using same_seats_trans[OF draw_table t(3)] .
    note tt = same_seats_roles[OF st] same_seats_simps[OF st]
    have po: "pool_ok t" using draw_pool[of s ?n] p(1) t(4) by (simp add: frame_ok_def pool_ok_def)
    have t': "seated t" "frame_ok t" "debt_ok t Choice" "holder_ok t" "pr_rip_target t = None" "pr_rip_initiator t = None"
      "1 \<le> pr_bullets t" "pr_turn t = seat"
      using tt(6)[OF po p(1)] p(2,6,7,8) tt assms(2,3) f t(5) n assms(4) by simp_all
    obtain v where v: "pressure_pass t = Ok v" "seated v" "frame_ok v" "same_gun t v" "pr_phase v = Fire"
      "pr_rip_target v = None" "pr_rip_initiator v = pr_rip_initiator t" "pr_turn v \<noteq> pr_turn t" "pr_alive v = pr_alive t"
      using pass_ok[OF t'(1-3) _ t'(4,5)] by (metis phase.distinct(1))
    have "seat \<in> set (pr_alive v)" using v(9) t'(1,8) by (simp add: seated_def)
    then have A: "pressure_playing (pressure_say es (v\<lparr>pr_aggressor := Some seat, pr_holder := Some (pr_turn v),
        pr_debt_owner := Some (pr_turn v), pr_debt := 2\<rparr>))"
      and B: "pressure_playing (pressure_say es (v\<lparr>pr_aggressor := Some seat, pr_holder := Some (pr_turn v),
        pr_debt_owner := None, pr_debt := 0\<rparr>))" for es
      using v(2-8) t' t(1,2) same_gun_ok[OF v(4)]
      by (simp_all add: pressure_playing_def pressure_say_def frame_ok_def pool_ok_def seated_def gun_counts_def scanning_def
        debt_ok_def holder_ok_def riposte_ok_def same_gun_def)
    show "sound_step (bindr (pressure_pass t) (\<lambda>sa. Ok (pressure_say
        [PvCharged (seat + 1) (nat ?n) (pr_turn (if forced s = 2
           then sa\<lparr>pr_aggressor := Some seat, pr_holder := Some (pr_turn sa),
              pr_debt_owner := Some (pr_turn (sa\<lparr>pr_aggressor := Some seat, pr_holder := Some (pr_turn sa)\<rparr>)), pr_debt := forced s\<rparr>
           else sa\<lparr>pr_aggressor := Some seat, pr_holder := Some (pr_turn sa), pr_debt_owner := None, pr_debt := 0\<rparr>) + 1) (forced s)]
        (if forced s = 2
           then sa\<lparr>pr_aggressor := Some seat, pr_holder := Some (pr_turn sa),
              pr_debt_owner := Some (pr_turn (sa\<lparr>pr_aggressor := Some seat, pr_holder := Some (pr_turn sa)\<rparr>)), pr_debt := forced s\<rparr>
           else sa\<lparr>pr_aggressor := Some seat, pr_holder := Some (pr_turn sa), pr_debt_owner := None, pr_debt := 0\<rparr>), r)))"
      unfolding v(1) bindr.simps by (cases "forced s = 2") (simp_all add: A B sound_Ok playing_inv)
  qed
qed

lemma sound_discard:
  assumes "discard_one draw s r = Ok (t, r')" "numbers_ok s"
  shows "numbers_ok t" "same_seats s t" "pr_pool t = pr_pool s"
proof -
  have "numbers_ok t \<and> same_seats s t \<and> pr_pool t = pr_pool s"
  proof (cases "pr_bullets s > 0")
    case True
    then obtain v where v: "draw r (nat (pr_bullets s)) = Ok (v, r')"
      "t = (if int v < pr_gun_duds s then s\<lparr>pr_bullets := pr_bullets s - 1, pr_gun_duds := pr_gun_duds s - 1\<rparr>
            else s\<lparr>pr_bullets := pr_bullets s - 1\<rparr>)"
      using assms(1) by (auto simp: discard_one_def res_simps Let_def)
    have "int v < pr_bullets s" using draw_less[OF v(1)] True by linarith
    then show ?thesis using assms(2) v(2) by (simp add: numbers_ok_def same_seats_def)
  qed (use assms in \<open>simp add: discard_one_def\<close>)
  then show "numbers_ok t" "same_seats s t" "pr_pool t = pr_pool s" by blast+
qed

lemma discard_fail: "discard_one draw s r = Fail e \<Longrightarrow> numbers_ok s \<Longrightarrow> source e"
  using draw_source[of r "nat (pr_bullets s)" e]
  by (auto simp: discard_one_def bindr_Fail_iff Let_def numbers_ok_def split: if_splits)

end


lemma update_fresh: "k \<notin> fst ` set xs \<Longrightarrow> AList.update k v xs = xs @ [(k, v)]"
  by (induction xs) auto

lemma ready_tweak:
  "pressure_ready m (v\<lparr>pr_event := es\<rparr>) = pressure_ready m v"
  "pressure_ready m (v\<lparr>pr_reason := w\<rparr>) = pressure_ready m v"
  by (simp_all add: pressure_ready_def frame_ok_def pool_ok_def gun_ok_def gun_counts_def scanning_def scanned_def
    seated_def debt_ok_def holder_ok_def)
lemma ready_cleared:
  assumes "frame_ok t" "gun_counts t" "scanning t" "seated t" "holder_ok t" "m \<in> {Fire, Choice, ForcedPass}"
    "debt_ok t m" "pr_rip_target t = None" "pr_rip_initiator t = None"
  shows "pressure_ready m (t\<lparr>pr_resume := NoPhase, pr_votes := [], pr_event := es\<rparr>)"
  using assms
  by (simp add: pressure_ready_def frame_ok_def pool_ok_def gun_ok_def gun_counts_def scanning_def seated_def
    debt_ok_def holder_ok_def)

lemma votes_update:
  assumes "votes_ok s" "seat \<in> set (pr_alive s)" "map_of (pr_votes s) seat = None"
  shows "distinct (map fst (AList.update seat True (pr_votes s)))"
    "fst ` set (AList.update seat True (pr_votes s)) \<subseteq> set (pr_alive s)"
    "\<forall>v\<in>set (AList.update seat True (pr_votes s)). snd v"
    "length (AList.update seat True (pr_votes s)) = Suc (length (pr_votes s))"
proof -
  have "seat \<notin> fst ` set (pr_votes s)" using assms(3) by (simp add: map_of_eq_None_iff)
  then have eq: "AList.update seat True (pr_votes s) = pr_votes s @ [(seat, True)]"
    by (rule update_fresh)
  show "distinct (map fst (AList.update seat True (pr_votes s)))"
    "fst ` set (AList.update seat True (pr_votes s)) \<subseteq> set (pr_alive s)"
    "\<forall>v\<in>set (AList.update seat True (pr_votes s)). snd v"
    "length (AList.update seat True (pr_votes s)) = Suc (length (pr_votes s))"
    unfolding eq using assms \<open>seat \<notin> _\<close> by (auto simp: votes_ok_def)
qed

lemma voting_parts:
  assumes "pressure_voting s"
  shows "frame_ok s" "seated s" "gun_counts s" "pr_bullets s = 0" "pr_pool s = []" "pr_resume s \<in> {Fire, Choice, ForcedPass}"
    "debt_ok s (pr_resume s)" "holder_ok s" "pr_rip_target s = None" "pr_rip_initiator s = None" "votes_ok s"
    "pr_phase s = Vote"
  using assms by (simp_all add: pressure_voting_def)

lemma finish_over: "frame_ok s \<Longrightarrow> seated s \<Longrightarrow> pressure_inv ((pressure_finish reason s)\<lparr>pr_event := es\<rparr>)"
  by (auto simp: pressure_inv_def pressure_over_def pressure_finish_def frame_ok_def pool_ok_def seated_def)

context rule_sampler
begin

lemma sound_unload:
  assumes "pressure_playing s" "pr_phase s = Fire" "seat = pr_turn s" "pr_rip_target s = None"
  shows "sound_step (do_unload draw seat s r)"
proof -
  note p = playing_parts[OF assms(1)]
  let ?c = "clear_debt seat s"
  have c: "same_gun s ?c" "pr_pool ?c = pr_pool s" "frame_ok ?c" "seated ?c" "holder_ok ?c" "pr_rip_target ?c = None"
    "pr_rip_initiator ?c = None" "pr_debt_owner ?c = None" "pr_debt ?c = 0" "pr_turn ?c = pr_turn s"
    using p assms(2-4) by (auto simp: clear_debt_def same_gun_def frame_ok_def pool_ok_def seated_def holder_ok_def
      riposte_ok_def debt_ok_def)
  have num: "numbers_ok ?c" using gun_numbers[OF p(4)] c(1) by (simp add: numbers_ok_def same_gun_def)
  show ?thesis unfolding do_unload_def Let_def
  proof (rule sound_bindr)
    show "source e" if "discard_one draw ?c r = Fail e" for e using discard_fail[OF that num] .
    fix x assume x: "discard_one draw ?c r = Ok x"
    obtain d r1 where d: "x = (d, r1)" by (cases x)
    note dd = sound_discard[OF x[unfolded d] num]
    show "sound_step (case x of (s', r) \<Rightarrow> bindr (pressure_spin draw s' r) (\<lambda>(s', r).
        if debt_of s seat = 1 then pressure_resume draw ForcedPass (pressure_say [PvUnloadPass]
            (s'\<lparr>pr_unload_used := (pr_unload_used s')[seat := True], pr_charge := 0, pr_event := [PvUnloaded]\<rparr>)) r
        else pressure_shot draw True
            (s'\<lparr>pr_unload_used := (pr_unload_used s')[seat := True], pr_charge := 0, pr_event := [PvUnloaded]\<rparr>) r))"
      unfolding d prod.case
    proof (rule sound_spin_then[OF dd(1)], unfold prod.case)
      fix t r assume t: "gun_counts t" "scanning t" "same_seats d t" "pr_pool t = pr_pool d"
      let ?t = "t\<lparr>pr_unload_used := (pr_unload_used t)[seat := True], pr_charge := 0, pr_event := [PvUnloaded]\<rparr>"
      have st: "same_seats ?c t" using same_seats_trans[OF dd(2) t(3)] .
      have po: "pool_ok t" using t(4) dd(3) c(3) by (simp add: frame_ok_def pool_ok_def)
      note tt = same_seats_roles[OF st] same_seats_simps[OF st]
      have ft: "frame_ok t" using tt(6)[OF po c(3)] .
      have f: "frame_ok ?t" "seated ?t" "gun_counts ?t" "scanning ?t" "holder_ok ?t" "pr_rip_target ?t = None"
        "pr_rip_initiator ?t = None" "pr_debt_owner ?t = None" "pr_debt ?t = 0"
        using ft tt c t(1,2) by (simp_all add: frame_ok_def pool_ok_def seated_def gun_counts_def scanning_def holder_ok_def)
      have g: "gun_ok ?t" using f(3,4) by (simp add: gun_ok_def)
      have "pressure_ready ForcedPass ?t" using f g by (simp add: pressure_ready_def debt_ok_def seated_def)
      moreover have "sound_step (pressure_shot draw True ?t r)"
        using f by (intro sound_shot) (simp_all add: debt_ok_def riposte_ok_def)
      ultimately show "sound_step (if debt_of s seat = 1 then pressure_resume draw ForcedPass (pressure_say [PvUnloadPass] ?t) r
          else pressure_shot draw True ?t r)"
        using sound_resume[of ForcedPass "pressure_say [PvUnloadPass] ?t" r] by (simp add: ready_say)
    qed
  qed
qed

lemma sound_surrender:
  assumes "pressure_playing s" "seat = pr_turn s" "pr_rip_target s = None" "pr_phase s = Fire"
  shows "sound_step (do_surrender draw seat s r)"
proof -
  note p = playing_parts[OF assms(1)]
  let ?u = "s\<lparr>pr_forfeited := (pr_forfeited s)[seat := True], pr_charge := 0\<rparr>"
  have u: "frame_ok ?u" "gun_ok ?u" "seated ?u" "pr_alive ?u = pr_alive s"
    using p(1-3) by (simp_all add: frame_ok_def pool_ok_def gun_ok_def gun_counts_def scanning_def scanned_def seated_def)
  obtain n where n: "next_alive s seat = Ok n" "n \<in> set (pr_alive s)" "n \<noteq> seat"
    using next_alive_ok[OF p(10,11), of seat] p(12) assms(2) by metis
  have rd: "pressure_ready Fire ((pressure_remove seat ?u)\<lparr>pr_turn := n\<rparr>)"
    using u n p(7-9,12) assms(2-4) by (intro remove_ready) (auto simp: debt_ok_def holder_ok_def riposte_ok_def)
  show ?thesis unfolding do_surrender_def n(1) bindr.simps Let_def
    using rd by (intro sound_resume) (simp add: ready_tweak)
qed

lemma sound_vote:
  assumes "pressure_voting s" "seat \<in> set (pr_alive s)" "map_of (pr_votes s) seat = None"
  shows "sound_step (do_vote draw seat agree s r)"
proof -
  note p = voting_parts[OF assms(1)]
  show ?thesis
  proof (cases agree)
    case True
    let ?t = "s\<lparr>pr_votes := AList.update seat True (pr_votes s), pr_event := [PvAgreed (seat + 1)]\<rparr>"
    note v = votes_update[OF p(11) assms(2,3)]
    have f: "frame_ok ?t" "seated ?t" using p(1,2) by (simp_all add: frame_ok_def pool_ok_def seated_def)
    have "pressure_inv (if length (pr_votes ?t) = length (pr_alive ?t)
        then pressure_say [PvUnanimous] (pressure_finish ''VOTE_DRAW'' ?t) else ?t)"
    proof (cases "length (pr_votes ?t) = length (pr_alive ?t)")
      case True
      then show ?thesis using finish_over[OF f, where reason = "''VOTE_DRAW''"] by (simp add: pressure_say_def)
    next
      case False
      have "Suc (length (pr_votes s)) < length (pr_alive s)" using False p(11) v(4) by (simp add: votes_ok_def)
      then have "pressure_voting ?t" using f p v
        by (simp add: pressure_voting_def votes_ok_def gun_counts_def debt_ok_def holder_ok_def)
      then show ?thesis using False by (simp add: pressure_inv_def)
    qed
    then show ?thesis by (simp only: do_vote_def Let_def True not_True_eq_False if_False sound_Ok)
  next
    case False
    let ?u = "s\<lparr>pr_votes := AList.update seat agree (pr_votes s)\<rparr>"
    have u: "frame_ok ?u" "seated ?u" "debt_ok ?u m = debt_ok s m" "holder_ok ?u" "pr_rip_target ?u = None" "pr_rip_initiator ?u = None" for m
      using p by (simp_all add: frame_ok_def pool_ok_def seated_def debt_ok_def holder_ok_def)
    show ?thesis unfolding do_vote_def Let_def if_P[OF False]
    proof (rule sound_bindr)
      show "source e" if "prepare_pool draw ?u r = Fail e" for e using prepare_fail[OF that] .
      fix x assume x: "prepare_pool draw ?u r = Ok x"
      obtain d r1 where d: "x = (d, r1)" by (cases x)
      note dd = prepare_ok[OF x[unfolded d]]
      have nd: "numbers_ok d" "pr_bullets d = 0"
        using gun_numbers[OF p(3)] dd(4) p(4) by (simp_all add: numbers_ok_def same_gun_def)
      then have num: "numbers_ok (pressure_draw 1 d)"
        using draw_numbers[of d 1] by (simp add: taken_def)
      show "sound_step (case x of (s, r) \<Rightarrow> bindr (pressure_spin draw (pressure_draw 1 s) r) (\<lambda>(s, r).
          pressure_resume draw (pr_resume s) (s\<lparr>pr_resume := NoPhase, pr_votes := [], pr_event := [PvRefused]\<rparr>) r))"
        unfolding d prod.case
      proof (rule sound_spin_then[OF num], unfold prod.case)
        fix t r assume t: "gun_counts t" "scanning t" "same_seats (pressure_draw 1 d) t" "pr_pool t = pr_pool (pressure_draw 1 d)"
        have st: "same_seats ?u t" using same_seats_trans[OF same_seats_trans[OF dd(1) draw_table] t(3)] .
        have po: "pool_ok t" using draw_pool[OF dd(2), of 1] t(4) by (simp add: pool_ok_def)
        note tt = same_seats_roles[OF st] same_seats_simps[OF st]
        have "pressure_ready (pr_resume t) (t\<lparr>pr_resume := NoPhase, pr_votes := [], pr_event := [PvRefused]\<rparr>)"
        proof (rule ready_cleared)
          show "frame_ok t" by (rule tt(6)[OF po u(1)])
          show "gun_counts t" "scanning t" by fact+
          show "seated t" "holder_ok t" using u(2,4) by (simp_all only: tt(1,3))
          show "pr_resume t \<in> {Fire, Choice, ForcedPass}" using p(6) by (simp add: tt(21))
          show "debt_ok t (pr_resume t)" using p(7) by (simp add: tt(2,21) u(3))
          show "pr_rip_target t = None" "pr_rip_initiator t = None" using u(5,6) by (simp_all only: tt(15,16))
        qed
        then show "sound_step (pressure_resume draw (pr_resume t) (t\<lparr>pr_resume := NoPhase, pr_votes := [], pr_event := [PvRefused]\<rparr>) r)"
          by (rule sound_resume)
      qed
    qed
  qed
qed

end


subsection \<open>Whole actions\<close>

lemma offered_parts:
  assumes "pressure_inv s" "a \<in> set (pressure_actions s seat)"
  obtains (vote) b where "pressure_voting s" "a = vote_action b" "seat \<in> set (pr_alive s)" "map_of (pr_votes s) seat = None"
  | (fire) "pressure_playing s" "pr_phase s = Fire" "seat = pr_turn s" "a = plain PressureFire"
  | (surrender) "pressure_playing s" "pr_phase s = Fire" "seat = pr_turn s" "pr_rip_target s = None" "a = plain Surrender"
  | (unload) "pressure_playing s" "pr_phase s = Fire" "seat = pr_turn s" "pr_rip_target s = None" "a = plain PressureUnload"
  | (pass) "pressure_playing s" "pr_phase s = Choice" "seat = pr_turn s" "a = plain PressurePass"
  | (again) "pressure_playing s" "pr_phase s = Choice" "seat = pr_turn s" "a = plain PressureAgain"
  | (charge) "pressure_playing s" "pr_phase s = Choice" "seat = pr_turn s" "load_count s > 0" "a = plain PressureCharge"
  | (riposte) "pressure_playing s" "pr_phase s = Choice" "seat = pr_turn s" "pr_holder s = Some seat" "a = plain PressureRiposte"
proof -
  have ne: "\<not> pr_ended s" "seat \<in> set (pr_alive s)" using assms(2) by (auto simp: pressure_actions_def split: if_splits)
  then consider "pressure_playing s" | "pressure_voting s" using assms(1) by (auto simp: pressure_inv_def pressure_over_def)
  then show ?thesis
  proof cases
    case 1
    then have "pr_phase s = Fire \<or> pr_phase s = Choice" by (simp add: pressure_playing_def)
    then show ?thesis using 1 assms(2) that by (auto simp: pressure_actions_def split: if_splits)
  next
    case 2
    then show ?thesis using assms(2) ne that(1) by (auto simp: pressure_actions_def pressure_voting_def split: if_splits)
  qed
qed

context rule_sampler
begin

lemma sound_do:
  assumes "pressure_inv s" "a \<in> set (pressure_actions s seat)"
  shows "sound_step (pressure_do draw seat a s r)"
  using assms
proof (cases rule: offered_parts)
  case fire
  note p = playing_parts[OF fire(1)]
  have "sound_step (pressure_shot draw False s r)" using p fire(2) by (intro sound_shot) simp_all
  then show ?thesis using fire(4) by (simp add: pressure_do_def plain_def)
next
  case again
  then show ?thesis using sound_again by (simp add: pressure_do_def plain_def sound_Ok)
qed (simp_all add: pressure_do_def plain_def vote_action_def sound_vote sound_surrender sound_unload sound_pass
  sound_charge sound_riposte)

text \<open>Bookkeeping before the action: the event text and the tier of the seat's timeouts.\<close>

lemma inv_prepared:
  assumes "pressure_inv s"
  shows "pressure_inv (s\<lparr>pr_event := es\<rparr>)"
    "pressure_inv (s\<lparr>pr_timeout_tiers := (pr_timeout_tiers s)[seat := n], pr_event := es\<rparr>)"
  using assms
  by (simp_all add: pressure_inv_def pressure_playing_def pressure_voting_def pressure_over_def frame_ok_def pool_ok_def
    seated_def gun_counts_def scanning_def debt_ok_def holder_ok_def riposte_ok_def votes_ok_def)

lemma sound_offered:
  assumes "pressure_inv s" "pressure_offered draw seat a s r = Ok (t, r')"
  shows "pressure_inv t"
proof -
  have "a \<in> set (pressure_actions s seat)" "pressure_do draw seat a s r = Ok (t, r')"
    using assms(2) by (auto simp: pressure_offered_def split: if_splits)
  then show ?thesis using sound_do[OF assms(1)] unfolding sound_under_def by blast
qed

lemma inv_alive: "pressure_inv s \<Longrightarrow> \<not> pr_ended s \<Longrightarrow> frame_ok s \<and> seated s"
  by (auto simp: pressure_inv_def pressure_playing_def pressure_voting_def pressure_over_def)

theorem apply_pressure_inv:
  assumes i: "pressure_inv s" and a: "apply_pressure draw s seat a r = Ok (t, r')"
  shows "pressure_inv t"
proof -
  let ?s = "s\<lparr>pr_event := []\<rparr>"
  have g: "\<not> pr_ended s" using a by (auto simp: apply_pressure_def split: if_splits)
  note ip = inv_prepared[OF i]
  have fs: "frame_ok (s\<lparr>pr_event := [], pr_votes := v\<rparr>)" "seated (s\<lparr>pr_event := [], pr_votes := v\<rparr>)" "frame_ok ?s" "seated ?s" for v
    using inv_alive[OF i g] by (simp_all add: frame_ok_def pool_ok_def seated_def)
  consider "t = (pressure_finish ''GAME_LIMIT'' ?s)\<lparr>pr_event := [PvLimit]\<rparr>" | "t = expire_votes ?s"
    | "pressure_offered draw (nat seat) a ?s r = Ok (t, r')"
    | n k where "pressure_offered draw (nat seat) (plain k) (s\<lparr>pr_timeout_tiers := (pr_timeout_tiers s)[nat seat := n], pr_event := [PvTimedOut]\<rparr>) r = Ok (t, r')"
    using a by (auto simp: apply_pressure_def Let_def split: if_splits)
  then show ?thesis
  proof cases
    case 1 then show ?thesis using finish_over[OF fs(3,4)] by blast
  next
    case 2 then show ?thesis using finish_over[OF fs(1,2)] by (simp add: expire_votes_def)
  next
    case 3 then show ?thesis using sound_offered[OF ip(1)] by blast
  next
    case 4 then show ?thesis using sound_offered[OF ip(2)] by blast
  qed
qed

lemma debt_tweak: "debt_of (s\<lparr>pr_event := es\<rparr>) x = debt_of s x" "debt_of (s\<lparr>pr_timeout_tiers := ts\<rparr>) x = debt_of s x"
  by (simp_all add: debt_of_def)

text \<open>What the table offers is never turned away, and neither is the clock.\<close>

lemma offered_valid: "a \<in> set (pressure_actions s seat) \<Longrightarrow> valid_action a True \<and> ra_kind a \<noteq> GameLimit \<and> ra_kind a \<noteq> Timeout"
  by (auto simp: pressure_actions_def plain_def vote_action_def valid_action_def bare_action_def split: if_splits)

lemma actions_event: "pressure_actions (s\<lparr>pr_event := es\<rparr>) seat = pressure_actions s seat"
    "pressure_actions (s\<lparr>pr_timeout_tiers := ts\<rparr>) seat = pressure_actions s seat"
  by (simp_all add: pressure_actions_def debt_of_def load_count_def cong: if_cong option.case_cong)

theorem apply_pressure_offered:
  assumes i: "pressure_inv s" and f: "apply_pressure draw s (int seat) a r = Fail e"
    and o: "a \<in> set (pressure_actions s seat)"
  shows "source e"
proof -
  have s: "\<not> pr_ended s" "seat \<in> set (pr_alive s)" using o by (auto simp: pressure_actions_def split: if_splits)
  then have "seat < 6" using inv_alive[OF i] by (auto simp: frame_ok_def)
  then have "pressure_offered draw seat a (s\<lparr>pr_event := []\<rparr>) r = Fail e"
    using f offered_valid[OF o] s(1) by (simp add: apply_pressure_def Let_def)
  then have "pressure_do draw seat a (s\<lparr>pr_event := []\<rparr>) r = Fail e"
    using o by (simp add: pressure_offered_def actions_event)
  then show ?thesis using sound_do[OF inv_prepared(1)[OF i], where a = a and seat = seat] o
    by (simp add: actions_event sound_under_def)
qed

theorem apply_pressure_clock:
  assumes i: "pressure_inv s" and n: "\<not> pr_ended s"
    and f: "apply_pressure draw s (int (pr_turn s)) (plain Timeout) r = Fail e"
  shows "source e"
proof -
  have al: "frame_ok s" "seated s" using inv_alive[OF i n] by simp_all
  then have t: "pr_turn s < 6" "pr_turn s \<in> set (pr_alive s)" by (auto simp: frame_ok_def seated_def)
  have v: "valid_action (plain Timeout) True" by (simp add: valid_action_def plain_def bare_action_def)
  have nv: "pr_phase s \<noteq> Vote" using f v n t by (auto simp: apply_pressure_def plain_def Let_def)
  then have p: "pressure_playing s" using i n by (auto simp: pressure_inv_def pressure_voting_def pressure_over_def)
  let ?k = "if pr_phase s = Choice \<and> debt_of s (pr_turn s) = 0 then PressurePass else PressureFire"
  let ?u = "\<lambda>n. s\<lparr>pr_timeout_tiers := (pr_timeout_tiers s)[pr_turn s := n], pr_event := [PvTimedOut]\<rparr>"
  have "plain ?k \<in> set (pressure_actions s (pr_turn s))"
    using p t n choice_free[OF p] by (auto simp: pressure_actions_def pressure_playing_def debt_of_def)
  then have k: "plain ?k \<in> set (pressure_actions (?u n) (pr_turn s))" for n by (simp only: actions_event)
  define m where "m = min 2 (pr_timeout_tiers s ! pr_turn s + 1)"
  have kind: "ra_kind (plain Timeout) = Timeout" by (simp add: plain_def)
  have "pressure_offered draw (pr_turn s) (plain ?k) (?u m) r = Fail e"
    using f v nv n t by (simp add: apply_pressure_def kind Let_def debt_tweak m_def split del: if_split)
  then have "pressure_do draw (pr_turn s) (plain ?k) (?u m) r = Fail e"
    using k[of m] by (simp add: pressure_offered_def)
  then show ?thesis using sound_do[OF inv_prepared(2)[OF i], OF k[of m]] by (simp add: sound_under_def)
qed

end


subsection \<open>Reachable tables\<close>

context rule_sampler
begin

lemma new_pressure_inv:
  assumes "new_pressure draw seats r = Ok (t, r')"
  shows "pressure_inv t \<and> mset (pr_alive t) = mset (map nat seats) \<and> pr_phase t = Fire \<and> pr_bullets t = 1"
proof -
  have seats: "3 \<le> length seats" "\<forall>v\<in>set seats. 0 \<le> v \<and> v \<le> 5" "distinct seats"
    using assms by (auto simp: new_pressure_def list_ex_iff not_less split: if_splits)
  obtain alive r1 s r2 u where sh: "roulette_shuffle draw r (map nat seats) = Ok (alive, r1)"
    and s: "prepare_pool draw \<lparr>pr_alive = alive, pr_turn = alive ! 0, pr_phase = Fire, pr_pool = [], pr_pool_duds = 0,
        pr_wave = 0, pr_chambers = replicate 6 EmptyChamber, pr_revealed = replicate 6 NoReveal, pr_pointer = 0,
        pr_bullets = 0, pr_gun_duds = 0, pr_charge = 0, pr_debt_owner = None, pr_debt = 0,
        pr_aggressor = None, pr_holder = None, pr_rip_initiator = None, pr_rip_target = None,
        pr_unload_used = replicate 6 False, pr_timeout_tiers = replicate 6 0,
        pr_forfeited = replicate 6 False, pr_votes = [], pr_resume = NoPhase, pr_ended = False,
        pr_eligible = [], pr_reason = '''', pr_event = []\<rparr> r1 = Ok (u, r2)"
    and sp: "pressure_spin draw (pressure_draw 1 u) r2 = Ok (t, r')"
    using assms by (auto simp: new_pressure_def Let_def res_simps split: if_splits)
  have m: "mset alive = mset (map nat seats)" using sh by (rule roulette_shuffle_mset)
  have "inj_on nat (set seats)" using seats(2) by (intro inj_onI) (simp add: eq_nat_nat_iff)
  then have d: "distinct alive" using seats(3) mset_eq_imp_distinct_iff[OF m] by (simp add: distinct_map)
  have al: "set alive \<subseteq> {..<6}" using mset_eq_setD[OF m] seats(2) by auto
  have len: "3 \<le> length alive" using mset_eq_length[OF m] seats(1) by simp
  note p = prepare_ok[OF s]
  have nu: "numbers_ok u" "pr_bullets u = 0" using p(4) by (auto simp: numbers_ok_def same_gun_def)
  then have num: "numbers_ok (pressure_draw 1 u)" using draw_numbers[of u 1] by (simp add: taken_def)
  note q = spin_ok[OF sp num]
  obtain c where "taken 1 u = [c]" using taken_one[OF p(3)] by blast
  then have bul: "pr_bullets t = 1" using q(5) nu(2) by simp
  have po: "pool_ok t" using draw_pool[OF p(2), of 1] q(4) by (simp add: pool_ok_def)
  note st = same_seats_simps[OF same_seats_trans[OF same_seats_trans[OF p(1) draw_table] q(3)]]
  have hd: "alive ! 0 \<in> set alive" using len by (intro nth_mem) auto
  have "pressure_playing t"
    using d al len hd po q(1,2) bul st
    by (simp add: pressure_playing_def frame_ok_def seated_def debt_ok_def holder_ok_def riposte_ok_def)
  then show ?thesis using m bul st by (simp add: playing_inv)
qed

end

inductive pressure_reach :: "'s sampler \<Rightarrow> pressure_state \<Rightarrow> bool" for draw where
  start: "new_pressure draw seats r = Ok (s, r') \<Longrightarrow> pressure_reach draw s"
| step: "pressure_reach draw s \<Longrightarrow> apply_pressure draw s seat a r = Ok (t, r') \<Longrightarrow> pressure_reach draw t"

context rule_sampler
begin

theorem pressure_reach_inv: "pressure_reach draw s \<Longrightarrow> pressure_inv s"
  by (induction rule: pressure_reach.induct) (use new_pressure_inv apply_pressure_inv in blast)+

end

text \<open>Readings of the invariant.\<close>

lemma pressure_gun:
  assumes "pressure_inv s" "\<not> pr_ended s"
  shows "pr_bullets s = int (loaded (pr_chambers s)) \<and> pr_gun_duds s = int (count_duds (pr_chambers s)) \<and>
    (\<forall>i<6. pr_chambers s ! i \<noteq> EmptyChamber \<longrightarrow> pr_revealed s ! i = Unknown) \<and>
    (pr_phase s = Vote \<longleftrightarrow> pr_bullets s = 0) \<and> pr_turn s \<in> set (pr_alive s) \<and> 2 \<le> length (pr_alive s)"
  using assms
  by (auto simp: pressure_inv_def pressure_playing_def pressure_voting_def pressure_over_def gun_counts_def seated_def)

lemma pressure_survivors:
  "pressure_inv s \<Longrightarrow> pr_ended s \<Longrightarrow> pr_eligible s = pr_alive s \<and> pr_alive s \<noteq> [] \<and> distinct (pr_alive s)"
  by (auto simp: pressure_inv_def pressure_playing_def pressure_voting_def pressure_over_def seated_def frame_ok_def)

end
