(* ===== verification/RouletteSamples.thy ===== *)
theory RouletteSamples
  imports GameSamples DevilFacts PressureFacts
begin

text \<open>Concrete roulette games over a list of random words, for the witnesses.\<close>

lemma sample_devil_new: "is_ok (new_devil (random_int list_word) (replicate 40 5))"
  by code_simp

lemma sample_devil:
  obtains s where "devil_reach (random_int list_word) s" "\<not> dv_ended s"
proof -
  obtain s r where s: "new_devil (random_int list_word) (replicate 40 5) = Ok (s, r)"
    using is_ok_the[OF sample_devil_new] by (metis surj_pair)
  then have "\<not> dv_ended s" by (auto simp: new_devil_def devil_reload_def res_simps Let_def)
  with devil_reach.start[OF s] show thesis by (rule that)
qed

lemma fill_code [code]:
  "fill ps n duds cs = (if n = 0 then cs else case ps of [] \<Rightarrow> cs
     | p # ps \<Rightarrow> fill ps (n - 1) (duds - 1) (cs[p := if duds > 0 then DudRound else LiveRound]))"
  by (cases n; cases ps) simp_all

lemma sample_pressure_new: "is_ok (new_pressure (random_int list_word) [0, 2, 5] (replicate 40 5))"
  by code_simp
lemma sample_pressure:
  obtains s where "pressure_reach (random_int list_word) s" "\<not> pr_ended s"
proof -
  obtain s r where s: "new_pressure (random_int list_word) [0, 2, 5] (replicate 40 5) = Ok (s, r)"
    using is_ok_the[OF sample_pressure_new] by (metis surj_pair)
  from roulette.new_pressure_inv[OF s] have "pr_phase s = Fire" "pressure_inv s" by simp_all
  then have "\<not> pr_ended s" by (auto simp: pressure_inv_def pressure_playing_def pressure_voting_def pressure_over_def seated_def)
  with pressure_reach.start[OF s] show thesis by (rule that)
qed

end
