(* ===== verification/Amount.thy ===== *)
theory Amount
  imports Prelude
begin

text \<open>
  Amounts of money as text (\<open>src/internal/platform/amount.go\<close>): a decimal with at most six
  fractional digits, counted in units of half a millionth. The arithmetic is the source's
  64-bit unsigned arithmetic, a wrap-around would show in the result. A byte of a Go string is
  a \<open>char\<close>.
\<close>

datatype amount_error = AmountInvalid | AmountNotRepresentable | AmountOutOfRange

abbreviation units_per_credit :: "64 word" where "units_per_credit \<equiv> 500000"

text \<open>\<open>strings.Cut(text, ".")\<close>\<close>

fun cut_dot :: "string \<Rightarrow> string \<times> string \<times> bool" where
  "cut_dot [] = ([], [], False)"
| "cut_dot (c # cs) =
     (if c = CHR ''.'' then ([], cs, True)
      else case cut_dot cs of (w, f, dot) \<Rightarrow> (c # w, f, dot))"

definition digit :: "char \<Rightarrow> bool" where
  "digit c \<longleftrightarrow> (48::nat) \<le> of_char c \<and> of_char c \<le> (57::nat)"

definition digit_val :: "char \<Rightarrow> nat" where
  "digit_val c = of_char c - 48"

text \<open>\<open>strconv.ParseUint(s, 10, 64)\<close>: \<open>None\<close> is either of its errors.\<close>

definition dec_val :: "string \<Rightarrow> nat" where
  "dec_val s = foldl (\<lambda>a c. a * 10 + digit_val c) 0 s"

definition parse_uint64 :: "string \<Rightarrow> 64 word option" where
  "parse_uint64 s = (if s \<noteq> [] \<and> list_all digit s \<and> dec_val s < 2 ^ 64 then Some (word_of_nat (dec_val s)) else None)"

definition scale_micros :: "string \<Rightarrow> 64 word" where
  "scale_micros fraction =
     ((\<lambda>m. m * 10) ^^ (6 - length fraction)) (foldl (\<lambda>m c. m * 10 + word_of_nat (digit_val c)) 0 fraction)"

definition amount_units :: "64 word \<Rightarrow> 64 word \<Rightarrow> (amount_error, int) res" where
  "amount_units w micros =
     (if micros mod 2 \<noteq> 0 then Fail AmountNotRepresentable
      else let f = micros div 2 in
        if w > (word_of_int max_int64 - f) div units_per_credit then Fail AmountOutOfRange
        else let units = w * units_per_credit + f in
          if units = 0 then Fail AmountInvalid else Ok (sint units))"

definition parse_amount :: "string \<Rightarrow> (amount_error, int) res" where
  "parse_amount text =
     (case cut_dot text of (whole, fraction, has_dot) \<Rightarrow>
        if whole = [] \<or> has_dot \<and> (fraction = [] \<or> length fraction > 6) then Fail AmountInvalid
        else if \<not> (list_all digit whole \<and> list_all digit fraction) then Fail AmountInvalid
        else case parse_uint64 whole of
          None \<Rightarrow> Fail AmountOutOfRange
        | Some w \<Rightarrow> amount_units w (scale_micros fraction))"

definition trim_zeros :: "string \<Rightarrow> string" where
  "trim_zeros s = rev (dropWhile (\<lambda>c. c = CHR ''0'') (rev s))"

text \<open>The number of padding zeros is never negative: a fraction is below \<open>10 ^ 6\<close>.\<close>

definition format_amount :: "int \<Rightarrow> string" where
  "format_amount units =
     (let n = (if units < 0 then word_of_int (- (units + 1)) + 1 else word_of_int units) :: 64 word;
          sign = (if units < 0 then ''-'' else []);
          whole = sign @ dec_string (unat (n div units_per_credit));
          fraction = n mod units_per_credit * 2
      in if fraction = 0 then whole
         else let digits = dec_string (unat fraction) in
           whole @ ''.'' @ trim_zeros (replicate (6 - length digits) CHR ''0'' @ digits))"

subsection \<open>Decimals\<close>

lemma digit_of_nat: "d < 10 \<Longrightarrow> digit (char_of (48 + d)) \<and> digit_val (char_of (48 + d)) = d"
  by (simp add: digit_def digit_val_def)

lemma dec_val_acc: "foldl (\<lambda>a c. a * 10 + digit_val c) n s = n * 10 ^ length s + dec_val s"
proof (induction s arbitrary: n)
  case (Cons c s)
  from Cons[of "n * 10 + digit_val c"] Cons[of "digit_val c"] show ?case
    by (simp add: dec_val_def algebra_simps)
qed (simp add: dec_val_def)

lemma dec_val_simps [simp]:
  "dec_val [] = 0" "dec_val (c # s) = digit_val c * 10 ^ length s + dec_val s"
  "dec_val (s @ t) = dec_val s * 10 ^ length t + dec_val t"
  using dec_val_acc[of "digit_val c" s] dec_val_acc[of "dec_val s" t] by (simp_all add: dec_val_def)

lemma digit_val_le: "digit c \<Longrightarrow> digit_val c \<le> 9"
  by (auto simp: digit_def digit_val_def)

lemma dec_val_less: "list_all digit s \<Longrightarrow> dec_val s < 10 ^ length s"
proof (induction s)
  case (Cons c s)
  then have "digit_val c \<le> 9" and less: "dec_val s < 10 ^ length s" by (simp_all add: digit_val_le)
  then have "digit_val c * 10 ^ length s \<le> 9 * 10 ^ length s" by simp
  from add_le_less_mono[OF this less] show ?case by simp
qed simp

lemma dec_digits_range: "d \<in> set (dec_digits n) \<Longrightarrow> d < 10"
proof (induction n rule: dec_digits.induct)
  case (1 n)
  then show ?case by (cases "n < 10") (auto simp: dec_digits.simps[of n])
qed

lemma dec_string_digits: "list_all digit (dec_string n)" "dec_string n \<noteq> []"
proof -
  show "list_all digit (dec_string n)"
    using dec_digits_range digit_of_nat by (auto simp: dec_string_def list_all_iff)
  have "dec_digits n \<noteq> []" by (subst dec_digits.simps) simp
  then show "dec_string n \<noteq> []" by (simp add: dec_string_def)
qed

lemma dec_val_dec_string: "dec_val (dec_string n) = n"
proof (induction n rule: dec_digits.induct)
  case (1 n)
  show ?case
  proof (cases "n < 10")
    case True
    then show ?thesis by (simp add: dec_string_def dec_digits.simps[of n] digit_of_nat)
  next
    case False
    then have "dec_string n = dec_string (n div 10) @ [char_of (48 + n mod 10)]"
      by (simp add: dec_string_def dec_digits.simps[of n])
    then show ?thesis using 1[OF False] digit_of_nat[of "n mod 10"] by simp
  qed
qed

lemma length_dec_string: "n < 10 ^ Suc k \<Longrightarrow> length (dec_string n) \<le> Suc k"
proof (induction k arbitrary: n)
  case 0
  then show ?case by (simp add: dec_string_def dec_digits.simps[of n])
next
  case (Suc k)
  then have "length (dec_string (n div 10)) \<le> Suc k" by (simp add: div_less_iff_less_mult)
  then show ?case by (simp add: dec_string_def dec_digits.simps[of n])
qed

lemma trim_zeros_split: "\<exists>k. s = trim_zeros s @ replicate k CHR ''0''"
proof (induction s rule: rev_induct)
  case (snoc c s)
  then obtain k where k: "s = trim_zeros s @ replicate k CHR ''0''" ..
  show ?case
  proof (cases "c = CHR ''0''")
    case True
    then have "trim_zeros (s @ [c]) = trim_zeros s" by (simp add: trim_zeros_def)
    moreover have "s @ [c] = trim_zeros s @ replicate (Suc k) CHR ''0''"
      using True by (subst k) (simp add: replicate_append_same)
    ultimately show ?thesis by metis
  next
    case False
    then have "s @ [c] = trim_zeros (s @ [c]) @ replicate 0 CHR ''0''" by (simp add: trim_zeros_def)
    then show ?thesis ..
  qed
qed (simp add: trim_zeros_def)

lemma dec_val_zeros [simp]: "dec_val (replicate k CHR ''0'') = 0"
  by (induction k) (auto simp: digit_val_def)


subsection \<open>What parsing accepts\<close>

definition decimal_shape :: "string \<Rightarrow> string \<Rightarrow> string \<Rightarrow> bool" where
  "decimal_shape s w f \<longleftrightarrow> w \<noteq> [] \<and> list_all digit w \<and> list_all digit f \<and> length f \<le> 6 \<and>
     s = (if f = [] then w else w @ ''.'' @ f)"

lemma cut_dot_eq:
  "cut_dot s = (w, f, dot) \<Longrightarrow> s = (if dot then w @ ''.'' @ f else w) \<and> (\<not> dot \<longrightarrow> f = [])"
  by (induction s arbitrary: w) (auto split: if_splits prod.splits)

lemma digit_not_dot [simp]: "\<not> digit CHR ''.''"
  by (simp add: digit_def)

lemma cut_dot_digits:
  "list_all digit w \<Longrightarrow> cut_dot (w @ CHR ''.'' # f) = (w, f, True)" "list_all digit w \<Longrightarrow> cut_dot w = (w, [], False)"
  by (induction w) auto

lemma decimal_shape_cut:
  "decimal_shape s w f \<longleftrightarrow> (\<exists>dot. cut_dot s = (w, f, dot) \<and>
     \<not> (w = [] \<or> dot \<and> (f = [] \<or> length f > 6)) \<and> list_all digit w \<and> list_all digit f)" (is "_ \<longleftrightarrow> ?r")
proof
  assume "decimal_shape s w f"
  then show ?r using cut_dot_digits(1)[of w f] cut_dot_digits(2)[of w] by (auto simp: decimal_shape_def)
next
  assume ?r
  then show "decimal_shape s w f" using cut_dot_eq[of s w f] by (auto simp: decimal_shape_def split: if_splits)
qed

lemma scale_micros_val:
  assumes "list_all digit f" "length f \<le> 6"
  shows "unat (scale_micros f) = dec_val f * 10 ^ (6 - length f)" "dec_val f * 10 ^ (6 - length f) < 1000000"
proof -
  have "foldl (\<lambda>m c. m * 10 + word_of_nat (digit_val c)) (word_of_nat a) f = (word_of_nat (foldl (\<lambda>a c. a * 10 + digit_val c) a f) :: 64 word)" for a
    by (induction f arbitrary: a) (simp_all flip: of_nat_mult of_nat_add add: of_nat_mult[of _ 10, simplified, symmetric])
  from this[of 0] have base: "foldl (\<lambda>m c. m * 10 + word_of_nat (digit_val c)) 0 f = (word_of_nat (dec_val f) :: 64 word)"
    by (simp add: dec_val_def)
  have pow: "((\<lambda>m. m * 10) ^^ k) (word_of_nat a) = (word_of_nat (a * 10 ^ k) :: 64 word)" for k a
    by (induction k) (simp_all add: algebra_simps)
  have "dec_val f < 10 ^ length f" using assms(1) by (rule dec_val_less)
  then have "dec_val f * 10 ^ (6 - length f) < 10 ^ length f * 10 ^ (6 - length f)" by simp
  also have "\<dots> = 1000000" using assms(2) by (simp flip: power_add)
  finally show small: "dec_val f * 10 ^ (6 - length f) < 1000000" .
  show "unat (scale_micros f) = dec_val f * 10 ^ (6 - length f)"
    unfolding scale_micros_def base pow by (subst unat_of_nat) (use small in simp)
qed

lemma sint_small: "sint x = int (unat x)" if "unat x \<le> 9223372036854775807" for x :: "64 word"
proof -
  have "uint x < 9223372036854775808" using that uint_nat[of x] by linarith
  moreover have "0 \<le> uint x" by simp
  ultimately have "signed_take_bit 63 (uint x) = uint x"
    by (intro signed_take_bit_int_eq_self) (auto intro: order_trans[of _ 0])
  then show ?thesis by (simp add: sint_uint uint_nat[symmetric])
qed

lemma scaled_units:
  fixes w m :: "64 word"
  assumes "unat m < 1000000"
  shows "\<not> w > (word_of_int max_int64 - m div 2) div units_per_credit \<longleftrightarrow> unat w * 500000 + unat m div 2 \<le> 9223372036854775807"
    and "unat w * 500000 + unat m div 2 \<le> 9223372036854775807 \<Longrightarrow>
      sint (w * units_per_credit + m div 2) = int (unat w * 500000 + unat m div 2)"
proof -
  have m: "unat (m div 2) = unat m div 2" by (simp add: unat_div)
  have le: "m div 2 \<le> word_of_int max_int64" using assms m by (simp add: word_le_nat_alt)
  have "unat ((word_of_int max_int64 - m div 2) div units_per_credit) = (9223372036854775807 - unat m div 2) div 500000"
    using unat_sub[OF le] m by (simp add: unat_div)
  then show "\<not> w > (word_of_int max_int64 - m div 2) div units_per_credit \<longleftrightarrow> unat w * 500000 + unat m div 2 \<le> 9223372036854775807"
    using assms by (simp add: word_less_nat_alt not_less less_eq_div_iff_mult_less_eq) linarith
  assume b: "unat w * 500000 + unat m div 2 \<le> 9223372036854775807"
  have mul: "unat (w * units_per_credit) = unat w * 500000"
    using b by (subst unat_mult_lem[THEN iffD1]) auto
  have "unat (w * units_per_credit + m div 2) = unat w * 500000 + unat m div 2"
    using b mul m by (subst unat_add_lem[THEN iffD1]) auto
  then show "sint (w * units_per_credit + m div 2) = int (unat w * 500000 + unat m div 2)"
    using sint_small[of "w * units_per_credit + m div 2"] b by metis
qed


lemma amount_units_eq:
  assumes m: "unat micros = m" "m < 1000000" and n: "unat w = n"
  shows "amount_units w micros =
    (if odd m then Fail AmountNotRepresentable
     else if \<not> n * 500000 + m div 2 \<le> 9223372036854775807 then Fail AmountOutOfRange
     else if n * 500000 + m div 2 = 0 then Fail AmountInvalid else Ok (int (n * 500000 + m div 2)))"
proof -
  note scaled = scaled_units[of micros w, unfolded m(1) n, OF m(2)]
  have ev: "micros mod 2 = 0 \<longleftrightarrow> even m"
    by (simp add: m(1)[symmetric] word_unat_eq_iff unat_mod even_iff_mod_2_eq_zero)
  show ?thesis
  proof (cases "n * 500000 + m div 2 \<le> 9223372036854775807")
    case True
    have "w * units_per_credit + micros div 2 = 0 \<longleftrightarrow> n * 500000 + m div 2 = 0"
      using scaled(2)[OF True] by (metis of_nat_eq_0_iff signed_eq_0_iff)
    then show ?thesis
      using True scaled(1) scaled(2)[OF True] unfolding amount_units_def Let_def ev by (simp only: if_True if_False not_True_eq_False eq_True not_not not_False_eq_True)
  next
    case False
    then show ?thesis using scaled(1) unfolding amount_units_def Let_def ev by (simp only: if_True not_not eq_False not_False_eq_True)
  qed
qed

lemma parse_amount_iff:
  "parse_amount s = Ok u \<longleftrightarrow> 0 < u \<and> u \<le> max_int64 \<and>
     (\<exists>w f. decimal_shape s w f \<and> 2 * u * 10 ^ length f = int (dec_val (w @ f)) * 10 ^ 6)"
proof -
  obtain w f dot where cut: "cut_dot s = (w, f, dot)" by (metis surj_pair)
  show ?thesis
  proof (cases "decimal_shape s w f")
    case False
    moreover have "\<not> decimal_shape s w' f'" for w' f' using False cut by (auto simp: decimal_shape_cut)
    ultimately show ?thesis using cut by (auto simp: parse_amount_def decimal_shape_cut split: if_splits)
  next
    case True
    then have only: "decimal_shape s w' f' \<longleftrightarrow> w' = w \<and> f' = f" for w' f'
      using cut by (auto simp: decimal_shape_cut)
    define m where "m = dec_val f * 10 ^ (6 - length f)"
    define n where "n = dec_val w"
    from True have f: "list_all digit f" "length f \<le> 6" "list_all digit w" "w \<noteq> []" by (auto simp: decimal_shape_def)
    have m: "unat (scale_micros f) = m" "m < 1000000" using scale_micros_val[OF f(1,2)] by (simp_all add: m_def)
    have "2 * u * 10 ^ length f = int (dec_val (w @ f)) * 10 ^ 6 \<longleftrightarrow> 2 * u * 10 ^ length f = int (n * 1000000 + m) * 10 ^ length f"
      using f(2) by (simp add: m_def n_def algebra_simps flip: power_add)
    then have val: "2 * u * 10 ^ length f = int (dec_val (w @ f)) * 10 ^ 6 \<longleftrightarrow> 2 * u = int (n * 1000000 + m)" by simp
    have parse: "parse_amount s = Ok u \<longleftrightarrow> n < 2 ^ 64 \<and> even m \<and> n * 500000 + m div 2 \<le> 9223372036854775807 \<and>
        0 < n * 500000 + m div 2 \<and> u = int (n * 500000 + m div 2)"
    proof (cases "n < 2 ^ 64")
      case small: True
      define ww :: "64 word" where "ww = word_of_nat n"
      have ww: "unat ww = n" using small by (simp add: ww_def unat_of_nat)
      have "parse_amount s = amount_units ww (scale_micros f)"
        using cut True f small by (auto simp: parse_amount_def decimal_shape_cut parse_uint64_def ww_def simp flip: n_def)
      then show ?thesis using small by (auto simp: amount_units_eq[OF m ww])
    next
      case False
      then show ?thesis using cut True f
        by (simp add: parse_amount_def decimal_shape_cut parse_uint64_def flip: n_def)
    qed
    have half: "2 * u = int (n * 1000000 + m) \<longleftrightarrow> even m \<and> u = int (n * 500000 + m div 2)"
    proof -
      have "2 * u = 2 * int k + int m \<longleftrightarrow> even m \<and> u = int k + int (m div 2)" for k by presburger
      from this[of "n * 500000"] show ?thesis by (simp add: mult.commute)
    qed
    have "(\<exists>w' f'. decimal_shape s w' f' \<and> 2 * u * 10 ^ length f' = int (dec_val (w' @ f')) * 10 ^ 6) \<longleftrightarrow>
        even m \<and> u = int (n * 500000 + m div 2)"
      unfolding only using val half by metis
    then show ?thesis unfolding parse by auto
  qed
qed


subsection \<open>What formatting prints\<close>

lemma format_amount_nonneg:
  assumes "0 \<le> u" "u \<le> max_int64"
  shows "\<exists>f. decimal_shape (format_amount u) (dec_string (nat u div 500000)) f \<and> (f = [] \<or> last f \<noteq> CHR ''0'') \<and>
     2 * u * 10 ^ length f = int (dec_val (dec_string (nat u div 500000) @ f)) * 10 ^ 6"
proof -
  define k where "k = nat u"
  have u: "u = int k" and k: "k \<le> 9223372036854775807" using assms by (simp_all add: k_def)
  define n :: "64 word" where "n = word_of_int u"
  have n: "unat n = k" using u k by (simp add: n_def unat_of_nat)
  define r where "r = k mod 500000"
  have r: "unat (n mod units_per_credit * 2) = 2 * r" "2 * r < 1000000"
  proof -
    have "unat (n mod units_per_credit) = r" by (simp add: r_def n unat_mod)
    moreover have "r < 500000" by (simp add: r_def)
    ultimately show "unat (n mod units_per_credit * 2) = 2 * r" "2 * r < 1000000"
      by (auto simp: unat_mult_lem[THEN iffD1])
  qed
  have zero: "n mod units_per_credit * 2 = 0 \<longleftrightarrow> r = 0" using r(1) by (metis mult_eq_0_iff unat_eq_zero zero_neq_numeral)
  define w where "w = dec_string (k div 500000)"
  define f where "f = (if r = 0 then [] else trim_zeros (replicate (6 - length (dec_string (2 * r))) CHR ''0'' @ dec_string (2 * r)))"
  have form: "format_amount u = (if r = 0 then w else w @ ''.'' @ f)"
    using assms(1) r(1) n zero by (simp add: format_amount_def Let_def w_def f_def unat_div flip: n_def)
  have len: "length (dec_string (2 * r)) \<le> 6" using length_dec_string[of "2 * r" 5] r(2) by simp
  let ?s = "replicate (6 - length (dec_string (2 * r))) CHR ''0'' @ dec_string (2 * r)"
  obtain j where j: "?s = trim_zeros ?s @ replicate j CHR ''0''" using trim_zeros_split by blast
  have s: "length ?s = 6" "dec_val ?s = 2 * r" "list_all digit ?s"
    using len dec_string_digits(1)[of "2 * r"] by (auto simp: dec_val_dec_string list_all_iff digit_def)
  have f: "f \<noteq> []" "length f \<le> 6" "list_all digit f" "last f \<noteq> CHR ''0''" "dec_val f * 10 ^ (6 - length f) = 2 * r" if "r \<noteq> 0"
  proof -
    have f: "f = trim_zeros ?s" using that by (simp add: f_def)
    have s': "?s = f @ replicate j CHR ''0''" using j f by simp
    show "length f \<le> 6" "list_all digit f" using s(1,3) unfolding s' by (simp_all add: list_all_iff)
    have "j = 6 - length f" using s(1) unfolding s' by simp
    with s(2) show val: "dec_val f * 10 ^ (6 - length f) = 2 * r" unfolding s' by simp
    with that show "f \<noteq> []" by auto
    then have "dropWhile (\<lambda>c. c = CHR ''0'') (rev ?s) \<noteq> []" unfolding f trim_zeros_def by simp
    from hd_dropWhile[OF this] show "last f \<noteq> CHR ''0''"
      unfolding f trim_zeros_def by (simp only: last_rev not_False_eq_True)
  qed
  have w: "w \<noteq> []" "list_all digit w" "dec_val w = k div 500000"
    by (simp_all add: w_def dec_string_digits dec_val_dec_string)
  have shape: "decimal_shape (format_amount u) w f"
    
  proof (cases "r = 0")
    case True
    then have "f = []" by (simp add: f_def)
    with True w form show ?thesis by (simp add: decimal_shape_def)
  next
    case False
    with w f(1,2,3)[OF False] form show ?thesis by (simp add: decimal_shape_def)
  qed
  have k2: "k = k div 500000 * 500000 + r" by (simp add: r_def)
  have "2 * k * 10 ^ length f = dec_val (w @ f) * 10 ^ 6"
  proof (cases "r = 0")
    case True
    then show ?thesis using k2 w(3) by (simp add: f_def)
  next
    case False
    have "dec_val (w @ f) * 10 ^ 6 = (k div 500000 * 1000000 + dec_val f * 10 ^ (6 - length f)) * 10 ^ length f"
      using f(2)[OF False] w(3) by (simp add: algebra_simps flip: power_add)
    moreover have "k div 500000 * 1000000 + 2 * r = 2 * k" using k2 by linarith
    ultimately show ?thesis using f(5)[OF False] by simp
  qed
  then have "2 * u * 10 ^ length f = int (dec_val (w @ f)) * 10 ^ 6"
    unfolding u by (auto dest: arg_cong[of _ _ int])
  with shape f(4) show ?thesis by (intro exI[of _ f]) (auto simp: w_def k_def f_def)
qed

lemma parse_format: "0 < u \<Longrightarrow> u \<le> max_int64 \<Longrightarrow> parse_amount (format_amount u) = Ok u"
  using format_amount_nonneg[of u] by (auto simp: parse_amount_iff)

lemma format_negative: "u < 0 \<Longrightarrow> min_int64 \<le> u \<Longrightarrow> format_amount u = ''-'' @ format_amount (- u)"
  by (simp add: format_amount_def Let_def)

end
