(* ===== verification/Ledger.thy ===== *)
theory Ledger
  imports Amount Fairness
begin

text \<open>
  The wallet ledger (\<open>src/internal/platform/store.go\<close>, the exchange of \<open>economy.go\<close>). The
  database tables are lists of rows; an insert or update that violates a key or a check of the
  schema (\<open>migrations/0001_wallet.sql\<close>, \<open>0003_wallet_actions.sql\<close>) fails, as it does in PostgreSQL. A
  transaction maps the tables to new tables or fails, and then the old tables stay. Locks only
  serialise transactions, and transactions are atomic here: taking one does nothing. Columns
  that the database fills with the current time are left out. Random bytes and the wall clock
  come from the list \<open>entropy\<close>; SHA-256 is a parameter.
\<close>

datatype ledger_error =
    InvalidMutation | WalletNotFound | IdempotencyConflict | InsufficientBalance | BalanceOverflow
  | InvalidPage | MaintenanceActive | EconomicPolicyError | RewardLimit | ReliefIneligible | ReliefCooldown
  | NoRows | ConstraintViolation | NoEntropy | IncompleteWallets

datatype asset = ReserveApiCredit | AvailableChips | OtherAsset "byte list"

fun asset_text :: "asset \<Rightarrow> byte list" where
  "asset_text ReserveApiCredit = ascii ''RESERVE_API_CREDIT''"
| "asset_text AvailableChips = ascii ''AVAILABLE_CHIPS''"
| "asset_text (OtherAsset t) = t"

record mutation =
  mu_user :: int
  mu_asset :: asset
  mu_delta :: int
  mu_type :: "byte list"
  mu_id :: "byte list"
  mu_entry :: "byte list"
  mu_key :: "byte list"

definition valid_asset :: "asset \<Rightarrow> bool" where
  "valid_asset a \<longleftrightarrow> a = ReserveApiCredit \<or> a = AvailableChips"

text \<open>\<open>unicode.IsSpace\<close>; a valid string equals its \<open>strings.TrimSpace\<close> when neither its first nor
  its last rune is a space.\<close>

definition is_space :: "nat \<Rightarrow> bool" where
  "is_space r \<longleftrightarrow> r \<in> {9, 10, 11, 12, 13, 32, 133, 160, 5760, 8232, 8233, 8239, 8287, 12288} \<or> 8192 \<le> r \<and> r \<le> 8202"

definition valid_text :: "byte list \<Rightarrow> bool" where
  "valid_text v \<longleftrightarrow> 0 < length v \<and> length v \<le> 128 \<and>
     (case utf8_runes (map unat v) of
        None \<Rightarrow> False
      | Some rs \<Rightarrow> \<not> is_space (hd rs) \<and> \<not> is_space (last rs) \<and> 0 \<notin> set rs)"

subsection \<open>Canonical JSON of a request\<close>

definition json_byte :: "byte \<Rightarrow> byte list" where
  "json_byte b =
     (if b = 34 \<or> b = 92 then [92, b]
      else if b = 8 then ascii [CHR 92, CHR ''b'']
      else if b = 12 then ascii [CHR 92, CHR ''f'']
      else if b = 10 then ascii [CHR 92, CHR ''n'']
      else if b = 13 then ascii [CHR 92, CHR ''r'']
      else if b = 9 then ascii [CHR 92, CHR ''t'']
      else if b < 32 \<or> b = 60 \<or> b = 62 \<or> b = 38 then 92 # ascii ''u00'' @ ascii (hex_encode [b])
      else [b])"

text \<open>\<open>U+2028\<close> and \<open>U+2029\<close> are escaped as well.\<close>

fun json_escape :: "byte list \<Rightarrow> byte list" where
  "json_escape [] = []"
| "json_escape (b # bs) =
     (if b = 226 \<and> take 2 bs = [128, 168] then 92 # ascii ''u2028'' @ json_escape (drop 2 bs)
      else if b = 226 \<and> take 2 bs = [128, 169] then 92 # ascii ''u2029'' @ json_escape (drop 2 bs)
      else json_byte b @ json_escape bs)"

definition json_text :: "byte list \<Rightarrow> byte list" where
  "json_text s = [34] @ json_escape s @ [34]"

definition int_text :: "int \<Rightarrow> byte list" where
  "int_text n = ascii ((if n < 0 then ''-'' else []) @ dec_string (nat \<bar>n\<bar>))"

fun comma_list :: "byte list list \<Rightarrow> byte list" where
  "comma_list [] = []"
| "comma_list [x] = x"
| "comma_list (x # y # ys) = x @ [44] @ comma_list (y # ys)"

definition json_struct :: "(string \<times> byte list) list \<Rightarrow> byte list" where
  "json_struct fs = [123] @ comma_list (map (\<lambda>(k, v). json_text (ascii k) @ [58] @ v) fs) @ [125]"

definition json_array :: "byte list list \<Rightarrow> byte list" where
  "json_array vs = [91] @ comma_list vs @ [93]"

definition canonical_mutation :: "mutation \<Rightarrow> byte list" where
  "canonical_mutation m = json_struct
     [(''Version'', json_text (ascii ''wallet.apply.v1'')), (''UserID'', int_text (mu_user m)),
      (''Asset'', json_text (asset_text (mu_asset m))), (''Delta'', int_text (mu_delta m)),
      (''BizType'', json_text (mu_type m)), (''BizID'', json_text (mu_id m)), (''EntryType'', json_text (mu_entry m))]"

definition valid_mutation :: "mutation \<Rightarrow> bool" where
  "valid_mutation m \<longleftrightarrow> 0 < mu_user m \<and> valid_asset (mu_asset m) \<and> mu_delta m \<noteq> 0 \<and>
     valid_text (mu_type m) \<and> valid_text (mu_id m) \<and> valid_text (mu_entry m) \<and>
     16 \<le> length (mu_key m) \<and> length (mu_key m) \<le> 128 \<and> list_all (\<lambda>b. 33 \<le> b \<and> b \<le> 126) (mu_key m)"

definition mutation_hashes :: "(byte list \<Rightarrow> byte list) \<Rightarrow> mutation \<Rightarrow> (ledger_error, byte list \<times> byte list) res" where
  "mutation_hashes sha m =
     (if valid_mutation m then Ok (sha (mu_key m), sha (canonical_mutation m)) else Fail InvalidMutation)"

subsection \<open>The tables\<close>

record wallet_row =
  wr_balance :: int
  wr_seq :: int
  wr_version :: int

record ledger_entry =
  le_id :: "byte list"
  le_tx :: "byte list"
  le_leg :: nat
  le_user :: int
  le_asset :: asset
  le_seq :: int
  le_version :: int
  le_entry :: "byte list"
  le_biz_type :: "byte list"
  le_biz_id :: "byte list"
  le_delta :: int
  le_before :: int
  le_after :: int

record tx_row =
  tr_id :: "byte list"
  tr_biz_type :: "byte list"
  tr_biz_id :: "byte list"
  tr_user :: int
  tr_operation :: "byte list"
  tr_request :: "byte list"

record idem_row =
  ir_id :: "byte list"
  ir_user :: int
  ir_scope :: "byte list"
  ir_key :: "byte list"
  ir_request :: "byte list"
  ir_resource :: "byte list"

text \<open>The rows of the companion receipts of older exchanges, as far as they are read.\<close>

record api_exchange =
  ax_id :: "byte list"
  ax_user :: int
  ax_key :: "byte list"
  ax_status :: "byte list"
  ax_requested :: int
  ax_reserve :: int
  ax_active :: int
  ax_reason :: "byte list"

record reward_key =
  rk_user :: int
  rk_key :: "byte list"
  rk_request :: "byte list"
  rk_tx :: "byte list"

record tables =
  accounts :: "int list"
  wallets :: "int \<times> asset \<Rightarrow> wallet_row option"
  ledger :: "ledger_entry list"
  transactions :: "tx_row list"
  idempotency :: "idem_row list"
  reward_keys :: "reward_key list"
  api_exchanges :: "api_exchange list"
  maintenance :: "string list"
  entropy :: "(byte list \<times> 64 word) list"

text \<open>\<open>uuidV7\<close>: 16 random bytes with the milliseconds of the clock in the first six, printed in
  five groups.\<close>

definition uuid_bytes_of :: "byte list \<Rightarrow> 64 word \<Rightarrow> byte list" where
  "uuid_bytes_of b ms =
     be_bytes 6 (unat ms mod 2 ^ 48) @ [or (and (b ! 6) 15) 0x70] @ [b ! 7] @ [or (and (b ! 8) 63) 0x80] @ drop 9 b"

definition uuid_text :: "byte list \<Rightarrow> byte list" where
  "uuid_text b = ascii (hex_encode (take 4 b) @ ''-'' @ hex_encode (take 2 (drop 4 b)) @ ''-'' @
     hex_encode (take 2 (drop 6 b)) @ ''-'' @ hex_encode (take 2 (drop 8 b)) @ ''-'' @ hex_encode (drop 10 b))"

definition uuid_v7 :: "'a tables_scheme \<Rightarrow> (ledger_error, byte list \<times> 'a tables_scheme) res" where
  "uuid_v7 s = (case entropy s of
     (b, ms) # rest \<Rightarrow> if length b = 16 then Ok (uuid_text (uuid_bytes_of b ms), s\<lparr>entropy := rest\<rparr>) else Fail NoEntropy
   | [] \<Rightarrow> Fail NoEntropy)"

definition wallet_scope :: "byte list" where "wallet_scope = ascii ''wallet.apply.v1''"

definition exchange_scope :: "byte list" where "exchange_scope = ascii ''wallet.exchange.v1''"

definition find_transaction :: "'a tables_scheme \<Rightarrow> byte list \<Rightarrow> byte list \<Rightarrow> tx_row option" where
  "find_transaction s ty bid = find (\<lambda>t. tr_biz_type t = ty \<and> tr_biz_id t = bid) (transactions s)"

definition insert_transaction :: "tx_row \<Rightarrow> 'a tables_scheme \<Rightarrow> (ledger_error, 'a tables_scheme) res" where
  "insert_transaction t s =
     (if tr_id t \<in> set (map tr_id (transactions s)) \<or> find_transaction s (tr_biz_type t) (tr_biz_id t) \<noteq> None \<or>
         tr_user t \<notin> set (accounts s) \<or> length (tr_request t) \<noteq> 32
      then Fail ConstraintViolation
      else Ok (s\<lparr>transactions := transactions s @ [t]\<rparr>))"

definition update_wallet :: "int \<Rightarrow> asset \<Rightarrow> wallet_row \<Rightarrow> 'a tables_scheme \<Rightarrow> (ledger_error, 'a tables_scheme) res" where
  "update_wallet u a w s =
     (if wallets s (u, a) = None then Ok s
      else if wr_balance w < 0 \<or> wr_seq w < 0 \<or> wr_version w \<le> 0 then Fail ConstraintViolation
      else Ok (s\<lparr>wallets := (wallets s)((u, a) \<mapsto> w)\<rparr>))"

definition entry_ok :: "'a tables_scheme \<Rightarrow> ledger_entry \<Rightarrow> bool" where
  "entry_ok s e \<longleftrightarrow>
     le_id e \<notin> set (map le_id (ledger s)) \<and>
     (le_user e, le_asset e, le_seq e) \<notin> set (map (\<lambda>e. (le_user e, le_asset e, le_seq e)) (ledger s)) \<and>
     (le_tx e, le_leg e) \<notin> set (map (\<lambda>e. (le_tx e, le_leg e)) (ledger s)) \<and>
     le_leg e \<in> {1, 2} \<and> 0 < le_seq e \<and> 1 < le_version e \<and> le_delta e \<noteq> 0 \<and>
     0 \<le> le_before e \<and> 0 \<le> le_after e \<and> le_after e = le_before e + le_delta e \<and>
     wallets s (le_user e, le_asset e) \<noteq> None \<and>
     list_ex (\<lambda>t. tr_id t = le_tx e \<and> tr_user t = le_user e \<and> tr_biz_type t = le_biz_type e \<and>
       tr_biz_id t = le_biz_id e) (transactions s)"

definition insert_entry :: "ledger_entry \<Rightarrow> 'a tables_scheme \<Rightarrow> (ledger_error, 'a tables_scheme) res" where
  "insert_entry e s = (if entry_ok s e then Ok (s\<lparr>ledger := ledger s @ [e]\<rparr>) else Fail ConstraintViolation)"

definition find_idem :: "'a tables_scheme \<Rightarrow> int \<Rightarrow> byte list \<Rightarrow> byte list \<Rightarrow> idem_row option" where
  "find_idem s u scope key = find (\<lambda>i. ir_user i = u \<and> ir_scope i = scope \<and> ir_key i = key) (idempotency s)"

definition insert_record :: "idem_row \<Rightarrow> 'a tables_scheme \<Rightarrow> (ledger_error, 'a tables_scheme) res" where
  "insert_record i s =
     (if ir_id i \<in> set (map ir_id (idempotency s)) \<or> find_idem s (ir_user i) (ir_scope i) (ir_key i) \<noteq> None \<or>
         ir_user i \<notin> set (accounts s) \<or> ir_scope i \<notin> {wallet_scope, exchange_scope} \<or>
         length (ir_key i) \<noteq> 32 \<or> length (ir_request i) \<noteq> 32 \<or>
         \<not> list_ex (\<lambda>e. le_id e = ir_resource i \<and> le_user e = ir_user i) (ledger s)
      then Fail ConstraintViolation
      else Ok (s\<lparr>idempotency := idempotency s @ [i]\<rparr>))"

text \<open>\<open>LockEconomyUsersInTx\<close> sorts the users and takes their locks; only its test is visible.\<close>

definition lock_economy_users :: "int list \<Rightarrow> (ledger_error, unit) res" where
  "lock_economy_users users = guardr (list_all (\<lambda>u. 0 < u) users) InvalidMutation"

definition require_no_maintenance :: "string list \<Rightarrow> 'a tables_scheme \<Rightarrow> (ledger_error, unit) res" where
  "require_no_maintenance scopes s =
     (if scopes = [] then Fail InvalidMutation
      else guardr (\<not> list_ex (\<lambda>x. x \<in> set (maintenance s)) scopes) MaintenanceActive)"

subsection \<open>Applying one mutation\<close>

definition insert_idempotency ::
  "mutation \<Rightarrow> byte list \<Rightarrow> byte list \<Rightarrow> byte list \<Rightarrow> 'a tables_scheme \<Rightarrow> (ledger_error, 'a tables_scheme) res" where
  "insert_idempotency m key semantic entry_id s =
     bindr (uuid_v7 s) (\<lambda>(i, s).
     insert_record \<lparr>ir_id = i, ir_user = mu_user m, ir_scope = wallet_scope, ir_key = key, ir_request = semantic,
       ir_resource = entry_id\<rparr> s)"

definition reserved_key :: "'a tables_scheme \<Rightarrow> int \<Rightarrow> byte list \<Rightarrow> reward_key option" where
  "reserved_key s u key = find (\<lambda>r. rk_user r = u \<and> rk_key r = key) (reward_keys s)"

definition post_entry ::
  "mutation \<Rightarrow> byte list \<Rightarrow> byte list \<Rightarrow> 'a tables_scheme \<Rightarrow> (ledger_error, 'a tables_scheme \<times> ledger_entry) res" where
  "post_entry m key semantic s =
     (case wallets s (mu_user m, mu_asset m) of
        None \<Rightarrow> Fail WalletNotFound
      | Some w \<Rightarrow>
          if mu_delta m < 0 \<and> mu_delta m < - wr_balance w then Fail InsufficientBalance
          else if (mu_delta m > 0 \<and> wr_balance w > max_int64 - mu_delta m) \<or> wr_seq w = max_int64 \<or> wr_version w = max_int64
          then Fail BalanceOverflow
          else
            let after = wr_balance w + mu_delta m; seq = wr_seq w + 1; ver = wr_version w + 1 in
            bindr (uuid_v7 s) (\<lambda>(tx, s).
            bindr (uuid_v7 s) (\<lambda>(eid, s).
            bindr (insert_transaction \<lparr>tr_id = tx, tr_biz_type = mu_type m, tr_biz_id = mu_id m, tr_user = mu_user m,
              tr_operation = mu_entry m, tr_request = semantic\<rparr> s) (\<lambda>s.
            bindr (update_wallet (mu_user m) (mu_asset m) \<lparr>wr_balance = after, wr_seq = seq, wr_version = ver\<rparr> s) (\<lambda>s.
            let e = \<lparr>le_id = eid, le_tx = tx, le_leg = 1, le_user = mu_user m, le_asset = mu_asset m, le_seq = seq,
              le_version = ver, le_entry = mu_entry m, le_biz_type = mu_type m, le_biz_id = mu_id m,
              le_delta = mu_delta m, le_before = wr_balance w, le_after = after\<rparr> in
            bindr (insert_entry e s) (\<lambda>s.
            bindr (insert_idempotency m key semantic eid s) (\<lambda>s. Ok (s, e))))))))"

definition apply_in_tx ::
  "(byte list \<Rightarrow> byte list) \<Rightarrow> mutation \<Rightarrow> 'a tables_scheme \<Rightarrow> (ledger_error, 'a tables_scheme \<times> ledger_entry) res" where
  "apply_in_tx sha m s =
     bindr (mutation_hashes sha m) (\<lambda>(key, semantic).
     bindr (lock_economy_users [mu_user m]) (\<lambda>_.
     if reserved_key s (mu_user m) key \<noteq> None then Fail IdempotencyConflict
     else case find_idem s (mu_user m) wallet_scope key of
       Some i \<Rightarrow>
         if ir_request i \<noteq> semantic then Fail IdempotencyConflict
         else (case find (\<lambda>e. le_id e = ir_resource i \<and> le_user e = mu_user m) (ledger s) of
                 None \<Rightarrow> Fail NoRows | Some e \<Rightarrow> Ok (s, e))
     | None \<Rightarrow>
         (case find_transaction s (mu_type m) (mu_id m) of
            Some t \<Rightarrow>
              if tr_user t \<noteq> mu_user m \<or> tr_request t \<noteq> semantic then Fail IdempotencyConflict
              else (case find (\<lambda>e. le_tx e = tr_id t \<and> le_user e = mu_user m \<and> le_leg e = 1) (ledger s) of
                      None \<Rightarrow> Fail NoRows
                    | Some e \<Rightarrow> bindr (insert_idempotency m key semantic (le_id e) s) (\<lambda>s. Ok (s, e)))
          | None \<Rightarrow> post_entry m key semantic s)))"

text \<open>A transaction commits the tables it leads to, or leaves the old ones.\<close>

definition commit_tx :: "('a \<Rightarrow> (ledger_error, 'a \<times> 'b) res) \<Rightarrow> 'a \<Rightarrow> 'a \<times> (ledger_error, 'b) res" where
  "commit_tx op s = (case op s of Ok (t, r) \<Rightarrow> (t, Ok r) | Fail e \<Rightarrow> (s, Fail e) | Hang \<Rightarrow> (s, Hang))"

definition apply_mutation ::
  "(byte list \<Rightarrow> byte list) \<Rightarrow> mutation \<Rightarrow> 'a tables_scheme \<Rightarrow> 'a tables_scheme \<times> (ledger_error, ledger_entry) res" where
  "apply_mutation sha m s =
     (if valid_mutation m then commit_tx (apply_in_tx sha m) s else (s, Fail InvalidMutation))"

subsection \<open>Accounts and reads\<close>

definition add_wallet :: "int \<Rightarrow> asset \<Rightarrow> 'a tables_scheme \<Rightarrow> 'a tables_scheme" where
  "add_wallet u a s = (if wallets s (u, a) = None
     then s\<lparr>wallets := (wallets s)((u, a) \<mapsto> \<lparr>wr_balance = 0, wr_seq = 0, wr_version = 1\<rparr>)\<rparr> else s)"

definition ensure_account :: "int \<Rightarrow> 'a tables_scheme \<Rightarrow> (ledger_error, 'a tables_scheme \<times> unit) res" where
  "ensure_account u s =
     (if u \<le> 0 then Fail InvalidMutation
      else bindr (if u \<in> set (accounts s) then Ok () else require_no_maintenance [''CHALDEA_USER_WRITES''] s) (\<lambda>_.
        let s = (if u \<in> set (accounts s) then s else s\<lparr>accounts := accounts s @ [u]\<rparr>) in
        Ok (add_wallet u AvailableChips (add_wallet u ReserveApiCredit s), ())))"

definition read_wallet :: "'a tables_scheme \<Rightarrow> int \<Rightarrow> asset \<Rightarrow> (ledger_error, wallet_row) res" where
  "read_wallet s u a = (case wallets s (u, a) of None \<Rightarrow> Fail WalletNotFound | Some w \<Rightarrow> Ok w)"

definition read_wallets :: "'a tables_scheme \<Rightarrow> int \<Rightarrow> (ledger_error, (asset \<times> wallet_row) list) res" where
  "read_wallets s u =
     (if u \<le> 0 then Fail InvalidMutation
      else case (wallets s (u, ReserveApiCredit), wallets s (u, AvailableChips)) of
        (None, None) \<Rightarrow> Ok []
      | (Some r, Some c) \<Rightarrow> Ok [(ReserveApiCredit, r), (AvailableChips, c)]
      | _ \<Rightarrow> Fail IncompleteWallets)"

definition wallet_ledger :: "'a tables_scheme \<Rightarrow> int \<Rightarrow> asset \<Rightarrow> ledger_entry list" where
  "wallet_ledger s u a = filter (\<lambda>e. le_user e = u \<and> le_asset e = a) (ledger s)"

definition ledger_page ::
  "'a tables_scheme \<Rightarrow> int \<Rightarrow> asset \<Rightarrow> int \<Rightarrow> int \<Rightarrow> (ledger_error, ledger_entry list) res" where
  "ledger_page s u a after_seq limit =
     (if u \<le> 0 \<or> \<not> valid_asset a \<or> after_seq < 0 \<or> limit < 1 \<or> limit > 100 then Fail InvalidPage
      else bindr (read_wallet s u a) (\<lambda>_.
        Ok (take (nat limit) (sort_by (\<lambda>x y. le_seq x < le_seq y)
          (filter (\<lambda>e. le_seq e > after_seq) (wallet_ledger s u a))))))"

subsection \<open>Exchanging one asset for the other\<close>

text \<open>\<open>ValidOperationKey\<close>: the lower-case form of a UUID.\<close>

definition lower_hex :: "byte \<Rightarrow> bool" where
  "lower_hex b \<longleftrightarrow> 48 \<le> b \<and> b \<le> 57 \<or> 97 \<le> b \<and> b \<le> 102"

definition valid_operation_key :: "byte list \<Rightarrow> bool" where
  "valid_operation_key k \<longleftrightarrow> length k = 36 \<and>
     list_all (\<lambda>i. if i \<in> {8, 13, 18, 23} then k ! i = 45 else lower_hex (k ! i)) [0..<36]"

datatype operation_kind = DailyKind | HourlyKind | ReliefKind | ExchangeKind | OtherKind

record op_receipt =
  rt_id :: "byte list"
  rt_user :: int
  rt_biz_id :: "byte list"
  rt_kind :: "byte list"
  rt_status :: "byte list"
  rt_from :: asset
  rt_to :: asset
  rt_amount_units :: int
  rt_amount :: string
  rt_debits :: "(int \<times> int \<times> int) option"
  rt_reason :: "byte list"

definition find_leg :: "'a tables_scheme \<Rightarrow> byte list \<Rightarrow> nat \<Rightarrow> ledger_entry option" where
  "find_leg s tx leg = find (\<lambda>e. le_tx e = tx \<and> le_leg e = leg) (ledger s)"

definition receipt_of :: "'a tables_scheme \<Rightarrow> tx_row \<Rightarrow> op_receipt" where
  "receipt_of s t =
     (let l = find_leg s (tr_id t) 1; l2 = find_leg s (tr_id t) 2;
          amount = (case l of None \<Rightarrow> 0 | Some e \<Rightarrow> \<bar>le_delta e\<bar>) in
      \<lparr>rt_id = tr_id t, rt_user = tr_user t, rt_biz_id = tr_biz_id t, rt_kind = tr_operation t,
       rt_status = ascii ''CONFIRMED'',
       rt_from = (case l2 of None \<Rightarrow> OtherAsset [] | Some _ \<Rightarrow> (case l of None \<Rightarrow> OtherAsset [] | Some e \<Rightarrow> le_asset e)),
       rt_to = (case l2 of Some e \<Rightarrow> le_asset e
          | None \<Rightarrow> (case l of Some e \<Rightarrow> le_asset e | None \<Rightarrow> ReserveApiCredit)),
       rt_amount_units = amount, rt_amount = format_amount amount, rt_debits = None, rt_reason = []\<rparr>)"

definition transaction_in_tx :: "'a tables_scheme \<Rightarrow> int \<Rightarrow> byte list \<Rightarrow> (ledger_error, op_receipt) res" where
  "transaction_in_tx s u tx =
     (case find (\<lambda>t. tr_user t = u \<and> tr_id t = tx) (transactions s) of
        None \<Rightarrow> Fail NoRows | Some t \<Rightarrow> Ok (receipt_of s t))"

definition operation_scope :: "operation_kind \<Rightarrow> byte list" where
  "operation_scope k = (if k \<in> {DailyKind, HourlyKind, ReliefKind} then wallet_scope else exchange_scope)"

fun operation_kind_matches :: "operation_kind \<Rightarrow> byte list \<Rightarrow> bool" where
  "operation_kind_matches DailyKind t \<longleftrightarrow> t = ascii ''DAILY_REWARD''"
| "operation_kind_matches HourlyKind t \<longleftrightarrow> t = ascii ''HOURLY_REWARD''"
| "operation_kind_matches ReliefKind t \<longleftrightarrow> t = ascii ''RELIEF_REWARD''"
| "operation_kind_matches ExchangeKind t \<longleftrightarrow> t = ascii ''LOCAL_EXCHANGE''"
| "operation_kind_matches OtherKind t \<longleftrightarrow> False"

definition api_receipt :: "api_exchange \<Rightarrow> op_receipt" where
  "api_receipt p =
     \<lparr>rt_id = ax_id p, rt_user = ax_user p, rt_biz_id = ascii ''api-chips:'' @ ax_id p,
      rt_kind = ascii ''API_CHIPS_EXCHANGE'', rt_status = ax_status p, rt_from = ReserveApiCredit,
      rt_to = AvailableChips, rt_amount_units = ax_requested p, rt_amount = format_amount (ax_requested p),
      rt_debits = Some (ax_reserve p, ax_active p, ax_requested p), rt_reason = ax_reason p\<rparr>"

definition find_api_exchange :: "(byte list \<Rightarrow> byte list) \<Rightarrow> 'a tables_scheme \<Rightarrow> int \<Rightarrow> byte list \<Rightarrow> op_receipt option" where
  "find_api_exchange sha s u key =
     map_option api_receipt (find (\<lambda>p. ax_user p = u \<and> ax_key p = sha key) (api_exchanges s))"

text \<open>The first row of a union; the request key of a reward names the same transaction.\<close>

definition operation_tx :: "'a tables_scheme \<Rightarrow> int \<Rightarrow> byte list \<Rightarrow> byte list \<Rightarrow> byte list option" where
  "operation_tx s u scope key =
     (case (case find_idem s u scope key of None \<Rightarrow> None
            | Some i \<Rightarrow> map_option le_tx (find (\<lambda>e. le_id e = ir_resource i) (ledger s))) of
        Some tx \<Rightarrow> Some tx
      | None \<Rightarrow> if scope = wallet_scope then map_option rk_tx (reserved_key s u key) else None)"

definition find_operation ::
  "(byte list \<Rightarrow> byte list) \<Rightarrow> 'a tables_scheme \<Rightarrow> int \<Rightarrow> operation_kind \<Rightarrow> byte list \<Rightarrow> (ledger_error, op_receipt option) res" where
  "find_operation sha s u kind key =
     (case (if kind = ExchangeKind then find_api_exchange sha s u key else None) of
        Some r \<Rightarrow> Ok (Some r)
      | None \<Rightarrow>
          (case operation_tx s u (operation_scope kind) (sha key) of
             None \<Rightarrow> Ok None
           | Some tx \<Rightarrow> bindr (transaction_in_tx s u tx) (\<lambda>r.
               if operation_kind_matches kind (rt_kind r) then Ok (Some r) else Fail IdempotencyConflict)))"

definition find_operation_public ::
  "(byte list \<Rightarrow> byte list) \<Rightarrow> 'a tables_scheme \<Rightarrow> int \<Rightarrow> operation_kind \<Rightarrow> byte list \<Rightarrow> (ledger_error, op_receipt option) res" where
  "find_operation_public sha s u kind key =
     (if u \<le> 0 \<or> \<not> valid_operation_key key \<or> kind = OtherKind then Fail InvalidMutation
      else find_operation sha s u kind key)"

definition canonical_exchange :: "int \<Rightarrow> asset \<Rightarrow> int \<Rightarrow> byte list" where
  "canonical_exchange u from amount =
     json_array [json_text (ascii ''wallet.exchange.v1''), int_text u, json_text (asset_text from), int_text amount]"

text \<open>One leg: the wallet's new balance and its ledger entry, with the identifier drawn between.\<close>

definition exchange_leg ::
  "int \<Rightarrow> byte list \<Rightarrow> byte list \<Rightarrow> nat \<Rightarrow> asset \<Rightarrow> wallet_row \<Rightarrow> int \<Rightarrow> 'a tables_scheme \<Rightarrow>
     (ledger_error, byte list \<times> 'a tables_scheme) res" where
  "exchange_leg u tx biz leg a w delta s =
     (let after = wr_balance w + delta in
      bindr (update_wallet u a \<lparr>wr_balance = after, wr_seq = wr_seq w + 1, wr_version = wr_version w + 1\<rparr> s) (\<lambda>s.
      bindr (uuid_v7 s) (\<lambda>(eid, s).
      bindr (insert_entry \<lparr>le_id = eid, le_tx = tx, le_leg = leg, le_user = u, le_asset = a, le_seq = wr_seq w + 1,
        le_version = wr_version w + 1, le_entry = ascii ''LOCAL_EXCHANGE'', le_biz_type = ascii ''LOCAL_EXCHANGE'',
        le_biz_id = biz, le_delta = delta, le_before = wr_balance w, le_after = after\<rparr> s) (\<lambda>s.
      Ok (eid, s)))))"

definition post_exchange ::
  "int \<Rightarrow> byte list \<Rightarrow> asset \<Rightarrow> asset \<Rightarrow> int \<Rightarrow> byte list \<Rightarrow> byte list \<Rightarrow> 'a tables_scheme \<Rightarrow>
     (ledger_error, 'a tables_scheme \<times> op_receipt) res" where
  "post_exchange u key from to amount hash semantic s =
     (case (wallets s (u, from), wallets s (u, to)) of
        (Some f, Some t) \<Rightarrow>
          if wr_balance f < amount then Fail InsufficientBalance
          else if wr_balance t > max_int64 - amount then Fail BalanceOverflow
          else if wr_version f = max_int64 \<or> wr_seq f = max_int64 \<or> wr_version t = max_int64 \<or> wr_seq t = max_int64
          then Fail BalanceOverflow
          else
            bindr (uuid_v7 s) (\<lambda>(tx, s).
            let biz = ascii ''exchange:'' @ int_text u @ [58] @ key in
            bindr (insert_transaction \<lparr>tr_id = tx, tr_biz_type = ascii ''LOCAL_EXCHANGE'', tr_biz_id = biz, tr_user = u,
              tr_operation = ascii ''LOCAL_EXCHANGE'', tr_request = semantic\<rparr> s) (\<lambda>s.
            bindr (exchange_leg u tx biz 1 from f (- amount) s) (\<lambda>(first, s).
            bindr (exchange_leg u tx biz 2 to t amount s) (\<lambda>(_, s).
            bindr (uuid_v7 s) (\<lambda>(rid, s).
            bindr (insert_record \<lparr>ir_id = rid, ir_user = u, ir_scope = exchange_scope, ir_key = hash,
              ir_request = semantic, ir_resource = first\<rparr> s) (\<lambda>s.
            bindr (transaction_in_tx s u tx) (\<lambda>r. Ok (s, r))))))))
      | _ \<Rightarrow> Fail WalletNotFound)"

definition other_asset :: "asset \<Rightarrow> asset" where
  "other_asset from = (if from = ReserveApiCredit then AvailableChips else ReserveApiCredit)"

definition exchange_in_tx ::
  "(byte list \<Rightarrow> byte list) \<Rightarrow> int \<Rightarrow> byte list \<Rightarrow> asset \<Rightarrow> int \<Rightarrow> 'a tables_scheme \<Rightarrow>
     (ledger_error, 'a tables_scheme \<times> op_receipt) res" where
  "exchange_in_tx sha u key from amount s =
     (if u \<le> 0 \<or> \<not> valid_operation_key key \<or> \<not> valid_asset from \<or> amount \<le> 0 then Fail InvalidMutation
      else
        bindr (find_operation sha s u ExchangeKind key) (\<lambda>prior. case prior of
          Some r \<Rightarrow> if rt_from r \<noteq> from \<or> rt_amount_units r \<noteq> amount then Fail IdempotencyConflict else Ok (s, r)
        | None \<Rightarrow>
            bindr (require_no_maintenance [''CHALDEA_USER_WRITES'', ''WALLET_EXCHANGE''] s) (\<lambda>_.
            post_exchange u key from (other_asset from) amount (sha key) (sha (canonical_exchange u from amount)) s)))"

definition exchange ::
  "(byte list \<Rightarrow> byte list) \<Rightarrow> int \<Rightarrow> byte list \<Rightarrow> asset \<Rightarrow> int \<Rightarrow> 'a tables_scheme \<Rightarrow>
     'a tables_scheme \<times> (ledger_error, op_receipt) res" where
  "exchange sha u key from amount s = commit_tx (exchange_in_tx sha u key from amount) s"

end
