(* ===== verification/LedgerFacts.thy ===== *)
theory LedgerFacts
  imports Ledger "HOL-Library.Sublist"
begin

text \<open>
  What the ledger keeps: every wallet is the sum of its entries, numbered without gaps and never
  negative or beyond 64 bits; business identities, entries and idempotency records are unique
  and point at each other. From it: the effect of an accepted mutation or exchange, that a
  replay finds the first result again, and that rejections change nothing.
\<close>

subsection \<open>The invariant\<close>

fun chained :: "int \<Rightarrow> int \<Rightarrow> ledger_entry list \<Rightarrow> bool" where
  "chained b n [] \<longleftrightarrow> True"
| "chained b n (e # es) \<longleftrightarrow>
     le_before e = b \<and> le_delta e \<noteq> 0 \<and> le_after e = b + le_delta e \<and> 0 \<le> le_after e \<and> le_after e \<le> max_int64 \<and>
     le_seq e = n + 1 \<and> le_version e = n + 2 \<and> chained (le_after e) (n + 1) es"

definition account_ok :: "wallet_row option \<Rightarrow> ledger_entry list \<Rightarrow> bool" where
  "account_ok row es = (case row of
     None \<Rightarrow> es = []
   | Some w \<Rightarrow> chained 0 0 es \<and> wr_seq w = int (length es) \<and> wr_version w = wr_seq w + 1 \<and>
       wr_balance w = sum_list (map le_delta es) \<and> 0 \<le> wr_balance w \<and> wr_balance w \<le> max_int64)"

definition linked :: "'a tables_scheme \<Rightarrow> bool" where
  "linked s \<longleftrightarrow> distinct (map tr_id (transactions s)) \<and>
     distinct (map (\<lambda>t. (tr_biz_type t, tr_biz_id t)) (transactions s)) \<and>
     distinct (map le_id (ledger s)) \<and>
     distinct (map (\<lambda>e. (le_tx e, le_leg e)) (ledger s)) \<and>
     distinct (map (\<lambda>i. (ir_user i, ir_scope i, ir_key i)) (idempotency s)) \<and>
     (\<forall>e\<in>set (ledger s). \<exists>t\<in>set (transactions s). tr_id t = le_tx e \<and> tr_user t = le_user e \<and>
        tr_biz_type t = le_biz_type e \<and> tr_biz_id t = le_biz_id e) \<and>
     (\<forall>i\<in>set (idempotency s). \<exists>e\<in>set (ledger s). le_id e = ir_resource i \<and> le_user e = ir_user i \<and> le_leg e = 1)"

definition books :: "'a tables_scheme \<Rightarrow> bool" where
  "books s \<longleftrightarrow> (\<forall>u a. account_ok (wallets s (u, a)) (wallet_ledger s u a)) \<and> linked s"

lemma books_account: "books s \<Longrightarrow> account_ok (wallets s (u, a)) (wallet_ledger s u a)"
  by (simp add: books_def)

lemma chained_snoc:
  "chained b n (es @ [e]) \<longleftrightarrow> chained b n es \<and>
     le_before e = b + sum_list (map le_delta es) \<and> le_delta e \<noteq> 0 \<and> le_after e = le_before e + le_delta e \<and>
     0 \<le> le_after e \<and> le_after e \<le> max_int64 \<and> le_seq e = n + int (length es) + 1 \<and>
     le_version e = n + int (length es) + 2"
  by (induction es arbitrary: b n) (auto simp: algebra_simps)

text \<open>One more entry on a wallet that is brought up to date with it.\<close>

definition extends_wallet :: "wallet_row \<Rightarrow> ledger_entry \<Rightarrow> bool" where
  "extends_wallet w e \<longleftrightarrow> le_before e = wr_balance w \<and> le_delta e \<noteq> 0 \<and> le_after e = wr_balance w + le_delta e \<and>
     0 \<le> le_after e \<and> le_after e \<le> max_int64 \<and> le_seq e = wr_seq w + 1 \<and> le_version e = wr_version w + 1"

definition wallet_after :: "ledger_entry \<Rightarrow> wallet_row" where
  "wallet_after e = \<lparr>wr_balance = le_after e, wr_seq = le_seq e, wr_version = le_version e\<rparr>"

lemma account_ok_snoc:
  "account_ok (Some w) es \<Longrightarrow> extends_wallet w e \<Longrightarrow> account_ok (Some (wallet_after e)) (es @ [e])"
  by (simp add: account_ok_def chained_snoc extends_wallet_def wallet_after_def)

lemma ledger_of_append:
  "wallet_ledger (s\<lparr>ledger := ledger s @ es\<rparr>) u a = wallet_ledger s u a @ filter (\<lambda>e. le_user e = u \<and> le_asset e = a) es"
  by (simp add: wallet_ledger_def)

subsection \<open>The single statements\<close>

lemma uuid_v7_Ok: "uuid_v7 s = Ok (x, s') \<Longrightarrow> \<exists>r. s' = s\<lparr>entropy := r\<rparr>"
  by (auto simp: uuid_v7_def split: list.splits if_splits)

lemma insert_transaction_Ok:
  "insert_transaction t s = Ok s' \<longleftrightarrow> s' = s\<lparr>transactions := transactions s @ [t]\<rparr> \<and>
     tr_id t \<notin> tr_id ` set (transactions s) \<and> find_transaction s (tr_biz_type t) (tr_biz_id t) = None \<and>
     tr_user t \<in> set (accounts s) \<and> length (tr_request t) = 32"
  by (auto simp: insert_transaction_def)

lemma update_wallet_Ok:
  "wallets s (u, a) \<noteq> None \<Longrightarrow> update_wallet u a w s = Ok s' \<longleftrightarrow>
     s' = s\<lparr>wallets := (wallets s)((u, a) \<mapsto> w)\<rparr> \<and> 0 \<le> wr_balance w \<and> 0 \<le> wr_seq w \<and> 0 < wr_version w"
  by (auto simp: update_wallet_def)

lemma insert_entry_Ok: "insert_entry e s = Ok s' \<longleftrightarrow> s' = s\<lparr>ledger := ledger s @ [e]\<rparr> \<and> entry_ok s e"
  by (auto simp: insert_entry_def)

lemma insert_record_Ok:
  "insert_record i s = Ok s' \<longleftrightarrow> s' = s\<lparr>idempotency := idempotency s @ [i]\<rparr> \<and>
     ir_id i \<notin> ir_id ` set (idempotency s) \<and> find_idem s (ir_user i) (ir_scope i) (ir_key i) = None \<and>
     ir_user i \<in> set (accounts s) \<and> ir_scope i \<in> {wallet_scope, exchange_scope} \<and>
     length (ir_key i) = 32 \<and> length (ir_request i) = 32 \<and>
     list_ex (\<lambda>e. le_id e = ir_resource i \<and> le_user e = ir_user i) (ledger s)"
  by (auto simp: insert_record_def)

lemma insert_idempotency_Ok:
  "insert_idempotency m key semantic eid s = Ok s' \<Longrightarrow>
     \<exists>i r. s' = s\<lparr>idempotency := idempotency s @ [i], entropy := r\<rparr> \<and> ir_user i = mu_user m \<and> ir_scope i = wallet_scope \<and>
       ir_key i = key \<and> ir_request i = semantic \<and> ir_resource i = eid \<and>
       find_idem s (mu_user m) wallet_scope key = None"
proof -
  assume "insert_idempotency m key semantic eid s = Ok s'"
  then obtain x t where x: "uuid_v7 s = Ok (x, t)" and t: "insert_record \<lparr>ir_id = x, ir_user = mu_user m,
      ir_scope = wallet_scope, ir_key = key, ir_request = semantic, ir_resource = eid\<rparr> t = Ok s'"
    by (auto simp: insert_idempotency_def res_simps)
  from uuid_v7_Ok[OF x] obtain r where r: "t = s\<lparr>entropy := r\<rparr>" ..
  let ?i = "\<lparr>ir_id = x, ir_user = mu_user m, ir_scope = wallet_scope, ir_key = key, ir_request = semantic, ir_resource = eid\<rparr>"
  have "s' = s\<lparr>idempotency := idempotency s @ [?i], entropy := r\<rparr>" "find_idem s (mu_user m) wallet_scope key = None"
    using t unfolding insert_record_Ok r by (auto simp: find_idem_def)
  then show ?thesis by (intro exI[of _ ?i] exI[of _ r]) simp
qed

lemma hashes_Ok:
  "mutation_hashes sha m = Ok (key, semantic) \<longleftrightarrow>
     valid_mutation m \<and> key = sha (mu_key m) \<and> semantic = sha (canonical_mutation m)"
  by (auto simp: mutation_hashes_def)

subsection \<open>Posting\<close>

text \<open>What a committed posting adds to the tables, for one entry or for the two legs of an exchange.\<close>

definition posts :: "'a tables_scheme \<Rightarrow> tx_row \<Rightarrow> ledger_entry list \<Rightarrow> idem_row \<Rightarrow> 'a tables_scheme \<Rightarrow> bool" where
  "posts s t es i s' \<longleftrightarrow>
     (\<exists>r. s' = s\<lparr>wallets := (\<lambda>k. case find (\<lambda>e. (le_user e, le_asset e) = k) es of
                    Some e \<Rightarrow> Some (wallet_after e) | None \<Rightarrow> wallets s k),
               ledger := ledger s @ es, transactions := transactions s @ [t], idempotency := idempotency s @ [i],
               entropy := r\<rparr>) \<and>
     es \<noteq> [] \<and> distinct (map le_id (ledger s @ es)) \<and> distinct (map (\<lambda>e. (le_tx e, le_leg e)) (ledger s @ es)) \<and>
     distinct (map (\<lambda>e. (le_user e, le_asset e)) es) \<and>
     (\<forall>e\<in>set es. (\<exists>w. wallets s (le_user e, le_asset e) = Some w \<and> extends_wallet w e) \<and>
        le_tx e = tr_id t \<and> le_user e = tr_user t \<and> le_biz_type e = tr_biz_type t \<and> le_biz_id e = tr_biz_id t) \<and>
     tr_id t \<notin> tr_id ` set (transactions s) \<and> find_transaction s (tr_biz_type t) (tr_biz_id t) = None \<and>
     find_idem s (ir_user i) (ir_scope i) (ir_key i) = None \<and>
     ir_user i = tr_user t \<and> ir_request i = tr_request t \<and> ir_resource i = le_id (hd es) \<and> le_leg (hd es) = 1"

lemma posts_linked:
  assumes "linked s" "posts s t es i s'"
  shows "linked s'"
proof -
  from assms(2) obtain r where s': "ledger s' = ledger s @ es" "transactions s' = transactions s @ [t]"
    "idempotency s' = idempotency s @ [i]" by (auto simp: posts_def)
  have p: "es \<noteq> []" "distinct (map le_id (ledger s @ es))" "distinct (map (\<lambda>e. (le_tx e, le_leg e)) (ledger s @ es))"
    "\<forall>e\<in>set es. le_tx e = tr_id t \<and> le_user e = tr_user t \<and> le_biz_type e = tr_biz_type t \<and> le_biz_id e = tr_biz_id t"
    "tr_id t \<notin> tr_id ` set (transactions s)" "find_transaction s (tr_biz_type t) (tr_biz_id t) = None"
    "find_idem s (ir_user i) (ir_scope i) (ir_key i) = None" "ir_user i = tr_user t" "ir_resource i = le_id (hd es)"
    "le_leg (hd es) = 1"
    using assms(2) by (auto simp: posts_def)
  have "hd es \<in> set es" using p(1) by simp
  then have own: "\<exists>e\<in>set (ledger s'). le_id e = ir_resource i \<and> le_user e = ir_user i \<and> le_leg e = 1"
    using p(4,8,9,10) s'(1) by auto
  have "\<exists>x\<in>set (transactions s'). tr_id x = le_tx e \<and> tr_user x = le_user e \<and> tr_biz_type x = le_biz_type e \<and>
      tr_biz_id x = le_biz_id e" if "e \<in> set (ledger s')" for e
    using that p(4) assms(1) by (cases "e \<in> set es") (auto simp: s' linked_def)
  moreover have "\<exists>e\<in>set (ledger s'). le_id e = ir_resource j \<and> le_user e = ir_user j \<and> le_leg e = 1"
    if "j \<in> set (idempotency s')" for j
    using that own assms(1) by (cases "j = i") (auto simp: s' linked_def)
  moreover have "distinct (map (\<lambda>t. (tr_biz_type t, tr_biz_id t)) (transactions s'))"
    using p(6) assms(1) by (auto simp: s' linked_def find_transaction_def find_None_iff)
  moreover have "distinct (map (\<lambda>i. (ir_user i, ir_scope i, ir_key i)) (idempotency s'))"
    using p(7) assms(1) by (auto simp: s' linked_def find_idem_def find_None_iff)
  moreover have "distinct (map tr_id (transactions s'))" using p(5) assms(1) by (auto simp: s' linked_def)
  ultimately show ?thesis unfolding linked_def using p(2,3)[folded s'(1)] by blast
qed

lemma find_owner:
  "distinct (map (\<lambda>e. (le_user e, le_asset e)) es) \<Longrightarrow> e \<in> set es \<Longrightarrow>
     find (\<lambda>x. (le_user x, le_asset x) = (le_user e, le_asset e)) es = Some e"
  by (induction es) (auto simp: image_iff)

lemma filter_owner:
  "distinct (map (\<lambda>e. (le_user e, le_asset e)) es) \<Longrightarrow> e \<in> set es \<Longrightarrow>
     filter (\<lambda>x. le_user x = le_user e \<and> le_asset x = le_asset e) es = [e]"
  by (induction es) (auto simp: image_iff filter_empty_conv)

lemma posts_books:
  assumes "books s" "posts s t es i s'"
  shows "books s'"
proof -
  from assms(2) obtain r where s': "wallets s' = (\<lambda>k. case find (\<lambda>e. (le_user e, le_asset e) = k) es of
      Some e \<Rightarrow> Some (wallet_after e) | None \<Rightarrow> wallets s k)" "ledger s' = ledger s @ es" by (auto simp: posts_def)
  have d: "distinct (map (\<lambda>e. (le_user e, le_asset e)) es)"
    and ext: "\<And>e. e \<in> set es \<Longrightarrow> \<exists>w. wallets s (le_user e, le_asset e) = Some w \<and> extends_wallet w e"
    using assms(2) by (auto simp: posts_def)
  have "account_ok (wallets s' (u, a)) (wallet_ledger s' u a)" for u a
  proof (cases "\<exists>e\<in>set es. le_user e = u \<and> le_asset e = a")
    case True
    then obtain e where e: "e \<in> set es" "le_user e = u" "le_asset e = a" by blast
    from ext[OF e(1)] obtain w where w: "wallets s (u, a) = Some w" "extends_wallet w e" using e by auto
    have "wallets s' (u, a) = Some (wallet_after e)" using find_owner[OF d e(1)] e by (simp add: s'(1))
    moreover have "wallet_ledger s' u a = wallet_ledger s u a @ [e]"
      using filter_owner[OF d e(1)] e by (simp add: wallet_ledger_def s'(2))
    ultimately show ?thesis using account_ok_snoc[OF _ w(2)] books_account[OF assms(1), of u a] w(1) by simp
  next
    case False
    then have "wallets s' (u, a) = wallets s (u, a)" "wallet_ledger s' u a = wallet_ledger s u a"
      by (auto simp: s' wallet_ledger_def find_None_iff filter_empty_conv split: option.splits dest!: find_Some_mem)
    then show ?thesis using books_account[OF assms(1), of u a] by simp
  qed
  with posts_linked[OF _ assms(2)] assms(1) show ?thesis by (simp add: books_def)
qed


subsection \<open>A mutation is posted\<close>

definition entry_of :: "mutation \<Rightarrow> wallet_row \<Rightarrow> byte list \<Rightarrow> byte list \<Rightarrow> ledger_entry" where
  "entry_of m w tx eid =
     \<lparr>le_id = eid, le_tx = tx, le_leg = 1, le_user = mu_user m, le_asset = mu_asset m, le_seq = wr_seq w + 1,
      le_version = wr_version w + 1, le_entry = mu_entry m, le_biz_type = mu_type m, le_biz_id = mu_id m,
      le_delta = mu_delta m, le_before = wr_balance w, le_after = wr_balance w + mu_delta m\<rparr>"

lemma entry_ok_fresh:
  "entry_ok s e \<Longrightarrow> le_id e \<notin> le_id ` set (ledger s) \<and> (le_tx e, le_leg e) \<notin> (\<lambda>e. (le_tx e, le_leg e)) ` set (ledger s)"
  by (auto simp: entry_ok_def image_iff)

lemma post_entry_Ok:
  assumes "post_entry m key semantic s = Ok (s', e)" "books s" "find_transaction s (mu_type m) (mu_id m) = None"
  shows "\<exists>w t i. wallets s (mu_user m, mu_asset m) = Some w \<and> e = entry_of m w (tr_id t) (le_id e) \<and> posts s t [e] i s' \<and>
     tr_biz_type t = mu_type m \<and> tr_biz_id t = mu_id m \<and> tr_user t = mu_user m \<and> tr_operation t = mu_entry m \<and>
     tr_request t = semantic \<and> ir_scope i = wallet_scope \<and> ir_key i = key \<and>
     0 \<le> wr_balance w + mu_delta m \<and> wr_balance w + mu_delta m \<le> max_int64"
proof -
  obtain w where w: "wallets s (mu_user m, mu_asset m) = Some w"
    using assms(1) by (auto simp: post_entry_def split: option.splits)
  from assms(1)[unfolded post_entry_def w, simplified] obtain tx a eid b c d f where steps:
    "mu_delta m < 0 \<longrightarrow> - wr_balance w \<le> mu_delta m" "0 < mu_delta m \<longrightarrow> wr_balance w \<le> max_int64 - mu_delta m"
    "uuid_v7 s = Ok (tx, a)" "uuid_v7 a = Ok (eid, b)"
    "insert_transaction \<lparr>tr_id = tx, tr_biz_type = mu_type m, tr_biz_id = mu_id m, tr_user = mu_user m,
       tr_operation = mu_entry m, tr_request = semantic\<rparr> b = Ok c"
    "update_wallet (mu_user m) (mu_asset m) \<lparr>wr_balance = wr_balance w + mu_delta m, wr_seq = wr_seq w + 1,
       wr_version = wr_version w + 1\<rparr> c = Ok d"
    "insert_entry (entry_of m w tx eid) d = Ok f" "insert_idempotency m key semantic eid f = Ok s'"
    "e = entry_of m w tx eid"
    by (auto simp: res_simps Let_def entry_of_def not_less split: if_splits)
  obtain r where b: "b = s\<lparr>entropy := r\<rparr>" using uuid_v7_Ok[OF steps(3)] uuid_v7_Ok[OF steps(4)] by auto
  let ?t = "\<lparr>tr_id = tx, tr_biz_type = mu_type m, tr_biz_id = mu_id m, tr_user = mu_user m,
    tr_operation = mu_entry m, tr_request = semantic\<rparr>"
  have c: "c = b\<lparr>transactions := transactions b @ [?t]\<rparr>" and t: "tx \<notin> tr_id ` set (transactions s)"
    using steps(5) by (auto simp: insert_transaction_Ok b)
  have "wallets c (mu_user m, mu_asset m) \<noteq> None" by (simp add: b c w)
  from steps(6)[unfolded update_wallet_Ok[OF this]]
  have d: "d = c\<lparr>wallets := (wallets c)((mu_user m, mu_asset m) \<mapsto> wallet_after e)\<rparr>" and nn: "0 \<le> wr_balance w + mu_delta m"
    by (simp_all add: wallet_after_def steps(9) entry_of_def)
  have f: "f = d\<lparr>ledger := ledger d @ [e]\<rparr>" and fresh: "le_id e \<notin> le_id ` set (ledger s)"
      "(le_tx e, le_leg e) \<notin> (\<lambda>e. (le_tx e, le_leg e)) ` set (ledger s)" and nz: "mu_delta m \<noteq> 0"
    using steps(7) entry_ok_fresh[of d e] by (auto simp: insert_entry_Ok steps(9)[symmetric] b c d) (simp add: entry_ok_def steps(9) entry_of_def)
  from insert_idempotency_Ok[OF steps(8)] obtain i r' where i: "s' = f\<lparr>idempotency := idempotency f @ [i], entropy := r'\<rparr>"
    "ir_user i = mu_user m" "ir_scope i = wallet_scope" "ir_key i = key" "ir_request i = semantic" "ir_resource i = eid"
    "find_idem f (mu_user m) wallet_scope key = None" by blast
  have max: "wr_balance w + mu_delta m \<le> max_int64"
    using steps(2) nz books_account[OF assms(2), of "mu_user m" "mu_asset m"] by (auto simp: account_ok_def w)
  have ext: "extends_wallet w e" using nn max nz by (simp add: extends_wallet_def steps(9) entry_of_def)
  have e: "le_user e = mu_user m" "le_asset e = mu_asset m" "le_tx e = tx" "le_leg e = 1" "le_id e = eid"
      "le_biz_type e = mu_type m" "le_biz_id e = mu_id m" by (simp_all add: steps(9) entry_of_def)
  have "(wallets s)((mu_user m, mu_asset m) \<mapsto> wallet_after e) = (\<lambda>k. case find (\<lambda>e. (le_user e, le_asset e) = k) [e] of
      Some e \<Rightarrow> Some (wallet_after e) | None \<Rightarrow> wallets s k)" by (auto simp: e)
  then have "s' = s\<lparr>wallets := (\<lambda>k. case find (\<lambda>e. (le_user e, le_asset e) = k) [e] of
      Some e \<Rightarrow> Some (wallet_after e) | None \<Rightarrow> wallets s k), ledger := ledger s @ [e],
      transactions := transactions s @ [?t], idempotency := idempotency s @ [i], entropy := r'\<rparr>"
    by (simp add: i(1) f d c b)
  then have "\<exists>r. s' = s\<lparr>wallets := (\<lambda>k. case find (\<lambda>e. (le_user e, le_asset e) = k) [e] of
      Some e \<Rightarrow> Some (wallet_after e) | None \<Rightarrow> wallets s k), ledger := ledger s @ [e],
      transactions := transactions s @ [?t], idempotency := idempotency s @ [i], entropy := r\<rparr>" by blast
  moreover have "find_idem s (mu_user m) wallet_scope key = None" using i(7) by (simp add: find_idem_def b c d f)
  moreover have "distinct (map le_id (ledger s @ [e]))" "distinct (map (\<lambda>e. (le_tx e, le_leg e)) (ledger s @ [e]))"
    using assms(2) fresh by (auto simp: books_def linked_def)
  ultimately have "posts s ?t [e] i s'"
    using assms(3) ext t i(2-6) w unfolding posts_def by (simp add: e)
  with w steps(9) nn max i show ?thesis by (intro exI[of _ w] exI[of _ ?t] exI[of _ i]) (auto simp: entry_of_def)
qed


subsection \<open>Applying a mutation\<close>

text \<open>Every way an application can end well: a replay by key, a replay by business identity
  (which books the key), or a posting.\<close>

lemma apply_in_tx_cases:
  assumes "apply_in_tx sha m s = Ok (s', e)" "books s"
  obtains (key) i where "s' = s" "find_idem s (mu_user m) wallet_scope (sha (mu_key m)) = Some i"
      "ir_request i = sha (canonical_mutation m)" "find (\<lambda>e. le_id e = ir_resource i \<and> le_user e = mu_user m) (ledger s) = Some e"
  | (business) t i r where "find_idem s (mu_user m) wallet_scope (sha (mu_key m)) = None"
      "find_transaction s (mu_type m) (mu_id m) = Some t" "tr_user t = mu_user m" "tr_request t = sha (canonical_mutation m)"
      "find (\<lambda>e. le_tx e = tr_id t \<and> le_user e = mu_user m \<and> le_leg e = 1) (ledger s) = Some e"
      "s' = s\<lparr>idempotency := idempotency s @ [i], entropy := r\<rparr>" "ir_user i = mu_user m" "ir_scope i = wallet_scope"
      "ir_key i = sha (mu_key m)" "ir_request i = sha (canonical_mutation m)" "ir_resource i = le_id e"
  | (posted) w t i where "wallets s (mu_user m, mu_asset m) = Some w" "e = entry_of m w (tr_id t) (le_id e)"
      "posts s t [e] i s'" "tr_biz_type t = mu_type m" "tr_biz_id t = mu_id m" "tr_user t = mu_user m"
      "tr_operation t = mu_entry m" "tr_request t = sha (canonical_mutation m)" "ir_scope i = wallet_scope"
      "ir_key i = sha (mu_key m)" "find_transaction s (mu_type m) (mu_id m) = None"
      "find_idem s (mu_user m) wallet_scope (sha (mu_key m)) = None"
      "0 \<le> wr_balance w + mu_delta m" "wr_balance w + mu_delta m \<le> max_int64"
proof (cases "find_idem s (mu_user m) wallet_scope (sha (mu_key m))")
  case (Some i)
  then show ?thesis using assms(1)
    by (intro key[of i]) (auto simp: apply_in_tx_def res_simps hashes_Ok split: if_splits option.splits)
next
  case none: None
  show ?thesis
  proof (cases "find_transaction s (mu_type m) (mu_id m)")
    case None
    then have "post_entry m (sha (mu_key m)) (sha (canonical_mutation m)) s = Ok (s', e)"
      using assms(1) none by (auto simp: apply_in_tx_def res_simps hashes_Ok split: if_splits)
    from post_entry_Ok[OF this assms(2) None] obtain w t i where "wallets s (mu_user m, mu_asset m) = Some w"
      "e = entry_of m w (tr_id t) (le_id e)" "posts s t [e] i s'" "tr_biz_type t = mu_type m" "tr_biz_id t = mu_id m"
      "tr_user t = mu_user m" "tr_operation t = mu_entry m" "tr_request t = sha (canonical_mutation m)"
      "ir_scope i = wallet_scope" "ir_key i = sha (mu_key m)" "0 \<le> wr_balance w + mu_delta m"
      "wr_balance w + mu_delta m \<le> max_int64" by blast
    from posted[OF this(1-10) None none this(11,12)] show ?thesis .
  next
    case (Some t)
    then have "insert_idempotency m (sha (mu_key m)) (sha (canonical_mutation m)) (le_id e) s = Ok s'"
      and t: "tr_user t = mu_user m" "tr_request t = sha (canonical_mutation m)"
        "find (\<lambda>e. le_tx e = tr_id t \<and> le_user e = mu_user m \<and> le_leg e = 1) (ledger s) = Some e"
      using assms(1) none by (auto simp: apply_in_tx_def res_simps hashes_Ok split: if_splits option.splits)
    from insert_idempotency_Ok[OF this(1)] obtain i r where "s' = s\<lparr>idempotency := idempotency s @ [i], entropy := r\<rparr>"
      "ir_user i = mu_user m" "ir_scope i = wallet_scope" "ir_key i = sha (mu_key m)"
      "ir_request i = sha (canonical_mutation m)" "ir_resource i = le_id e" by blast
    from business[OF none Some t this] show ?thesis .
  qed
qed

lemma linked_note_key:
  assumes "linked s" "find_idem s (ir_user i) (ir_scope i) (ir_key i) = None"
    "e \<in> set (ledger s)" "le_id e = ir_resource i" "le_user e = ir_user i" "le_leg e = 1"
  shows "linked (s\<lparr>idempotency := idempotency s @ [i], entropy := r\<rparr>)"
  using assms by (auto simp: linked_def find_idem_def find_None_iff)

lemma apply_in_tx_books:
  assumes "apply_in_tx sha m s = Ok (s', e)" "books s"
  shows "books s'"
  using assms
proof (cases rule: apply_in_tx_cases)
  case (business t i r)
  from find_Some_mem[OF business(5)] have "linked s'"
    unfolding business(6) using assms(2) business(1,7-11)
    by (intro linked_note_key[of _ _ e]) (auto simp: books_def)
  then show ?thesis using assms(2) business(6) by (simp add: books_def wallet_ledger_def)
next
  case (posted w t i)
  from posts_books[OF assms(2) posted(3)] show ?thesis .
qed (use assms(2) in simp)


subsection \<open>Exchanging\<close>

definition leg_entry :: "int \<Rightarrow> byte list \<Rightarrow> byte list \<Rightarrow> nat \<Rightarrow> asset \<Rightarrow> wallet_row \<Rightarrow> int \<Rightarrow> byte list \<Rightarrow> ledger_entry" where
  "leg_entry u tx biz leg a w delta eid =
     \<lparr>le_id = eid, le_tx = tx, le_leg = leg, le_user = u, le_asset = a, le_seq = wr_seq w + 1, le_version = wr_version w + 1,
      le_entry = ascii ''LOCAL_EXCHANGE'', le_biz_type = ascii ''LOCAL_EXCHANGE'', le_biz_id = biz, le_delta = delta,
      le_before = wr_balance w, le_after = wr_balance w + delta\<rparr>"

lemma leg_entry_simps [simp]:
  "le_id (leg_entry u tx biz leg a w d eid) = eid" "le_tx (leg_entry u tx biz leg a w d eid) = tx"
  "le_leg (leg_entry u tx biz leg a w d eid) = leg" "le_user (leg_entry u tx biz leg a w d eid) = u"
  "le_asset (leg_entry u tx biz leg a w d eid) = a" "le_delta (leg_entry u tx biz leg a w d eid) = d"
  "le_biz_type (leg_entry u tx biz leg a w d eid) = ascii ''LOCAL_EXCHANGE''"
  "le_biz_id (leg_entry u tx biz leg a w d eid) = biz"
  by (simp_all add: leg_entry_def)

lemma exchange_leg_Ok:
  assumes "exchange_leg u tx biz leg a w delta s = Ok (eid, s')" "wallets s (u, a) = Some w0"
  defines "e \<equiv> leg_entry u tx biz leg a w delta eid"
  shows "\<exists>r. s' = s\<lparr>wallets := (wallets s)((u, a) \<mapsto> wallet_after e), ledger := ledger s @ [e], entropy := r\<rparr> \<and>
     eid \<notin> le_id ` set (ledger s) \<and> (tx, leg) \<notin> (\<lambda>e. (le_tx e, le_leg e)) ` set (ledger s) \<and>
     delta \<noteq> 0 \<and> 0 \<le> wr_balance w + delta"
proof -
  from assms(1) obtain c d where steps:
    "update_wallet u a (wallet_after e) s = Ok c" "uuid_v7 c = Ok (eid, d)" "insert_entry e d = Ok s'"
    by (auto simp: exchange_leg_def res_simps Let_def leg_entry_def wallet_after_def e_def)
  have "wallets s (u, a) \<noteq> None" using assms(2) by simp
  from steps(1)[unfolded update_wallet_Ok[OF this]]
  have c: "c = s\<lparr>wallets := (wallets s)((u, a) \<mapsto> wallet_after e)\<rparr>" "0 \<le> wr_balance w + delta"
    by (simp_all add: wallet_after_def e_def leg_entry_def)
  from uuid_v7_Ok[OF steps(2)] obtain r where d: "d = c\<lparr>entropy := r\<rparr>" ..
  from steps(3) have s': "s' = d\<lparr>ledger := ledger d @ [e]\<rparr>" and ok: "entry_ok d e" by (auto simp: insert_entry_Ok)
  have "delta \<noteq> 0" using ok by (simp add: entry_ok_def e_def leg_entry_def)
  then show ?thesis using entry_ok_fresh[OF ok] c d s' by (intro exI[of _ r]) (auto simp: e_def)
qed

lemma post_exchange_Ok:
  assumes "post_exchange u key from to amount hash semantic s = Ok (s', r)" "books s" "from \<noteq> to" "0 < amount"
  shows "\<exists>f g t i e1 e2. wallets s (u, from) = Some f \<and> wallets s (u, to) = Some g \<and>
     amount \<le> wr_balance f \<and> wr_balance g + amount \<le> max_int64 \<and>
     e1 = leg_entry u (tr_id t) (tr_biz_id t) 1 from f (- amount) (le_id e1) \<and>
     e2 = leg_entry u (tr_id t) (tr_biz_id t) 2 to g amount (le_id e2) \<and>
     posts s t [e1, e2] i s' \<and> tr_user t = u \<and> tr_operation t = ascii ''LOCAL_EXCHANGE'' \<and> tr_request t = semantic \<and>
     tr_biz_id t = ascii ''exchange:'' @ int_text u @ [58] @ key \<and>
     ir_scope i = exchange_scope \<and> ir_key i = hash \<and> transaction_in_tx s' u (tr_id t) = Ok r"
proof -
  obtain f g where w: "wallets s (u, from) = Some f" "wallets s (u, to) = Some g"
    using assms(1) by (auto simp: post_exchange_def split: option.splits)
  define biz where "biz = ascii ''exchange:'' @ int_text u @ [58] @ key"
  let ?t = "\<lambda>tx. \<lparr>tr_id = tx, tr_biz_type = ascii ''LOCAL_EXCHANGE'', tr_biz_id = biz, tr_user = u,
    tr_operation = ascii ''LOCAL_EXCHANGE'', tr_request = semantic\<rparr>"
  let ?i = "\<lambda>rid eid. \<lparr>ir_id = rid, ir_user = u, ir_scope = exchange_scope, ir_key = hash, ir_request = semantic, ir_resource = eid\<rparr>"
  from assms(1)[unfolded post_exchange_def w, simplified, folded biz_def] obtain tx a b i1 c i2 d rid e where steps:
    "amount \<le> wr_balance f" "wr_balance g \<le> max_int64 - amount" "uuid_v7 s = Ok (tx, a)"
    "insert_transaction (?t tx) a = Ok b" "exchange_leg u tx biz 1 from f (- amount) b = Ok (i1, c)"
    "exchange_leg u tx biz 2 to g amount c = Ok (i2, d)" "uuid_v7 d = Ok (rid, e)"
    "insert_record (?i rid i1) e = Ok s'" "transaction_in_tx s' u tx = Ok r"
    by (auto simp: res_simps Let_def not_less numeral_2_eq_2 biz_def split: if_splits)
  from uuid_v7_Ok[OF steps(3)] obtain r1 where a: "a = s\<lparr>entropy := r1\<rparr>" ..
  have b: "b = a\<lparr>transactions := transactions a @ [?t tx]\<rparr>" and t: "tx \<notin> tr_id ` set (transactions s)"
      "find_transaction s (ascii ''LOCAL_EXCHANGE'') biz = None"
    using steps(4) by (auto simp: insert_transaction_Ok a find_transaction_def)
  let ?e1 = "leg_entry u tx biz 1 from f (- amount) i1" and ?e2 = "leg_entry u tx biz 2 to g amount i2"
  have "wallets b (u, from) = Some f" by (simp add: b a w)
  from exchange_leg_Ok[OF steps(5) this] obtain r2 where
    c: "c = b\<lparr>wallets := (wallets b)((u, from) \<mapsto> wallet_after ?e1), ledger := ledger b @ [?e1], entropy := r2\<rparr>"
      "i1 \<notin> le_id ` set (ledger s)" "(tx, 1) \<notin> (\<lambda>e. (le_tx e, le_leg e)) ` set (ledger s)"
    by (auto simp: b a)
  have "wallets c (u, to) = Some g" using assms(3) by (simp add: c b a w)
  from exchange_leg_Ok[OF steps(6) this] obtain r3 where
    d: "d = c\<lparr>wallets := (wallets c)((u, to) \<mapsto> wallet_after ?e2), ledger := ledger c @ [?e2], entropy := r3\<rparr>"
      "i2 \<notin> le_id ` set (ledger s) \<union> {i1}" "(tx, 2) \<notin> (\<lambda>e. (le_tx e, le_leg e)) ` set (ledger s)"
    by (auto simp: c b a)
  from uuid_v7_Ok[OF steps(7)] obtain r4 where e: "e = d\<lparr>entropy := r4\<rparr>" ..
  have s': "s' = e\<lparr>idempotency := idempotency e @ [?i rid i1]\<rparr>" and new: "find_idem s u exchange_scope hash = None"
    using steps(8) by (auto simp: insert_record_Ok e d c b a find_idem_def)
  have "(wallets s)((u, from) \<mapsto> wallet_after ?e1, (u, to) \<mapsto> wallet_after ?e2) =
      (\<lambda>k. case find (\<lambda>e. (le_user e, le_asset e) = k) [?e1, ?e2] of Some e \<Rightarrow> Some (wallet_after e) | None \<Rightarrow> wallets s k)"
    using assms(3) by (auto simp: fun_eq_iff)
  then have "\<exists>r. s' = s\<lparr>wallets := (\<lambda>k. case find (\<lambda>e. (le_user e, le_asset e) = k) [?e1, ?e2] of
      Some e \<Rightarrow> Some (wallet_after e) | None \<Rightarrow> wallets s k), ledger := ledger s @ [?e1, ?e2],
      transactions := transactions s @ [?t tx], idempotency := idempotency s @ [?i rid i1], entropy := r\<rparr>"
    by (intro exI[of _ r4]) (simp add: s' e d c b a)
  moreover have "distinct (map le_id (ledger s @ [?e1, ?e2]))" "distinct (map (\<lambda>e. (le_tx e, le_leg e)) (ledger s @ [?e1, ?e2]))"
    using assms(2) c(2,3) d(2,3) by (auto simp: books_def linked_def)
  moreover have "extends_wallet f ?e1" "extends_wallet g ?e2"
    using steps(1,2) assms(4) books_account[OF assms(2), of u "from"] books_account[OF assms(2), of u to]
    by (auto simp: extends_wallet_def leg_entry_def account_ok_def w)
  ultimately have "posts s (?t tx) [?e1, ?e2] (?i rid i1) s'"
    using t new assms(3) w unfolding posts_def by simp
  then show ?thesis
    using w steps(1,2,9) by (intro exI[of _ f] exI[of _ g] exI[of _ "?t tx"] exI[of _ "?i rid i1"] exI[of _ ?e1] exI[of _ ?e2])
      (simp add: biz_def)
qed

lemma exchange_in_tx_cases:
  assumes "exchange_in_tx sha u key from amount s = Ok (s', r)"
  obtains (prior) "s' = s" "find_operation sha s u ExchangeKind key = Ok (Some r)" "rt_from r = from" "rt_amount_units r = amount"
  | (posted) "0 < u" "0 < amount"
      "valid_asset from" "find_operation sha s u ExchangeKind key = Ok None"
      "post_exchange u key from (other_asset from) amount (sha key) (sha (canonical_exchange u from amount)) s = Ok (s', r)"
proof -
  have guard: "0 < u" "0 < amount" "valid_asset from" "valid_operation_key key"
    using assms by (auto simp: exchange_in_tx_def not_le intro: ccontr)
  then have bad: "\<not> (u \<le> 0 \<or> \<not> valid_operation_key key \<or> \<not> valid_asset from \<or> amount \<le> 0)" by simp
  have "bindr (find_operation sha s u ExchangeKind key) (\<lambda>prior. case prior of
      Some r \<Rightarrow> if rt_from r \<noteq> from \<or> rt_amount_units r \<noteq> amount then Fail IdempotencyConflict else Ok (s, r)
    | None \<Rightarrow> bindr (require_no_maintenance [''CHALDEA_USER_WRITES'', ''WALLET_EXCHANGE''] s) (\<lambda>_.
        post_exchange u key from (other_asset from) amount (sha key) (sha (canonical_exchange u from amount)) s)) = Ok (s', r)"
    using assms unfolding exchange_in_tx_def if_not_P[OF bad] .
  then obtain p where ok: "find_operation sha s u ExchangeKind key = Ok p"
    and rest: "(case p of Some r \<Rightarrow> if rt_from r \<noteq> from \<or> rt_amount_units r \<noteq> amount then Fail IdempotencyConflict else Ok (s, r)
      | None \<Rightarrow> bindr (require_no_maintenance [''CHALDEA_USER_WRITES'', ''WALLET_EXCHANGE''] s) (\<lambda>_.
          post_exchange u key from (other_asset from) amount (sha key) (sha (canonical_exchange u from amount)) s)) = Ok (s', r)"
    by (auto simp: bindr_Ok_iff)
  show thesis
  proof (cases p)
    case None
    with rest ok guard show thesis by (auto simp: bindr_Ok_iff intro: posted)
  next
    case (Some q)
    with rest ok show thesis by (auto split: if_splits intro: prior)
  qed
qed

lemma exchange_in_tx_books:
  assumes "exchange_in_tx sha u key from amount s = Ok (s', r)" "books s"
  shows "books s'"
  using assms(1)
proof (cases rule: exchange_in_tx_cases)
  case posted
  have "from \<noteq> other_asset from" by (simp add: other_asset_def)
  from post_exchange_Ok[OF posted(5) assms(2) this posted(2)] show ?thesis using posts_books[OF assms(2)] by blast
qed (use assms(2) in simp)

lemma add_wallet_frame [simp]:
  "ledger (add_wallet u a s) = ledger s" "transactions (add_wallet u a s) = transactions s"
  "idempotency (add_wallet u a s) = idempotency s"
  by (simp_all add: add_wallet_def)

lemma ledger_of_cong: "ledger s = ledger s' \<Longrightarrow> wallet_ledger s = wallet_ledger s'"
  by (simp add: wallet_ledger_def fun_eq_iff)

lemma linked_cong:
  "ledger s = ledger s' \<Longrightarrow> transactions s = transactions s' \<Longrightarrow> idempotency s = idempotency s' \<Longrightarrow> linked s = linked s'"
  by (simp add: linked_def)

lemma books_add_wallet:
  assumes "books s"
  shows "books (add_wallet u a s)"
proof -
  have "account_ok (wallets (add_wallet u a s) (v, b)) (wallet_ledger s v b)" for v b
  proof (cases "(v, b) = (u, a) \<and> wallets s (u, a) = None")
    case True
    then have "wallet_ledger s v b = []" using books_account[OF assms, of u a] by (simp add: account_ok_def)
    with True show ?thesis by (simp add: add_wallet_def account_ok_def)
  next
    case False
    then have "wallets (add_wallet u a s) (v, b) = wallets s (v, b)" by (auto simp: add_wallet_def)
    then show ?thesis using books_account[OF assms, of v b] by simp
  qed
  then show ?thesis using assms ledger_of_cong[of "add_wallet u a s" s] linked_cong[of "add_wallet u a s" s]
    by (simp add: books_def)
qed

lemma ensure_account_books:
  assumes "ensure_account u s = Ok (s', x)" "books s"
  shows "books s'"
proof -
  let ?t = "s\<lparr>accounts := accounts s @ [u]\<rparr>"
  have "books ?t" using assms(2) ledger_of_cong[of ?t s] linked_cong[of ?t s] by (simp add: books_def)
  moreover have "s' = add_wallet u AvailableChips (add_wallet u ReserveApiCredit (if u \<in> set (accounts s) then s else ?t))"
    using assms(1) by (auto simp: ensure_account_def res_simps Let_def split: if_split_asm)
  ultimately show ?thesis using assms(2) by (auto intro!: books_add_wallet)
qed


subsection \<open>Histories only grow\<close>

definition later_tables :: "'a tables_scheme \<Rightarrow> 'a tables_scheme \<Rightarrow> bool" where
  "later_tables s s' \<longleftrightarrow> prefix (ledger s) (ledger s') \<and> prefix (transactions s) (transactions s') \<and>
     prefix (idempotency s) (idempotency s') \<and> prefix (reward_keys s) (reward_keys s')"

lemma later_refl [simp, intro]: "later_tables s s"
  by (simp add: later_tables_def)

lemma later_trans: "later_tables a b \<Longrightarrow> later_tables b c \<Longrightarrow> later_tables a c"
  by (auto simp: later_tables_def intro: prefix_order.trans)

lemma find_prefix: "prefix xs ys \<Longrightarrow> find P xs = Some x \<Longrightarrow> find P ys = Some x"
proof (induction xs arbitrary: ys)
  case (Cons a xs)
  then show ?case by (cases ys) (auto split: if_splits)
qed simp

lemma find_append: "find P (xs @ ys) = (case find P xs of None \<Rightarrow> find P ys | Some x \<Rightarrow> Some x)"
  by (induction xs) auto

lemma later_finds:
  assumes "later_tables s s'"
  shows "find_idem s u sc k = Some i \<Longrightarrow> find_idem s' u sc k = Some i"
    "find_transaction s ty bid = Some t \<Longrightarrow> find_transaction s' ty bid = Some t"
    "find P (ledger s) = Some e \<Longrightarrow> find P (ledger s') = Some e"
    "find Q (transactions s) = Some t \<Longrightarrow> find Q (transactions s') = Some t"
    "reserved_key s u k = Some r \<Longrightarrow> reserved_key s' u k = Some r"
  using assms by (auto simp: later_tables_def find_idem_def find_transaction_def reserved_key_def intro: find_prefix)

lemma posts_later: "posts s t es i s' \<Longrightarrow> later_tables s s'"
  by (auto simp: posts_def later_tables_def)

lemma apply_in_tx_later:
  assumes "apply_in_tx sha m s = Ok (s', e)" "books s"
  shows "later_tables s s'"
  using assms
proof (cases rule: apply_in_tx_cases)
  case (posted w t i)
  from posts_later[OF posted(3)] show ?thesis .
qed (auto simp: later_tables_def)

lemma exchange_in_tx_later:
  assumes "exchange_in_tx sha u key from amount s = Ok (s', r)" "books s"
  shows "later_tables s s'"
  using assms(1)
proof (cases rule: exchange_in_tx_cases)
  case posted
  have "from \<noteq> other_asset from" by (simp add: other_asset_def)
  from post_exchange_Ok[OF posted(5) assms(2) this posted(2)] show ?thesis using posts_later by blast
qed simp

lemma ensure_account_later: "ensure_account u s = Ok (s', x) \<Longrightarrow> later_tables s s'"
  by (auto simp: ensure_account_def res_simps Let_def later_tables_def add_wallet_def split: if_splits)

subsection \<open>Replays\<close>

text \<open>After a mutation its key and its entry are on record.\<close>

lemma apply_in_tx_recorded:
  assumes "apply_in_tx sha m s = Ok (s', e)" "books s"
  shows "\<exists>i. find_idem s' (mu_user m) wallet_scope (sha (mu_key m)) = Some i \<and> ir_request i = sha (canonical_mutation m) \<and>
      find (\<lambda>e. le_id e = ir_resource i \<and> le_user e = mu_user m) (ledger s') = Some e"
    and "reserved_key s (mu_user m) (sha (mu_key m)) = None" "valid_mutation m"
proof -
  show "reserved_key s (mu_user m) (sha (mu_key m)) = None" "valid_mutation m"
    using assms(1) by (auto simp: apply_in_tx_def res_simps hashes_Ok split: if_splits)
  have books': "books s'" by (rule apply_in_tx_books[OF assms])
  have unique: "find (\<lambda>x. le_id x = le_id e \<and> le_user x = le_user e) (ledger s') = Some e" if "e \<in> set (ledger s')"
  proof -
    have "find (\<lambda>x. le_id x = le_id e \<and> le_user x = le_user e) (ledger s') \<noteq> None"
      unfolding find_None_iff using that by auto
    then obtain x where x: "find (\<lambda>x. le_id x = le_id e \<and> le_user x = le_user e) (ledger s') = Some x" by auto
    then have "x \<in> set (ledger s')" "le_id x = le_id e" by (auto dest: find_Some_mem)
    moreover have "inj_on le_id (set (ledger s'))" using books' by (simp add: books_def linked_def distinct_map)
    ultimately show ?thesis using x that by (auto dest: inj_onD)
  qed
  show "\<exists>i. find_idem s' (mu_user m) wallet_scope (sha (mu_key m)) = Some i \<and> ir_request i = sha (canonical_mutation m) \<and>
      find (\<lambda>e. le_id e = ir_resource i \<and> le_user e = mu_user m) (ledger s') = Some e"
    using assms
  proof (cases rule: apply_in_tx_cases)
    case (business t i r)
    from find_Some_mem[OF business(5)] have e: "e \<in> set (ledger s')" "le_user e = mu_user m" using business(6) by auto
    have "find_idem s' (mu_user m) wallet_scope (sha (mu_key m)) = Some i"
      using business(1,6-9) by (simp add: find_idem_def find_append)
    then show ?thesis using unique[OF e(1)] e(2) business(10,11) by auto
  next
    case (posted w t i)
    have p: "ledger s' = ledger s @ [e]" "idempotency s' = idempotency s @ [i]" "ir_user i = mu_user m"
      "ir_request i = sha (canonical_mutation m)" "ir_resource i = le_id e" "le_user e = mu_user m"
      using posted(3,6,8) by (auto simp: posts_def)
    have "find_idem s' (mu_user m) wallet_scope (sha (mu_key m)) = Some i"
      using posted(9,10,12) p by (simp add: find_idem_def find_append)
    then show ?thesis using unique p by auto
  qed auto
qed

lemma apply_in_tx_replay:
  assumes "apply_in_tx sha m s = Ok (s1, e)" "books s" "later_tables s1 s2"
    "reserved_key s2 (mu_user m) (sha (mu_key m)) = None"
  shows "apply_in_tx sha m s2 = Ok (s2, e)"
proof -
  from apply_in_tx_recorded[OF assms(1,2)] obtain i where i: "find_idem s1 (mu_user m) wallet_scope (sha (mu_key m)) = Some i"
    "ir_request i = sha (canonical_mutation m)"
    "find (\<lambda>e. le_id e = ir_resource i \<and> le_user e = mu_user m) (ledger s1) = Some e" and v: "valid_mutation m" by blast
  have "0 < mu_user m" using v by (simp add: valid_mutation_def)
  with i v assms(4) later_finds(1,3)[OF assms(3)] show ?thesis
    by (simp add: apply_in_tx_def mutation_hashes_def lock_economy_users_def guardr_def)
qed

text \<open>The wallets a mutation leaves.\<close>

lemma posts_wallets:
  "posts s t [e] i s' \<Longrightarrow> wallets s' = (wallets s)((le_user e, le_asset e) \<mapsto> wallet_after e)"
  by (auto simp: posts_def fun_eq_iff)

lemma entry_of_simps [simp]:
  "le_id (entry_of m w tx eid) = eid" "le_tx (entry_of m w tx eid) = tx" "le_leg (entry_of m w tx eid) = 1"
  "le_user (entry_of m w tx eid) = mu_user m" "le_asset (entry_of m w tx eid) = mu_asset m"
  "le_delta (entry_of m w tx eid) = mu_delta m" "le_biz_type (entry_of m w tx eid) = mu_type m"
  "le_biz_id (entry_of m w tx eid) = mu_id m" "le_entry (entry_of m w tx eid) = mu_entry m"
  "le_before (entry_of m w tx eid) = wr_balance w" "le_after (entry_of m w tx eid) = wr_balance w + mu_delta m"
  by (simp_all add: entry_of_def)

text \<open>The balance of a wallet, nothing when there is none, and what two assets hold together.\<close>

definition balance_of :: "'a tables_scheme \<Rightarrow> int \<Rightarrow> asset \<Rightarrow> int" where
  "balance_of s u a = (case wallets s (u, a) of None \<Rightarrow> 0 | Some w \<Rightarrow> wr_balance w)"

lemma apply_in_tx_effect:
  assumes "apply_in_tx sha m s = Ok (s', e)" "books s"
  shows "wallets s' = wallets s \<and> ledger s' = ledger s \<and> e \<in> set (ledger s) \<or>
    (\<exists>w. wallets s (mu_user m, mu_asset m) = Some w \<and>
       wallets s' = (wallets s)((mu_user m, mu_asset m) \<mapsto>
         \<lparr>wr_balance = wr_balance w + mu_delta m, wr_seq = wr_seq w + 1, wr_version = wr_version w + 1\<rparr>) \<and>
       ledger s' = ledger s @ [e] \<and> le_delta e = mu_delta m \<and> le_before e = wr_balance w \<and>
       0 \<le> wr_balance w + mu_delta m \<and> wr_balance w + mu_delta m \<le> max_int64 \<and>
       find_transaction s (mu_type m) (mu_id m) = None)"
  using assms
proof (cases rule: apply_in_tx_cases)
  case (posted w t i)
  have "ledger s' = ledger s @ [e]" using posted(3) by (auto simp: posts_def)
  moreover have "wallet_after e = \<lparr>wr_balance = wr_balance w + mu_delta m, wr_seq = wr_seq w + 1, wr_version = wr_version w + 1\<rparr>"
    by (subst posted(2)) (simp add: wallet_after_def entry_of_def)
  moreover have "le_delta e = mu_delta m" "le_before e = wr_balance w" "le_user e = mu_user m" "le_asset e = mu_asset m"
    by (subst posted(2), simp)+
  ultimately show ?thesis using posts_wallets[OF posted(3)] posted(1,11,13,14) by auto
qed (auto dest: find_Some_mem)

lemma post_exchange_effect:
  assumes "post_exchange u key from to amount hash semantic s = Ok (s', r)" "books s" "from \<noteq> to" "0 < amount"
  shows "balance_of s' u from = balance_of s u from - amount" "balance_of s' u to = balance_of s u to + amount"
    "(v, b) \<noteq> (u, from) \<Longrightarrow> (v, b) \<noteq> (u, to) \<Longrightarrow> balance_of s' v b = balance_of s v b"
    "\<exists>e1 e2. ledger s' = ledger s @ [e1, e2] \<and> le_tx e1 = le_tx e2 \<and> le_delta e1 + le_delta e2 = 0"
proof -
  from post_exchange_Ok[OF assms] obtain f g t i e1 e2 where x: "wallets s (u, from) = Some f" "wallets s (u, to) = Some g"
    "e1 = leg_entry u (tr_id t) (tr_biz_id t) 1 from f (- amount) (le_id e1)"
    "e2 = leg_entry u (tr_id t) (tr_biz_id t) 2 to g amount (le_id e2)" "posts s t [e1, e2] i s'" by blast
  have e: "le_user e1 = u" "le_asset e1 = from" "le_user e2 = u" "le_asset e2 = to" "le_tx e1 = tr_id t" "le_tx e2 = tr_id t"
    "le_delta e1 = - amount" "le_delta e2 = amount" "le_after e1 = wr_balance f - amount" "le_after e2 = wr_balance g + amount"
    by (subst x(3), simp add: leg_entry_def | subst x(4), simp add: leg_entry_def)+
  have w: "wallets s' = (\<lambda>k. if k = (u, from) then Some (wallet_after e1) else if k = (u, to) then Some (wallet_after e2) else wallets s k)"
    and l: "ledger s' = ledger s @ [e1, e2]" using x(5) by (auto simp: posts_def e fun_eq_iff)
  show "balance_of s' u from = balance_of s u from - amount" "balance_of s' u to = balance_of s u to + amount"
    "(v, b) \<noteq> (u, from) \<Longrightarrow> (v, b) \<noteq> (u, to) \<Longrightarrow> balance_of s' v b = balance_of s v b"
    using assms(3) x(1,2) by (auto simp: balance_of_def w wallet_after_def e)
  show "\<exists>e1 e2. ledger s' = ledger s @ [e1, e2] \<and> le_tx e1 = le_tx e2 \<and> le_delta e1 + le_delta e2 = 0"
    using l e by auto
qed

end
