(* ===== verification/Economy.thy ===== *)
theory Economy
  imports Ledger
begin

text \<open>
  The economic policy and the payout cap (\<open>src/internal/platform/economy_policy.go\<close>) and the sum
  of a player's assets (\<open>unified_assets.go\<close>). The state of the ledger is extended by the tables of
  policies and cap receipts, by what the two SQL functions report about chips bound in games, and
  by the instants the database clock will show. \<open>json.Unmarshal\<close> of a policy is the parameter
  \<open>unmarshal\<close>; a receipt is stored as itself, the JSON round trip is exact on its fields.
\<close>

definition economic_policy_version :: "byte list" where
  "economic_policy_version = ascii ''economy-cap-v1''"

definition single_player_max_units :: int where "single_player_max_units = 500000000000"

definition asset_cap_units :: int where "asset_cap_units = 50000000000000000"

record economic_policy =
  ep_version :: "byte list"
  ep_hash :: "byte list"
  ep_single_max :: int
  ep_cap :: int
  ep_mode :: "byte list"

record cap_settlement =
  cs_version :: "byte list"
  cs_hash :: "byte list"
  cs_total_before :: int
  cs_stake :: int
  cs_gross :: int
  cs_credited :: int
  cs_withheld :: int
  cs_net :: int
  cs_total_after :: int
  cs_quantum :: int
  cs_neutral :: int
  cs_observed :: int

record payout_cap_view =
  cv_version :: "byte list"
  cv_hash :: "byte list"
  cv_gross :: int
  cv_credited :: int
  cv_withheld :: int
  cv_net :: int
  cv_neutral :: int

definition cap_public_view :: "cap_settlement \<Rightarrow> payout_cap_view" where
  "cap_public_view c =
     \<lparr>cv_version = cs_version c, cv_hash = cs_hash c, cv_gross = cs_gross c, cv_credited = cs_credited c,
      cv_withheld = cs_withheld c, cv_net = cs_net c, cv_neutral = cs_neutral c\<rparr>"

subsection \<open>The cap\<close>

text \<open>The operands of \<open>%\<close> are not negative after the guard, and no intermediate value leaves 64 bits.\<close>

definition clip_profit :: "int \<Rightarrow> int \<Rightarrow> int \<Rightarrow> int \<Rightarrow> int" where
  "clip_profit cap base profit quantum =
     (let room = max (cap - base) 0; profit = min profit room in profit - profit mod quantum)"

definition cap_payout :: "economic_policy \<Rightarrow> int \<Rightarrow> int \<Rightarrow> int \<Rightarrow> int \<Rightarrow> (ledger_error, cap_settlement) res" where
  "cap_payout p tot stake gross quantum =
     (if tot < 0 \<or> stake < 0 \<or> stake > tot \<or> gross < 0 \<or> quantum \<le> 0 \<or> stake mod quantum \<noteq> 0 \<or>
         gross mod quantum \<noteq> 0 \<or> ep_cap p \<le> 0 \<or> ep_version p = []
      then Fail InvalidMutation
      else
        let principal = min stake gross;
            base = tot - stake + principal;
            profit = clip_profit (ep_cap p) base (gross - principal) quantum in
        if base > max_int64 - profit \<or> principal > max_int64 - profit then Fail BalanceOverflow
        else Ok \<lparr>cs_version = ep_version p, cs_hash = ep_hash p, cs_total_before = tot, cs_stake = stake,
               cs_gross = gross, cs_credited = principal + profit, cs_withheld = gross - (principal + profit),
               cs_net = principal + profit - stake, cs_total_after = base + profit, cs_quantum = quantum,
               cs_neutral = 0, cs_observed = 0\<rparr>)"

subsection \<open>The tables\<close>

record policy_row =
  pw_version :: "byte list"
  pw_hash :: "byte list"
  pw_canonical :: "byte list"

record cap_row =
  cr_kind :: "byte list"
  cr_id :: "byte list"
  cr_user :: int
  cr_receipt :: cap_settlement

record economy = tables +
  policies :: "policy_row list"
  active_policy :: "byte list"
  caps :: "cap_row list"
  poker_assets :: "int \<Rightarrow> int \<times> int \<times> bool"
  local_assets :: "int \<Rightarrow> int \<times> int \<times> bool"
  clock :: "int list"

definition read_clock :: "'a economy_scheme \<Rightarrow> (ledger_error, int \<times> 'a economy_scheme) res" where
  "read_clock s = (case clock s of [] \<Rightarrow> Fail NoRows | t # ts \<Rightarrow> Ok (t, s\<lparr>clock := ts\<rparr>))"

definition no_policy :: economic_policy where
  "no_policy = \<lparr>ep_version = [], ep_hash = [], ep_single_max = 0, ep_cap = 0, ep_mode = []\<rparr>"

definition resolve_policy ::
  "(byte list \<Rightarrow> byte list) \<Rightarrow> (byte list \<Rightarrow> economic_policy option) \<Rightarrow> 'a economy_scheme \<Rightarrow> byte list \<Rightarrow>
     (ledger_error, economic_policy) res" where
  "resolve_policy sha unmarshal s ver =
     (if ver = [] then Ok no_policy
      else case find (\<lambda>w. pw_version w = ver) (policies s) of
        None \<Rightarrow> Fail NoRows
      | Some w \<Rightarrow>
          (case unmarshal (pw_canonical w) of
             None \<Rightarrow> Fail EconomicPolicyError
           | Some p \<Rightarrow>
               if ascii (hex_encode (sha (pw_canonical w))) \<noteq> pw_hash w \<or> ep_version p \<noteq> ver \<or>
                  ep_version p \<noteq> economic_policy_version \<or> ep_cap p \<noteq> asset_cap_units \<or>
                  ep_single_max p \<noteq> single_player_max_units \<or> ep_mode p \<noteq> ascii ''CLIP_PROFIT''
               then Fail EconomicPolicyError
               else Ok (p\<lparr>ep_hash := pw_hash w\<rparr>)))"

definition current_policy ::
  "(byte list \<Rightarrow> byte list) \<Rightarrow> (byte list \<Rightarrow> economic_policy option) \<Rightarrow> 'a economy_scheme \<Rightarrow>
     (ledger_error, economic_policy) res" where
  "current_policy sha unmarshal s = resolve_policy sha unmarshal s (active_policy s)"

definition load_cap :: "'a economy_scheme \<Rightarrow> byte list \<Rightarrow> byte list \<Rightarrow> int \<Rightarrow> cap_settlement option" where
  "load_cap s kind bid u =
     map_option cr_receipt (find (\<lambda>r. cr_kind r = kind \<and> cr_id r = bid \<and> cr_user r = u) (caps s))"

definition insert_cap :: "cap_row \<Rightarrow> 'a economy_scheme \<Rightarrow> (ledger_error, 'a economy_scheme) res" where
  "insert_cap r s =
     (let c = cr_receipt r in
      if load_cap s (cr_kind r) (cr_id r) (cr_user r) \<noteq> None \<or> cr_user r \<notin> set (accounts s) \<or>
         cs_version c \<notin> set (map pw_version (policies s)) \<or> cs_gross c < 0 \<or> cs_credited c < 0 \<or> cs_withheld c < 0 \<or>
         cs_gross c \<noteq> cs_credited c + cs_withheld c
      then Fail ConstraintViolation
      else Ok (s\<lparr>caps := caps s @ [r]\<rparr>))"

text \<open>A receipt must carry the instant its assets were observed at; Go's zero time is the instant 0 of the
  model, which no clock reads.\<close>

definition record_cap ::
  "(byte list \<Rightarrow> byte list) \<Rightarrow> (byte list \<Rightarrow> economic_policy option) \<Rightarrow> byte list \<Rightarrow> byte list \<Rightarrow> int \<Rightarrow> cap_settlement \<Rightarrow>
     'a economy_scheme \<Rightarrow> (ledger_error, 'a economy_scheme) res" where
  "record_cap sha unmarshal kind bid u c s =
     (if \<not> valid_text kind \<or> \<not> valid_text bid \<or> u \<le> 0 then Fail InvalidMutation
      else bindr (resolve_policy sha unmarshal s (cs_version c)) (\<lambda>p.
        if cs_neutral c < 0 \<or> cs_quantum c \<le> 0 \<or> cs_neutral c mod cs_quantum c \<noteq> 0 \<or>
           (kind \<noteq> ascii ''POKER_HAND'' \<and> cs_neutral c \<noteq> 0)
        then Fail InvalidMutation
        else case cap_payout p (cs_total_before c) (cs_stake c) (cs_gross c) (cs_quantum c) of
          Ok check \<Rightarrow>
            if cap_public_view (check\<lparr>cs_neutral := cs_neutral c\<rparr>) \<noteq> cap_public_view c \<or>
               cs_total_after check \<noteq> cs_total_after c \<or> cs_observed c = 0
            then Fail InvalidMutation
            else (case load_cap s kind bid u of
                    Some old \<Rightarrow> if old \<noteq> c then Fail IdempotencyConflict else Ok s
                  | None \<Rightarrow> insert_cap \<lparr>cr_kind = kind, cr_id = bid, cr_user = u, cr_receipt = c\<rparr> s)
        | _ \<Rightarrow> Fail InvalidMutation))"

subsection \<open>All of a player's assets\<close>

record unified_assets =
  ua_reserve :: int
  ua_chips :: int
  ua_poker_stack :: int
  ua_poker_pot :: int
  ua_single :: int
  ua_escrow :: int
  ua_total :: int
  ua_amount :: string
  ua_observed :: int

definition checked_asset_add :: "int \<Rightarrow> int \<Rightarrow> (ledger_error, int) res" where
  "checked_asset_add tot v = (if v < 0 \<or> tot > max_int64 - v then Fail BalanceOverflow else Ok (tot + v))"

fun add_assets :: "int \<Rightarrow> int list \<Rightarrow> (ledger_error, int) res" where
  "add_assets tot [] = Ok tot"
| "add_assets tot (v # vs) = bindr (checked_asset_add tot v) (\<lambda>t. add_assets t vs)"

definition read_unified_assets :: "int \<Rightarrow> 'a economy_scheme \<Rightarrow> (ledger_error, 'a economy_scheme \<times> unified_assets) res" where
  "read_unified_assets u s =
     (case (wallets s (u, ReserveApiCredit), wallets s (u, AvailableChips)) of
        (Some r, Some c) \<Rightarrow>
          (case (poker_assets s u, local_assets s u) of ((stack, pot, healthy), (single, escrow, local_healthy)) \<Rightarrow>
             if \<not> healthy \<or> \<not> local_healthy then Fail EconomicPolicyError
             else bindr (read_clock s) (\<lambda>(now, s).
               bindr (add_assets 0 [wr_balance r, wr_balance c, stack, pot, single, escrow]) (\<lambda>tot.
               Ok (s, \<lparr>ua_reserve = wr_balance r, ua_chips = wr_balance c, ua_poker_stack = stack, ua_poker_pot = pot,
                 ua_single = single, ua_escrow = escrow, ua_total = tot, ua_amount = format_amount tot,
                 ua_observed = now\<rparr>))))
      | _ \<Rightarrow> Fail WalletNotFound)"

definition prepare_cap ::
  "economic_policy \<Rightarrow> int \<Rightarrow> int \<Rightarrow> int \<Rightarrow> int \<Rightarrow> 'a economy_scheme \<Rightarrow> (ledger_error, 'a economy_scheme \<times> cap_settlement) res" where
  "prepare_cap p u stake gross quantum s =
     bindr (read_unified_assets u s) (\<lambda>(s, assets).
     bindr (cap_payout p (ua_total assets) stake gross quantum) (\<lambda>c.
     Ok (s, c\<lparr>cs_observed := ua_observed assets\<rparr>)))"

subsection \<open>Rewards under the cap\<close>

text \<open>The zero \<open>LedgerEntry\<close> with a transaction: what a reward of nothing returns.\<close>

definition bare_entry :: "byte list \<Rightarrow> int \<Rightarrow> asset \<Rightarrow> ledger_entry" where
  "bare_entry tx u a =
     \<lparr>le_id = [], le_tx = tx, le_leg = 0, le_user = u, le_asset = a, le_seq = 0, le_version = 0, le_entry = [],
      le_biz_type = [], le_biz_id = [], le_delta = 0, le_before = 0, le_after = 0\<rparr>"

definition reward_entry :: "'a tables_scheme \<Rightarrow> int \<Rightarrow> byte list \<Rightarrow> ledger_entry" where
  "reward_entry s u tx =
     (case find (\<lambda>e. le_tx e = tx \<and> le_user e = u \<and> le_leg e = 1) (ledger s) of
        None \<Rightarrow> bare_entry tx u ReserveApiCredit | Some e \<Rightarrow> e)"

definition insert_reward_key :: "reward_key \<Rightarrow> 'a tables_scheme \<Rightarrow> (ledger_error, 'a tables_scheme) res" where
  "insert_reward_key r s =
     (if reserved_key s (rk_user r) (rk_key r) \<noteq> None \<or> rk_user r \<notin> set (accounts s) \<or> length (rk_key r) \<noteq> 32 \<or>
         length (rk_request r) \<noteq> 32 \<or> rk_tx r \<notin> set (map tr_id (transactions s))
      then Fail ConstraintViolation
      else Ok (s\<lparr>reward_keys := reward_keys s @ [r]\<rparr>))"

text \<open>A reward the cap leaves nothing of still books its transaction, without a ledger leg.\<close>

definition zero_reward ::
  "mutation \<Rightarrow> byte list \<Rightarrow> byte list \<Rightarrow> 'a economy_scheme \<Rightarrow> (ledger_error, 'a economy_scheme \<times> ledger_entry) res" where
  "zero_reward m key semantic s =
     (if find_idem s (mu_user m) wallet_scope key \<noteq> None then Fail IdempotencyConflict
      else bindr (uuid_v7 s) (\<lambda>(tx, s).
        case find (\<lambda>t. tr_biz_type t = mu_type m \<and> tr_biz_id t = mu_id m \<and> tr_user t = mu_user m) (transactions s) of
          Some t \<Rightarrow> Ok (s, bare_entry (tr_id t) 0 (OtherAsset []))
        | None \<Rightarrow>
            bindr (insert_transaction \<lparr>tr_id = tx, tr_biz_type = mu_type m, tr_biz_id = mu_id m, tr_user = mu_user m,
              tr_operation = mu_entry m, tr_request = semantic\<rparr> s) (\<lambda>s.
            Ok (s, bare_entry tx 0 (OtherAsset [])))))"

text \<open>Paying the credited part \<open>c\<close> of a reward and booking its receipt and its request key.\<close>

definition pay_reward ::
  "(byte list \<Rightarrow> byte list) \<Rightarrow> (byte list \<Rightarrow> economic_policy option) \<Rightarrow> mutation \<Rightarrow> byte list \<Rightarrow> byte list \<Rightarrow>
     cap_settlement \<Rightarrow> bool \<Rightarrow> 'a economy_scheme \<Rightarrow> (ledger_error, 'a economy_scheme \<times> ledger_entry) res" where
  "pay_reward sha unmarshal m key semantic c is_new s =
     bindr (if cs_credited c > 0 then apply_in_tx sha (m\<lparr>mu_delta := cs_credited c\<rparr>) s
            else zero_reward m key semantic s) (\<lambda>(s, e).
     bindr (if is_new then record_cap sha unmarshal (mu_type m) (mu_id m) (mu_user m) c s else Ok s) (\<lambda>s.
     bindr (insert_reward_key \<lparr>rk_user = mu_user m, rk_key = key, rk_request = semantic, rk_tx = le_tx e\<rparr> s) (\<lambda>s.
     Ok (s, e))))"

definition apply_reward ::
  "(byte list \<Rightarrow> byte list) \<Rightarrow> (byte list \<Rightarrow> economic_policy option) \<Rightarrow> mutation \<Rightarrow> 'a economy_scheme \<Rightarrow>
     (ledger_error, 'a economy_scheme \<times> ledger_entry) res" where
  "apply_reward sha unmarshal m s =
     bindr (lock_economy_users [mu_user m]) (\<lambda>_.
     bindr (mutation_hashes sha m) (\<lambda>(key, semantic).
     case reserved_key s (mu_user m) key of
       Some r \<Rightarrow> if rk_request r \<noteq> semantic then Fail IdempotencyConflict else Ok (s, reward_entry s (mu_user m) (rk_tx r))
     | None \<Rightarrow>
         (case load_cap s (mu_type m) (mu_id m) (mu_user m) of
            Some old \<Rightarrow>
              if cs_stake old \<noteq> 0 \<or> cs_gross old \<noteq> mu_delta m then Fail IdempotencyConflict
              else pay_reward sha unmarshal m key semantic old False s
          | None \<Rightarrow>
              if find_transaction s (mu_type m) (mu_id m) \<noteq> None then apply_in_tx sha m s
              else bindr (current_policy sha unmarshal s) (\<lambda>p.
                if ep_version p = [] then apply_in_tx sha m s
                else bindr (prepare_cap p (mu_user m) 0 (mu_delta m) 1 s) (\<lambda>(s, c).
                  pay_reward sha unmarshal m key semantic c True s)))))"

end
