(* ===== verification/EconomyFacts.thy ===== *)
theory EconomyFacts
  imports LedgerFacts Economy
begin

text \<open>
  The cap clips profit only, and exactly; rewards under the cap keep the books, are paid once per
  business identity and replay to the transaction they booked.
\<close>

subsection \<open>The cap\<close>

lemma cap_payout_guard:
  "cap_payout p tot stake gross q = Ok c \<Longrightarrow> 0 \<le> stake \<and> stake \<le> tot \<and> 0 \<le> gross \<and> 0 < q \<and> q dvd stake \<and> q dvd gross \<and>
     0 < ep_cap p \<and> ep_version p \<noteq> []"
  by (auto simp: cap_payout_def Let_def dvd_eq_mod_eq_0 split: if_splits)

definition cap_room :: "economic_policy \<Rightarrow> int \<Rightarrow> int" where
  "cap_room p base = max (ep_cap p - base) 0"

lemma clip_step:
  fixes x q :: int
  assumes "0 < q" "0 \<le> x"
  shows "0 \<le> x - x mod q" "x - x mod q \<le> x" "q dvd x - x mod q" "\<And>y. q dvd y \<Longrightarrow> y \<le> x \<Longrightarrow> y \<le> x - x mod q"
proof -
  have m: "0 \<le> x mod q" "x mod q \<le> x" using assms by (simp_all add: zmod_le_nonneg_dividend)
  show "0 \<le> x - x mod q" "x - x mod q \<le> x" using m by simp_all
  show "q dvd x - x mod q" by (simp add: minus_mod_eq_mult_div)
  fix y assume y: "q dvd y" "y \<le> x"
  then obtain k where k: "y = q * k" by blast
  then have "k \<le> x div q" using y(2) assms(1) zdiv_mono1[of "q * k" x q] by simp
  then have "q * k \<le> q * (x div q)" using assms(1) by simp
  then show "y \<le> x - x mod q" by (simp add: k minus_mod_eq_mult_div)
qed

lemma cap_payout_spec:
  assumes "cap_payout p tot stake gross q = Ok c"
  defines "kept \<equiv> min stake gross" and "base \<equiv> tot - stake + min stake gross"
  shows "cs_credited c + cs_withheld c = gross" "kept \<le> cs_credited c" "0 \<le> cs_withheld c" "q dvd cs_credited c"
    "cs_net c = cs_credited c - stake" "cs_total_after c = tot - stake + cs_credited c"
    "cs_credited c \<le> kept + cap_room p base" "cs_total_after c \<le> max base (ep_cap p)"
    "cs_total_after c \<le> max_int64" "cs_credited c \<le> max_int64"
    "\<And>y. q dvd y \<Longrightarrow> kept \<le> y \<Longrightarrow> y \<le> gross \<Longrightarrow> y \<le> kept + cap_room p base \<Longrightarrow> y \<le> cs_credited c"
proof -
  note g = cap_payout_guard[OF assms(1)]
  define x where "x = min (gross - kept) (cap_room p base)"
  have x: "0 \<le> x" by (auto simp: x_def kept_def cap_room_def)
  define d where "d = clip_profit (ep_cap p) base (gross - kept) q"
  have dx: "d = x - x mod q" by (simp add: d_def clip_profit_def x_def cap_room_def Let_def)
  have c: "cs_credited c = kept + d" "cs_withheld c = gross - (kept + d)"
      "cs_net c = kept + d - stake" "cs_total_after c = base + d"
    and o: "base \<le> max_int64 - d" "kept \<le> max_int64 - d"
    using assms(1) by (auto simp: cap_payout_def Let_def kept_def base_def d_def split: if_splits)
  have q: "0 < q" using g by simp
  note s = clip_step[OF q x, folded dx]
  have le: "x \<le> gross - kept" "x \<le> cap_room p base" by (auto simp: x_def)
  have kq: "q dvd kept" using g by (auto simp: kept_def min_def)
  have d: "0 \<le> d" "d \<le> gross - kept" "d \<le> cap_room p base" using s(1,2) le by linarith+
  show "cs_credited c + cs_withheld c = gross" "kept \<le> cs_credited c" "0 \<le> cs_withheld c"
    "cs_net c = cs_credited c - stake" "cs_credited c \<le> kept + cap_room p base"
    "cs_total_after c \<le> max_int64" "cs_credited c \<le> max_int64"
    using c o d by linarith+
  show "q dvd cs_credited c" unfolding c using kq s(3) by (rule dvd_add)
  show "cs_total_after c = tot - stake + cs_credited c" by (simp add: c base_def kept_def)
  show "cs_total_after c \<le> max base (ep_cap p)" using c(4) d(3) by (auto simp: cap_room_def)
  fix y assume y: "q dvd y" "kept \<le> y" "y \<le> gross" "y \<le> kept + cap_room p base"
  then have "q dvd y - kept" "y - kept \<le> x" using kq by (auto simp: x_def)
  from s(4)[OF this] show "y \<le> cs_credited c" by (simp add: c)
qed

lemma cap_payout_returns:
  assumes "0 \<le> stake" "stake \<le> tot" "0 \<le> gross" "0 < q" "q dvd stake" "q dvd gross" "0 < ep_cap p" "ep_version p \<noteq> []"
    "tot \<le> max_int64" "gross \<le> max_int64" "ep_cap p \<le> max_int64"
  shows "\<exists>c. cap_payout p tot stake gross q = Ok c"
proof -
  define kept where "kept = min stake gross"
  define base where "base = tot - stake + kept"
  define x where "x = min (gross - kept) (cap_room p base)"
  define d where "d = clip_profit (ep_cap p) base (gross - kept) q"
  have dx: "d = x - x mod q" by (simp add: d_def clip_profit_def x_def cap_room_def Let_def)
  have "0 \<le> x" by (auto simp: x_def kept_def cap_room_def)
  from clip_step(2)[OF assms(4) this] have "d \<le> x" by (simp only: dx)
  then have d: "d \<le> gross - kept" "d \<le> cap_room p base" by (simp_all add: x_def)
  have k: "0 \<le> kept" "kept \<le> stake" "kept \<le> gross" using assms by (auto simp: kept_def)
  have "base \<le> max_int64 - d" "kept \<le> max_int64 - d"
    using d k assms(1-3,9-11) unfolding base_def cap_room_def by linarith+
  then show ?thesis using assms(1-8) unfolding cap_payout_def Let_def
    by (simp add: dvd_eq_mod_eq_0 not_less flip: kept_def base_def d_def)
qed


subsection \<open>Books and caps\<close>

lemma books_cong:
  "wallets s' = wallets s \<Longrightarrow> ledger s' = ledger s \<Longrightarrow> transactions s' = transactions s \<Longrightarrow> idempotency s' = idempotency s \<Longrightarrow>
     books s' \<longleftrightarrow> books s"
  using ledger_of_cong[of s' s] linked_cong[of s' s] by (simp add: books_def)

lemma later_cong:
  "ledger s' = ledger s \<Longrightarrow> transactions s' = transactions s \<Longrightarrow> idempotency s' = idempotency s \<Longrightarrow>
     reward_keys s' = reward_keys s \<Longrightarrow> later_tables s s'"
  by (simp add: later_tables_def)

text \<open>Tables with books in order and cap receipts that credit no more than the reward.\<close>

definition treasury :: "'a economy_scheme \<Rightarrow> bool" where
  "treasury s \<longleftrightarrow> books s \<and> (\<forall>r\<in>set (caps s). 0 \<le> cs_credited (cr_receipt r) \<and> cs_credited (cr_receipt r) \<le> cs_gross (cr_receipt r))"

text \<open>A step of the treasury: it keeps the books, extends the histories, and either moves nothing or
  adds between one unit and \<open>amount\<close> to one wallet, with the entry \<open>e\<close>, for a business identity
  that was new.\<close>

definition moves_nothing :: "'a economy_scheme \<Rightarrow> 'a economy_scheme \<Rightarrow> bool" where
  "moves_nothing s s' \<longleftrightarrow> wallets s' = wallets s \<and> ledger s' = ledger s"

definition pays_once :: "mutation \<Rightarrow> ledger_entry \<Rightarrow> 'a economy_scheme \<Rightarrow> 'a economy_scheme \<Rightarrow> bool" where
  "pays_once m e s s' \<longleftrightarrow>
     (\<exists>w. wallets s (mu_user m, mu_asset m) = Some w \<and>
        wallets s' = (wallets s)((mu_user m, mu_asset m) \<mapsto>
          \<lparr>wr_balance = wr_balance w + le_delta e, wr_seq = wr_seq w + 1, wr_version = wr_version w + 1\<rparr>) \<and>
        ledger s' = ledger s @ [e] \<and> 0 < le_delta e \<and> le_delta e \<le> mu_delta m \<and>
        find_transaction s (mu_type m) (mu_id m) = None)"

lemma zero_reward_Ok:
  assumes "zero_reward m key semantic s = Ok (s', e)" "books s"
  shows "books s' \<and> later_tables s s' \<and> moves_nothing s s' \<and> caps s' = caps s \<and> le_delta e = 0 \<and>
    find_transaction s' (mu_type m) (mu_id m) \<noteq> None \<and> reward_keys s' = reward_keys s"
proof -
  from assms(1) obtain tx a where new: "find_idem s (mu_user m) wallet_scope key = None" and tx: "uuid_v7 s = Ok (tx, a)"
    and rest: "(case find (\<lambda>t. tr_biz_type t = mu_type m \<and> tr_biz_id t = mu_id m \<and> tr_user t = mu_user m) (transactions a) of
          Some t \<Rightarrow> Ok (a, bare_entry (tr_id t) 0 (OtherAsset []))
        | None \<Rightarrow>
            bindr (insert_transaction \<lparr>tr_id = tx, tr_biz_type = mu_type m, tr_biz_id = mu_id m, tr_user = mu_user m,
              tr_operation = mu_entry m, tr_request = semantic\<rparr> a) (\<lambda>s.
            Ok (s, bare_entry tx 0 (OtherAsset [])))) = Ok (s', e)"
    by (auto simp: zero_reward_def res_simps split: if_splits)
  from uuid_v7_Ok[OF tx] obtain r where a: "a = s\<lparr>entropy := r\<rparr>" ..
  show ?thesis
  proof (cases "find (\<lambda>t. tr_biz_type t = mu_type m \<and> tr_biz_id t = mu_id m \<and> tr_user t = mu_user m) (transactions a)")
    case (Some t)
    then have "find_transaction s (mu_type m) (mu_id m) \<noteq> None"
      by (auto simp: find_transaction_def find_None_iff a dest!: find_Some_mem)
    moreover have "s' = s\<lparr>entropy := r\<rparr>" "le_delta e = 0" using rest Some by (auto simp: a bare_entry_def)
    ultimately show ?thesis using assms(2) books_cong[of s' s] later_cong[of s' s]
      by (simp add: moves_nothing_def find_transaction_def)
  next
    case None
    let ?t = "\<lparr>tr_id = tx, tr_biz_type = mu_type m, tr_biz_id = mu_id m, tr_user = mu_user m, tr_operation = mu_entry m, tr_request = semantic\<rparr>"
    have ins: "insert_transaction ?t a = Ok s'" and e: "le_delta e = 0"
      using rest None by (auto simp: res_simps bare_entry_def)
    then have s': "s' = a\<lparr>transactions := transactions a @ [?t]\<rparr>" and fresh: "tx \<notin> tr_id ` set (transactions s)"
        "find_transaction s (mu_type m) (mu_id m) = None"
      by (auto simp: insert_transaction_Ok a find_transaction_def)
    have "linked s'" using assms(2) fresh unfolding books_def linked_def
      by (auto simp: s' a find_transaction_def find_None_iff)
    moreover have "wallets s' = wallets s" "ledger s' = ledger s" by (simp_all add: s' a)
    moreover have "wallet_ledger s' = wallet_ledger s" by (rule ledger_of_cong) (simp add: s' a)
    ultimately have "books s'" using assms(2) by (simp add: books_def)
    moreover have "later_tables s s'" by (simp add: later_tables_def s' a)
    moreover have "find_transaction s' (mu_type m) (mu_id m) \<noteq> None"
      by (auto simp: find_transaction_def s' a find_append split: option.splits)
    ultimately show ?thesis using e by (simp add: moves_nothing_def s' a)
  qed
qed

lemma apply_in_tx_money:
  assumes "apply_in_tx sha m s = Ok (s', e)" "books s" "0 < mu_delta m"
  shows "moves_nothing s s' \<or> pays_once m e s s' \<and> le_delta e = mu_delta m"
  using apply_in_tx_effect[OF assms(1,2)] assms(3) by (auto simp: moves_nothing_def pays_once_def)

lemma apply_in_tx_caps: "apply_in_tx sha m s = Ok (s', e) \<Longrightarrow> books s \<Longrightarrow> caps s' = caps s \<and> reward_keys s' = reward_keys s"
  for s :: "'a economy_scheme"
  by (erule apply_in_tx_cases) (auto simp: posts_def)

lemma apply_in_tx_known:
  assumes "apply_in_tx sha m s = Ok (s', e)" "books s" "find_idem s (mu_user m) wallet_scope (sha (mu_key m)) = None"
  shows "find_transaction s' (mu_type m) (mu_id m) \<noteq> None"
  using assms(1,2)
proof (cases rule: apply_in_tx_cases)
  case (posted w t i)
  then have "t \<in> set (transactions s')" by (auto simp: posts_def)
  with posted(4,5) show ?thesis by (auto simp: find_transaction_def find_None_iff)
qed (use assms(3) in \<open>auto simp: find_transaction_def\<close>)

lemma insert_cap_Ok:
  "insert_cap r s = Ok s' \<Longrightarrow> s' = s\<lparr>caps := caps s @ [r]\<rparr> \<and> 0 \<le> cs_credited (cr_receipt r) \<and>
     cs_credited (cr_receipt r) \<le> cs_gross (cr_receipt r)"
  by (auto simp: insert_cap_def Let_def split: if_splits)

lemma record_cap_Ok:
  assumes "record_cap sha um kind bid u c s = Ok s'" "treasury s"
  shows "treasury s' \<and> later_tables s s' \<and> moves_nothing s s' \<and> transactions s' = transactions s"
proof -
  have "s' = s \<or> (\<exists>r. insert_cap r s = Ok s')"
    using assms(1) by (auto simp: record_cap_def res_simps split: if_splits res.splits option.splits)
  then show ?thesis
  proof
    assume "\<exists>r. insert_cap r s = Ok s'"
    then obtain r where "insert_cap r s = Ok s'" ..
    from insert_cap_Ok[OF this] show ?thesis using assms(2) books_cong[of s' s] later_cong[of s' s]
      by (auto simp: treasury_def moves_nothing_def)
  qed (use assms(2) in \<open>simp add: moves_nothing_def\<close>)
qed

lemma insert_reward_key_Ok:
  "insert_reward_key r s = Ok s' \<Longrightarrow> s' = s\<lparr>reward_keys := reward_keys s @ [r]\<rparr>"
  by (auto simp: insert_reward_key_def split: if_splits)


lemma mutation_delta_simps [simp]:
  "mu_user (m\<lparr>mu_delta := d\<rparr>) = mu_user m" "mu_asset (m\<lparr>mu_delta := d\<rparr>) = mu_asset m"
  "mu_type (m\<lparr>mu_delta := d\<rparr>) = mu_type m" "mu_id (m\<lparr>mu_delta := d\<rparr>) = mu_id m"
  "mu_key (m\<lparr>mu_delta := d\<rparr>) = mu_key m" "mu_delta (m\<lparr>mu_delta := d\<rparr>) = d"
  by simp_all

lemma treasury_caps: "treasury s \<Longrightarrow> caps s' = caps s \<Longrightarrow> books s' \<Longrightarrow> treasury s'"
  by (simp add: treasury_def)

lemma pay_reward_Ok:
  assumes "pay_reward sha um m key semantic c is_new s = Ok (s', e)" "treasury s"
    and key: "key = sha (mu_key m)" and c: "0 \<le> cs_credited c" "cs_credited c \<le> mu_delta m" and pos: "0 < mu_delta m"
  shows "treasury s' \<and> later_tables s s' \<and> (moves_nothing s s' \<or> pays_once m e s s') \<and>
    (find_idem s (mu_user m) wallet_scope key = None \<longrightarrow> find_transaction s' (mu_type m) (mu_id m) \<noteq> None)"
proof -
  from assms(1) obtain a b where
    pay: "(if cs_credited c > 0 then apply_in_tx sha (m\<lparr>mu_delta := cs_credited c\<rparr>) s else zero_reward m key semantic s) = Ok (a, e)"
    and rec: "(if is_new then record_cap sha um (mu_type m) (mu_id m) (mu_user m) c a else Ok a) = Ok b"
    and ins: "insert_reward_key \<lparr>rk_user = mu_user m, rk_key = key, rk_request = semantic, rk_tx = le_tx e\<rparr> b = Ok s'"
    by (auto simp: pay_reward_def res_simps split: prod.splits)
  have books: "books s" using assms(2) by (simp add: treasury_def)
  have paid: "books a \<and> later_tables s a \<and> caps a = caps s \<and> (moves_nothing s a \<or> pays_once m e s a) \<and>
      (find_idem s (mu_user m) wallet_scope key = None \<longrightarrow> find_transaction a (mu_type m) (mu_id m) \<noteq> None)"
  proof (cases "cs_credited c > 0")
    case True
    let ?m = "m\<lparr>mu_delta := cs_credited c\<rparr>"
    have ok: "apply_in_tx sha ?m s = Ok (a, e)" using pay True by simp
    have "moves_nothing s a \<or> pays_once m e s a"
      using apply_in_tx_money[OF ok books] True c by (auto simp: pays_once_def)
    then show ?thesis
      using apply_in_tx_books[OF ok books] apply_in_tx_later[OF ok books] apply_in_tx_caps[OF ok books]
        apply_in_tx_known[OF ok books] by (auto simp: key)
  next
    case False
    then have "zero_reward m key semantic s = Ok (a, e)" using pay by simp
    from zero_reward_Ok[OF this books] show ?thesis by simp
  qed
  then have "treasury a" using treasury_caps assms(2) by blast
  with rec have b: "treasury b \<and> later_tables a b \<and> moves_nothing a b \<and> transactions b = transactions a"
    using record_cap_Ok[of sha um "mu_type m" "mu_id m" "mu_user m" c a b] by (auto simp: moves_nothing_def split: if_splits)
  note s' = insert_reward_key_Ok[OF ins]
  have "books s' = books b" using books_cong[of s' b] s' by simp
  with b s' have t: "treasury s'" by (simp add: treasury_def)
  have "later_tables b s'" by (simp add: s' later_tables_def)
  with b paid have l: "later_tables s s'" by (blast intro: later_trans)
  have w: "wallets s' = wallets a" "ledger s' = ledger a" "transactions s' = transactions a"
    using b by (simp_all add: s' moves_nothing_def)
  from paid have "moves_nothing s s' \<or> pays_once m e s s'" by (simp add: w moves_nothing_def pays_once_def)
  with t l paid w(3) show ?thesis by (simp add: find_transaction_def)
qed

lemma read_unified_assets_Ok:
  "read_unified_assets u s = Ok (s', x) \<Longrightarrow> \<exists>ts. s' = s\<lparr>clock := ts\<rparr> \<and> clock s = ua_observed x # ts"
  by (auto simp: read_unified_assets_def read_clock_def res_simps split: option.splits prod.splits list.splits if_splits)

lemma prepare_cap_Ok:
  assumes "prepare_cap p u stake gross q s = Ok (s', c)"
  shows "\<exists>ts c0 (x :: unified_assets). s' = s\<lparr>clock := ts\<rparr> \<and> cap_payout p (ua_total x) stake gross q = Ok c0 \<and> c = c0\<lparr>cs_observed := ua_observed x\<rparr> \<and>
    read_unified_assets u s = Ok (s', x)"
proof -
  from assms obtain x :: unified_assets and c0 where "read_unified_assets u s = Ok (s', x)" "cap_payout p (ua_total x) stake gross q = Ok c0"
    "c = c0\<lparr>cs_observed := ua_observed x\<rparr>" by (auto simp: prepare_cap_def res_simps split: prod.splits)
  with read_unified_assets_Ok show ?thesis by blast
qed

lemma apply_reward_Ok:
  assumes "apply_reward sha um m s = Ok (s', e)" "treasury s" and pos: "0 < mu_delta m"
  shows "treasury s' \<and> later_tables s s' \<and> (moves_nothing s s' \<or> pays_once m e s s') \<and>
    (reserved_key s (mu_user m) (sha (mu_key m)) = None \<longrightarrow> find_idem s (mu_user m) wallet_scope (sha (mu_key m)) = None \<longrightarrow>
       find_transaction s' (mu_type m) (mu_id m) \<noteq> None)"
proof -
  define key where "key = sha (mu_key m)"
  define semantic where "semantic = sha (canonical_mutation m)"
  have books: "books s" using assms(2) by (simp add: treasury_def)
  have valid: "valid_mutation m" using assms(1) by (auto simp: apply_reward_def res_simps hashes_Ok)
  then have u: "0 < mu_user m" by (simp add: valid_mutation_def)
  note run = assms(1)[unfolded apply_reward_def lock_economy_users_def mutation_hashes_def guardr_def if_P[OF valid] bindr.simps prod.case
      list.pred_inject, folded key_def semantic_def, simplified u if_True bindr.simps simp_thms]
  have direct: ?thesis if "apply_in_tx sha m s = Ok (s', e)"
    using apply_in_tx_books[OF that books] apply_in_tx_later[OF that books] apply_in_tx_caps[OF that books]
      apply_in_tx_money[OF that books pos] apply_in_tx_known[OF that books] treasury_caps[OF assms(2)] by blast
  show ?thesis
  proof (cases "reserved_key s (mu_user m) key")
    case (Some r)
    then have "s' = s" using run by (auto split: if_splits)
    then show ?thesis using assms(2) Some by (simp add: moves_nothing_def key_def)
  next
    case fresh: None
    show ?thesis
    proof (cases "load_cap s (mu_type m) (mu_id m) (mu_user m)")
      case (Some old)
      then have pay: "pay_reward sha um m key semantic old False s = Ok (s', e)" and gross: "cs_gross old = mu_delta m"
        using run fresh by (auto split: if_splits)
      have "0 \<le> cs_credited old \<and> cs_credited old \<le> mu_delta m"
        using Some assms(2) gross by (auto simp: load_cap_def treasury_def dest!: find_Some_mem)
      then show ?thesis using pay_reward_Ok[OF pay assms(2) key_def _ _ pos] by (simp add: key_def)
    next
      case None
      show ?thesis
      proof (cases "find_transaction s (mu_type m) (mu_id m) = None")
        case False
        then show ?thesis using direct run fresh None by simp
      next
        case True
        then obtain p where p: "current_policy sha um s = Ok p"
          and rest: "(if ep_version p = [] then apply_in_tx sha m s
             else bindr (prepare_cap p (mu_user m) 0 (mu_delta m) 1 s) (\<lambda>(s, c). pay_reward sha um m key semantic c True s)) = Ok (s', e)"
          using run fresh None by (auto simp: bindr_Ok_iff)
        show ?thesis
        proof (cases "ep_version p = []")
          case False
          then obtain a c where prep: "prepare_cap p (mu_user m) 0 (mu_delta m) 1 s = Ok (a, c)"
            and pay: "pay_reward sha um m key semantic c True a = Ok (s', e)" using rest by (auto simp: bindr_Ok_iff)
          from prepare_cap_Ok[OF prep] obtain ts c0 and x :: unified_assets where a: "a = s\<lparr>clock := ts\<rparr>"
            and c0: "cap_payout p (ua_total x) 0 (mu_delta m) 1 = Ok c0" and c: "c = c0\<lparr>cs_observed := ua_observed x\<rparr>"
            by blast
          have cr: "0 \<le> cs_credited c" "cs_credited c \<le> mu_delta m"
            using cap_payout_spec(1-3)[OF c0] cap_payout_guard[OF c0] by (auto simp: c min_def split: if_splits)
          have "treasury a" using assms(2) books_cong[of a s] by (simp add: treasury_def a)
          from pay_reward_Ok[OF pay this key_def cr pos] show ?thesis
            by (simp add: a moves_nothing_def pays_once_def later_tables_def find_idem_def key_def find_transaction_def)
        qed (use direct rest in simp)
      qed
    qed
  qed
qed

end
