(* ===== verification/Rewards.thy ===== *)
theory Rewards
  imports Economy
begin

text \<open>
  The daily, hourly and relief rewards (\<open>src/internal/platform/rewards.go\<close> and \<open>economy.go\<close>). Instants
  are nanoseconds since 1970; Asia/Shanghai is eight hours ahead of UTC, as it has been since
  1991. The claims are rows of three more tables. \<open>clock_timestamp()\<close> takes the next instant of
  \<open>clock\<close>, which the code reads again after every wait.
\<close>

definition hour_ns :: int where "hour_ns = 3600000000000"

definition day_ns :: int where "day_ns = 24 * hour_ns"

definition daily_amount :: int where "daily_amount = 250000000"

definition hourly_reward_amount :: int where "hourly_reward_amount = 100 * 500000"

definition relief_reward_amount :: int where "relief_reward_amount = 300 * 500000"

definition relief_asset_threshold :: int where "relief_asset_threshold = 10 * 500000"

definition hourly_daily_limit :: nat where "hourly_daily_limit = 24"

definition relief_cooldown :: int where "relief_cooldown = 4 * hour_ns"

subsection \<open>The calendar\<close>

text \<open>Year, month and day of the days since 1970, in the proleptic Gregorian calendar.\<close>

definition civil_date :: "int \<Rightarrow> int \<times> int \<times> int" where
  "civil_date d =
     (let z = d + 719468;
          doe = z mod 146097;
          yoe = (doe - doe div 1460 + doe div 36524 - doe div 146096) div 365;
          doy = doe - (365 * yoe + yoe div 4 - yoe div 100);
          mp = (5 * doy + 2) div 153;
          month = (if mp < 10 then mp + 3 else mp - 9)
      in (yoe + z div 146097 * 400 + (if month \<le> 2 then 1 else 0), month, doy - (153 * mp + 2) div 5 + 1))"

definition padded :: "nat \<Rightarrow> int \<Rightarrow> string" where
  "padded k n = (let s = dec_string (nat n) in replicate (k - length s) CHR ''0'' @ s)"

definition date_text :: "int \<Rightarrow> string" where
  "date_text d = (case civil_date d of (y, m, dd) \<Rightarrow> padded 4 y @ ''-'' @ padded 2 m @ ''-'' @ padded 2 dd)"

definition local_day :: "int \<Rightarrow> int" where
  "local_day at = (at + 8 * hour_ns) div day_ns"

definition shanghai_day :: "int \<Rightarrow> string \<times> int" where
  "shanghai_day at = (date_text (local_day at), (local_day at + 1) * day_ns - 8 * hour_ns)"

definition shanghai_hour :: "int \<Rightarrow> int \<times> int" where
  "shanghai_hour at =
     (let start = local_day at * day_ns + (at + 8 * hour_ns) mod day_ns div hour_ns * hour_ns - 8 * hour_ns
      in (start, start + hour_ns))"

text \<open>\<open>Format(time.RFC3339)\<close> of an instant in UTC.\<close>

definition rfc3339 :: "int \<Rightarrow> string" where
  "rfc3339 at =
     (let t = at mod day_ns div 1000000000 in
      date_text (at div day_ns) @ ''T'' @ padded 2 (t div 3600) @ '':'' @ padded 2 (t mod 3600 div 60) @ '':'' @
        padded 2 (t mod 60) @ ''Z'')"

subsection \<open>The tables\<close>

record checkin =
  ck_user :: int
  ck_date :: string
  ck_amount :: int
  ck_tx :: "byte list"

record hourly_claim =
  hc_user :: int
  hc_hour :: int
  hc_date :: string
  hc_amount :: int
  hc_tx :: "byte list"

record relief_claim =
  rl_id :: "byte list"
  rl_user :: int
  rl_assets :: unified_assets
  rl_amount :: int
  rl_tx :: "byte list"
  rl_claimed :: int
  rl_until :: int

record reward_tables = economy +
  checkins :: "checkin list"
  hourly_claims :: "hourly_claim list"
  relief_claims :: "relief_claim list"

definition known_tx :: "'a tables_scheme \<Rightarrow> byte list \<Rightarrow> bool" where
  "known_tx s tx \<longleftrightarrow> tx \<in> set (map tr_id (transactions s))"

definition insert_checkin :: "checkin \<Rightarrow> 'a reward_tables_scheme \<Rightarrow> (ledger_error, 'a reward_tables_scheme) res" where
  "insert_checkin c s =
     (if list_ex (\<lambda>d. ck_user d = ck_user c \<and> ck_date d = ck_date c) (checkins s) then Ok s
      else if ck_user c \<notin> set (accounts s) \<or> ck_amount c < 0 \<or> ck_amount c > daily_amount \<or>
         ck_tx c \<in> set (map ck_tx (checkins s)) \<or> \<not> known_tx s (ck_tx c)
      then Fail ConstraintViolation
      else Ok (s\<lparr>checkins := checkins s @ [c]\<rparr>))"

definition insert_hourly :: "hourly_claim \<Rightarrow> 'a reward_tables_scheme \<Rightarrow> (ledger_error, 'a reward_tables_scheme) res" where
  "insert_hourly c s =
     (if list_ex (\<lambda>d. hc_user d = hc_user c \<and> hc_hour d = hc_hour c) (hourly_claims s) \<or>
         hc_user c \<notin> set (accounts s) \<or> hc_amount c < 0 \<or> hc_amount c > hourly_reward_amount \<or>
         hc_tx c \<in> set (map hc_tx (hourly_claims s)) \<or> \<not> known_tx s (hc_tx c)
      then Fail ConstraintViolation
      else Ok (s\<lparr>hourly_claims := hourly_claims s @ [c]\<rparr>))"

definition insert_relief :: "relief_claim \<Rightarrow> 'a reward_tables_scheme \<Rightarrow> (ledger_error, 'a reward_tables_scheme) res" where
  "insert_relief c s =
     (let a = rl_assets c in
      if rl_id c \<in> set (map rl_id (relief_claims s)) \<or> rl_user c \<notin> set (accounts s) \<or>
         ua_total a < 0 \<or> ua_total a \<ge> 5000000 \<or>
         list_ex (\<lambda>v. v < 0) [ua_reserve a, ua_chips a, ua_poker_stack a, ua_poker_pot a, ua_single a, ua_escrow a] \<or>
         ua_total a \<noteq> ua_reserve a + ua_chips a + ua_poker_stack a + ua_poker_pot a + ua_single a + ua_escrow a \<or>
         rl_amount c < 0 \<or> rl_amount c > relief_reward_amount \<or> ua_observed a > rl_claimed c \<or>
         rl_until c \<noteq> rl_claimed c + relief_cooldown \<or>
         rl_tx c \<in> set (map rl_tx (relief_claims s)) \<or> \<not> known_tx s (rl_tx c)
      then Fail ConstraintViolation
      else Ok (s\<lparr>relief_claims := relief_claims s @ [c]\<rparr>))"

subsection \<open>The daily reward\<close>

definition daily_mutation :: "int \<Rightarrow> string \<Rightarrow> byte list \<Rightarrow> mutation" where
  "daily_mutation u day key =
     \<lparr>mu_user = u, mu_asset = ReserveApiCredit, mu_delta = daily_amount, mu_type = ascii ''DAILY_REWARD_V1'',
      mu_id = ascii ''daily:'' @ int_text u @ [58] @ ascii day, mu_entry = ascii ''DAILY_REWARD'', mu_key = key\<rparr>"

definition claim_daily ::
  "(byte list \<Rightarrow> byte list) \<Rightarrow> (byte list \<Rightarrow> economic_policy option) \<Rightarrow> int \<Rightarrow> byte list \<Rightarrow> 'a reward_tables_scheme \<Rightarrow>
     (ledger_error, 'a reward_tables_scheme \<times> op_receipt) res" where
  "claim_daily sha unmarshal u key s =
     (if u \<le> 0 \<or> \<not> valid_operation_key key then Fail InvalidMutation
      else bindr (find_operation sha s u DailyKind key) (\<lambda>prior. case prior of
        Some r \<Rightarrow> Ok (s, r)
      | None \<Rightarrow>
          bindr (require_no_maintenance [''CHALDEA_USER_WRITES'', ''REWARDS''] s) (\<lambda>_.
          bindr (read_clock s) (\<lambda>(now, s).
          let day = fst (shanghai_day now) in
          bindr (apply_reward sha unmarshal (daily_mutation u day key) s) (\<lambda>(s, e).
          bindr (insert_checkin \<lparr>ck_user = u, ck_date = day, ck_amount = le_delta e, ck_tx = le_tx e\<rparr> s) (\<lambda>s.
          bindr (transaction_in_tx s u (le_tx e)) (\<lambda>r. Ok (s, r))))))))"

record daily_view =
  dw_user :: int
  dw_date :: string
  dw_next_reset :: int
  dw_amount_units :: int
  dw_claimed :: bool
  dw_tx :: "byte list option"
  dw_maintenance :: bool

definition read_daily :: "int \<Rightarrow> 'a reward_tables_scheme \<Rightarrow> (ledger_error, 'a reward_tables_scheme \<times> daily_view) res" where
  "read_daily u s =
     (if u \<le> 0 then Fail InvalidMutation
      else bindr (read_clock s) (\<lambda>(now, s).
        let (day, reset) = shanghai_day now;
            tx = map_option ck_tx (find (\<lambda>c. ck_user c = u \<and> ck_date c = day) (checkins s)) in
        Ok (s, \<lparr>dw_user = u, dw_date = day, dw_next_reset = reset, dw_amount_units = daily_amount,
          dw_claimed = (tx \<noteq> None), dw_tx = tx,
          dw_maintenance = list_ex (\<lambda>x. x \<in> set (maintenance s)) [''CHALDEA_USER_WRITES'', ''REWARDS'']\<rparr>)))"

subsection \<open>The hourly reward\<close>

definition hourly_mutation :: "int \<Rightarrow> int \<Rightarrow> byte list \<Rightarrow> mutation" where
  "hourly_mutation u hour key =
     \<lparr>mu_user = u, mu_asset = ReserveApiCredit, mu_delta = hourly_reward_amount, mu_type = ascii ''HOURLY_REWARD_V1'',
      mu_id = ascii ''hourly:'' @ int_text u @ [58] @ ascii (rfc3339 hour), mu_entry = ascii ''HOURLY_REWARD'', mu_key = key\<rparr>"

definition find_hourly :: "'a reward_tables_scheme \<Rightarrow> int \<Rightarrow> int \<Rightarrow> hourly_claim option" where
  "find_hourly s u hour = find (\<lambda>c. hc_user c = u \<and> hc_hour c = hour) (hourly_claims s)"

definition hourly_claim_in_tx ::
  "(byte list \<Rightarrow> byte list) \<Rightarrow> (byte list \<Rightarrow> economic_policy option) \<Rightarrow> int \<Rightarrow> int \<Rightarrow> byte list \<Rightarrow> 'a reward_tables_scheme \<Rightarrow>
     (ledger_error, 'a reward_tables_scheme \<times> op_receipt option) res" where
  "hourly_claim_in_tx sha unmarshal u hour key s =
     (case find_hourly s u hour of
        None \<Rightarrow> Ok (s, None)
      | Some c \<Rightarrow>
          bindr (apply_reward sha unmarshal (hourly_mutation u hour key) s) (\<lambda>(s, e).
          if le_tx e \<noteq> hc_tx c then Fail IdempotencyConflict
          else bindr (transaction_in_tx s u (hc_tx c)) (\<lambda>r. Ok (s, Some r))))"

definition claims_today :: "'a reward_tables_scheme \<Rightarrow> int \<Rightarrow> string \<Rightarrow> nat" where
  "claims_today s u day = length (filter (\<lambda>c. hc_user c = u \<and> hc_date c = day) (hourly_claims s))"

definition grant_hourly ::
  "(byte list \<Rightarrow> byte list) \<Rightarrow> (byte list \<Rightarrow> economic_policy option) \<Rightarrow> int \<Rightarrow> int \<Rightarrow> byte list \<Rightarrow> 'a reward_tables_scheme \<Rightarrow>
     (ledger_error, 'a reward_tables_scheme \<times> op_receipt) res" where
  "grant_hourly sha unmarshal u now key s =
     (let hour = fst (shanghai_hour now); day = fst (shanghai_day now) in
      bindr (hourly_claim_in_tx sha unmarshal u hour key s) (\<lambda>(s, existing). case existing of
        Some r \<Rightarrow> Ok (s, r)
      | None \<Rightarrow>
          if claims_today s u day \<ge> hourly_daily_limit then Fail RewardLimit
          else
            bindr (apply_reward sha unmarshal (hourly_mutation u hour key) s) (\<lambda>(s, e).
            bindr (insert_hourly \<lparr>hc_user = u, hc_hour = hour, hc_date = day, hc_amount = le_delta e, hc_tx = le_tx e\<rparr> s) (\<lambda>s.
            bindr (transaction_in_tx s u (le_tx e)) (\<lambda>r. Ok (s, r))))))"

definition claim_hourly ::
  "(byte list \<Rightarrow> byte list) \<Rightarrow> (byte list \<Rightarrow> economic_policy option) \<Rightarrow> int \<Rightarrow> byte list \<Rightarrow> 'a reward_tables_scheme \<Rightarrow>
     (ledger_error, 'a reward_tables_scheme \<times> op_receipt) res" where
  "claim_hourly sha unmarshal u key s =
     (if u \<le> 0 \<or> \<not> valid_operation_key key then Fail InvalidMutation
      else bindr (find_operation sha s u HourlyKind key) (\<lambda>prior. case prior of
        Some r \<Rightarrow> Ok (s, r)
      | None \<Rightarrow>
          bindr (read_clock s) (\<lambda>(now, s).
          bindr (hourly_claim_in_tx sha unmarshal u (fst (shanghai_hour now)) key s) (\<lambda>(s, existing). case existing of
            Some r \<Rightarrow> Ok (s, r)
          | None \<Rightarrow>
              bindr (require_no_maintenance [''CHALDEA_USER_WRITES'', ''REWARDS''] s) (\<lambda>_.
              bindr (read_clock s) (\<lambda>(now, s). grant_hourly sha unmarshal u now key s))))))"

subsection \<open>The relief reward\<close>

definition bytes_less :: "byte list \<Rightarrow> byte list \<Rightarrow> bool" where
  "bytes_less a b \<longleftrightarrow> ord_class.lexordp (map unat a) (map unat b)"

definition later_relief :: "relief_claim \<Rightarrow> relief_claim \<Rightarrow> bool" where
  "later_relief c d \<longleftrightarrow> rl_claimed c > rl_claimed d \<or> rl_claimed c = rl_claimed d \<and> bytes_less (rl_id d) (rl_id c)"

definition last_relief :: "'a reward_tables_scheme \<Rightarrow> int \<Rightarrow> relief_claim option" where
  "last_relief s u =
     (case filter (\<lambda>c. rl_user c = u) (relief_claims s) of
        [] \<Rightarrow> None
      | c # cs \<Rightarrow> Some (foldl (\<lambda>b c. if later_relief c b then c else b) c cs))"

definition relief_cooldown_in_tx :: "'a reward_tables_scheme \<Rightarrow> int \<Rightarrow> int \<Rightarrow> (ledger_error, unit) res" where
  "relief_cooldown_in_tx s u now =
     (case last_relief s u of None \<Rightarrow> Ok () | Some c \<Rightarrow> guardr (\<not> now < rl_until c) ReliefCooldown)"

definition relief_mutation :: "int \<Rightarrow> byte list \<Rightarrow> byte list \<Rightarrow> mutation" where
  "relief_mutation u claim key =
     \<lparr>mu_user = u, mu_asset = ReserveApiCredit, mu_delta = relief_reward_amount, mu_type = ascii ''RELIEF_REWARD_V1'',
      mu_id = ascii ''relief:'' @ claim, mu_entry = ascii ''RELIEF_REWARD'', mu_key = key\<rparr>"

definition claim_relief ::
  "(byte list \<Rightarrow> byte list) \<Rightarrow> (byte list \<Rightarrow> economic_policy option) \<Rightarrow> int \<Rightarrow> byte list \<Rightarrow> 'a reward_tables_scheme \<Rightarrow>
     (ledger_error, 'a reward_tables_scheme \<times> op_receipt) res" where
  "claim_relief sha unmarshal u key s =
     (if u \<le> 0 \<or> \<not> valid_operation_key key then Fail InvalidMutation
      else bindr (find_operation sha s u ReliefKind key) (\<lambda>prior. case prior of
        Some r \<Rightarrow> Ok (s, r)
      | None \<Rightarrow>
          bindr (read_clock s) (\<lambda>(now, s).
          bindr (relief_cooldown_in_tx s u now) (\<lambda>_.
          bindr (require_no_maintenance [''CHALDEA_USER_WRITES'', ''REWARDS''] s) (\<lambda>_.
          bindr (read_clock s) (\<lambda>(now, s).
          bindr (relief_cooldown_in_tx s u now) (\<lambda>_.
          bindr (uuid_v7 s) (\<lambda>(claim, s).
          bindr (read_unified_assets u s) (\<lambda>(s, assets).
          if ua_total assets \<ge> relief_asset_threshold then Fail ReliefIneligible
          else
            bindr (read_clock s) (\<lambda>(now, s).
            bindr (apply_reward sha unmarshal (relief_mutation u claim key) s) (\<lambda>(s, e).
            bindr (insert_relief \<lparr>rl_id = claim, rl_user = u, rl_assets = assets, rl_amount = le_delta e, rl_tx = le_tx e,
              rl_claimed = now, rl_until = now + relief_cooldown\<rparr> s) (\<lambda>s.
            bindr (transaction_in_tx s u (le_tx e)) (\<lambda>r. Ok (s, r))))))))))))))"

record relief_view =
  vw_user :: int
  vw_current_units :: int
  vw_current :: string
  vw_observed :: int
  vw_eligible :: bool
  vw_next :: "int option"
  vw_last_tx :: "byte list option"

definition read_relief :: "int \<Rightarrow> 'a reward_tables_scheme \<Rightarrow> (ledger_error, 'a reward_tables_scheme \<times> relief_view) res" where
  "read_relief u s =
     (if u \<le> 0 then Fail InvalidMutation
      else bindr (read_unified_assets u s) (\<lambda>(s, assets).
        bindr (read_clock s) (\<lambda>(now, s).
        let c = last_relief s u in
        Ok (s, \<lparr>vw_user = u, vw_current_units = ua_total assets, vw_current = ua_amount assets,
          vw_observed = ua_observed assets,
          vw_eligible = (ua_total assets < relief_asset_threshold \<and> (case c of None \<Rightarrow> True | Some c \<Rightarrow> \<not> now < rl_until c)),
          vw_next = map_option rl_until c, vw_last_tx = map_option rl_tx c\<rparr>))))"

subsection \<open>Reading rewards and receipts\<close>

record hourly_view =
  hw_user :: int
  hw_hour :: int
  hw_date :: string
  hw_next_reset :: int
  hw_amount_units :: int
  hw_claimed :: bool
  hw_tx :: "byte list option"
  hw_claims :: nat
  hw_limit :: nat

definition hourly_reward :: "int \<Rightarrow> int \<Rightarrow> byte list option \<Rightarrow> nat \<Rightarrow> hourly_view" where
  "hourly_reward now u tx claims =
     (let (hour, next_hour) = shanghai_hour now; day = fst (shanghai_day now) in
      \<lparr>hw_user = u, hw_hour = hour, hw_date = day, hw_next_reset = next_hour, hw_amount_units = hourly_reward_amount,
       hw_claimed = (tx \<noteq> None), hw_tx = tx, hw_claims = claims, hw_limit = hourly_daily_limit\<rparr>)"

definition read_hourly :: "int \<Rightarrow> 'a reward_tables_scheme \<Rightarrow> (ledger_error, 'a reward_tables_scheme \<times> hourly_view) res" where
  "read_hourly u s =
     (if u \<le> 0 then Fail InvalidMutation
      else bindr (read_clock s) (\<lambda>(now, s).
        Ok (s, hourly_reward now u (map_option hc_tx (find_hourly s u (fst (shanghai_hour now))))
          (claims_today s u (fst (shanghai_day now))))))"

text \<open>The receipts of a user, newest identifier first; identifiers compare as their bytes.\<close>

definition listed_operation :: "byte list \<Rightarrow> bool" where
  "listed_operation t \<longleftrightarrow> t \<in> ascii ` {''DAILY_REWARD'', ''HOURLY_REWARD'', ''RELIEF_REWARD'', ''LOCAL_EXCHANGE'',
     ''INITIAL_GRANT_REGISTRATION''}"

definition read_transactions :: "'a tables_scheme \<Rightarrow> int \<Rightarrow> byte list \<Rightarrow> (ledger_error, op_receipt list) res" where
  "read_transactions s u after =
     (if u \<le> 0 \<or> after \<noteq> [] \<and> \<not> valid_operation_key after then Fail InvalidPage
      else
        let rows = map (receipt_of s) (filter (\<lambda>t. tr_user t = u \<and> listed_operation (tr_operation t)) (transactions s)) @
              map api_receipt (filter (\<lambda>p. ax_user p = u) (api_exchanges s)) in
        Ok (take 21 (sort_by (\<lambda>x y. bytes_less (rt_id y) (rt_id x))
          (filter (\<lambda>r. after = [] \<or> bytes_less (rt_id r) after) rows))))"

end
