(* ===== verification/RewardFacts.thy ===== *)
theory RewardFacts
  imports EconomyFacts Rewards
begin

text \<open>
  What the rewards keep: the books, the histories, at most one payment per day or hour and user,
  and four hours between two reliefs. A run of the ledger is any sequence of its operations,
  accepted or rejected, and of changes elsewhere that leave the money tables alone.
\<close>

subsection \<open>One claim\<close>

lemma treasury_cong:
  "wallets s' = wallets s \<Longrightarrow> ledger s' = ledger s \<Longrightarrow> transactions s' = transactions s \<Longrightarrow> idempotency s' = idempotency s \<Longrightarrow>
     caps s' = caps s \<Longrightarrow> treasury s' \<longleftrightarrow> treasury s"
  using books_cong[of s' s] by (simp add: treasury_def)

lemma treasury_books: "treasury s \<Longrightarrow> books s"
  by (simp add: treasury_def)

lemma read_clock_Ok: "read_clock s = Ok (t, s') \<longleftrightarrow> (\<exists>ts. clock s = t # ts \<and> s' = s\<lparr>clock := ts\<rparr>)"
  by (auto simp: read_clock_def split: list.splits)

lemma reward_amounts_pos [simp]: "0 < daily_amount" "0 < hourly_reward_amount" "0 < relief_reward_amount"
  by (simp_all add: daily_amount_def hourly_reward_amount_def relief_reward_amount_def)

lemma reward_deltas [simp]:
  "0 < mu_delta (daily_mutation u day key)" "0 < mu_delta (hourly_mutation u h key)" "0 < mu_delta (relief_mutation u c key)"
  by (simp_all add: daily_mutation_def hourly_mutation_def relief_mutation_def)

text \<open>A step that keeps the treasury and at most pays one reward of \<open>u\<close>, no more than \<open>limit\<close>.\<close>

definition rewards_step :: "int \<Rightarrow> int \<Rightarrow> 'a economy_scheme \<Rightarrow> 'a economy_scheme \<Rightarrow> bool" where
  "rewards_step u limit s s' \<longleftrightarrow> treasury s' \<and> later_tables s s' \<and>
     (moves_nothing s s' \<or> (\<exists>m e. mu_user m = u \<and> mu_asset m = ReserveApiCredit \<and> mu_delta m = limit \<and> pays_once m e s s'))"

lemma rewards_step_quiet:
  assumes "rewards_step u limit s s'" "wallets s0 = wallets s" "ledger s0 = ledger s" "transactions s0 = transactions s"
    "idempotency s0 = idempotency s" "reward_keys s0 = reward_keys s"
    "wallets s1 = wallets s'" "ledger s1 = ledger s'" "transactions s1 = transactions s'"
    "idempotency s1 = idempotency s'" "caps s1 = caps s'" "reward_keys s1 = reward_keys s'"
  shows "rewards_step u limit s0 s1"
proof -
  have "treasury s1 = treasury s'" using treasury_cong[of s1 s'] assms(7-12) by simp
  with assms show ?thesis
    by (auto simp: rewards_step_def later_tables_def moves_nothing_def pays_once_def find_transaction_def)
qed

lemma apply_reward_step:
  assumes "apply_reward sha um m s = Ok (s', e)" "treasury s" "0 < mu_delta m" "mu_asset m = ReserveApiCredit"
  shows "rewards_step (mu_user m) (mu_delta m) s s'"
  using apply_reward_Ok[OF assms(1-3)] assms(4) unfolding rewards_step_def by blast

lemma insert_rows_frame:
  "insert_checkin c s = Ok s' \<Longrightarrow> \<exists>cs. s' = s\<lparr>checkins := cs\<rparr>"
  "insert_hourly h s = Ok s' \<Longrightarrow> s' = s\<lparr>hourly_claims := hourly_claims s @ [h]\<rparr>"
  "insert_relief x s = Ok s' \<Longrightarrow> s' = s\<lparr>relief_claims := relief_claims s @ [x]\<rparr> \<and> rl_until x = rl_claimed x + relief_cooldown"
  by (auto simp: insert_checkin_def insert_hourly_def insert_relief_def Let_def split: if_splits intro: exI[of _ "checkins s"])

subsection \<open>The daily reward\<close>

lemma claim_daily_cases:
  assumes "claim_daily sha um u key s = Ok (s', r)"
  obtains (prior) "s' = s" "find_operation sha s u DailyKind key = Ok (Some r)"
  | (granted) now ts a e cs where "find_operation sha s u DailyKind key = Ok None" "clock s = now # ts"
      "apply_reward sha um (daily_mutation u (fst (shanghai_day now)) key) (s\<lparr>clock := ts\<rparr>) = Ok (a, e)"
      "s' = a\<lparr>checkins := cs\<rparr>" "transaction_in_tx s' u (le_tx e) = Ok r" "0 < u"
proof -
  have ok: "0 < u" "valid_operation_key key" using assms by (auto simp: claim_daily_def split: if_splits)
  then obtain p where p: "find_operation sha s u DailyKind key = Ok p"
    using assms by (auto simp: claim_daily_def bindr_Ok_iff)
  show thesis
  proof (cases p)
    case (Some q)
    then show thesis using assms ok p by (intro prior) (auto simp: claim_daily_def)
  next
    case None
    with assms ok p obtain now ts a e where x: "clock s = now # ts"
      "apply_reward sha um (daily_mutation u (fst (shanghai_day now)) key) (s\<lparr>clock := ts\<rparr>) = Ok (a, e)"
      "insert_checkin \<lparr>ck_user = u, ck_date = fst (shanghai_day now), ck_amount = le_delta e, ck_tx = le_tx e\<rparr> a = Ok s'"
      "transaction_in_tx s' u (le_tx e) = Ok r"
      by (auto simp: claim_daily_def bindr_Ok_iff read_clock_Ok Let_def)
    from insert_rows_frame(1)[OF x(3)] obtain cs where "s' = a\<lparr>checkins := cs\<rparr>" ..
    from granted[OF _ x(1,2) this x(4) ok(1)] p None show thesis by simp
  qed
qed

lemma daily_mutation_simps [simp]:
  "mu_user (daily_mutation u d k) = u" "mu_asset (daily_mutation u d k) = ReserveApiCredit"
  "mu_delta (daily_mutation u d k) = daily_amount" "mu_key (daily_mutation u d k) = k"
  "mu_type (daily_mutation u d k) = ascii ''DAILY_REWARD_V1''"
  "mu_id (daily_mutation u d k) = ascii ''daily:'' @ int_text u @ [58] @ ascii d"
  by (simp_all add: daily_mutation_def)

lemma claim_daily_step:
  assumes "claim_daily sha um u key s = Ok (s', r)" "treasury s"
  shows "rewards_step u daily_amount s s'"
  using assms(1)
proof (cases rule: claim_daily_cases)
  case (granted now ts a e cs)
  have "treasury (s\<lparr>clock := ts\<rparr>)" using assms(2) treasury_cong[of "s\<lparr>clock := ts\<rparr>" s] by simp
  from apply_reward_step[OF granted(3) this] have "rewards_step u daily_amount (s\<lparr>clock := ts\<rparr>) a" by simp
  then show ?thesis by (rule rewards_step_quiet) (simp_all add: granted(4))
qed (use assms(2) in \<open>simp add: rewards_step_def moves_nothing_def\<close>)

text \<open>An operation that is not on record has left neither of its keys.\<close>

lemma find_operation_None:
  assumes "find_operation sha s u kind key = Ok None" "linked s" "kind \<in> {DailyKind, HourlyKind, ReliefKind}"
  shows "find_idem s u wallet_scope (sha key) = None" "reserved_key s u (sha key) = None"
proof -
  have op: "operation_tx s u wallet_scope (sha key) = None"
    using assms(1,3) by (auto simp: find_operation_def operation_scope_def bindr_Ok_iff split: option.splits if_splits)
  show idem: "find_idem s u wallet_scope (sha key) = None"
  proof (rule ccontr)
    assume "find_idem s u wallet_scope (sha key) \<noteq> None"
    then obtain i where i: "find_idem s u wallet_scope (sha key) = Some i" by auto
    then have "i \<in> set (idempotency s)" by (auto simp: find_idem_def dest: find_Some_mem)
    then obtain e where "e \<in> set (ledger s)" "le_id e = ir_resource i" using assms(2) by (auto simp: linked_def)
    then have "find (\<lambda>e. le_id e = ir_resource i) (ledger s) \<noteq> None" by (auto simp: find_None_iff)
    with op i show False by (auto simp: operation_tx_def)
  qed
  then show "reserved_key s u (sha key) = None" using op by (simp add: operation_tx_def)
qed

lemma claim_daily_known:
  assumes "claim_daily sha um u key s = Ok (s', r)" "treasury s" "find_operation sha s u DailyKind key = Ok None"
    "clock s = now # ts"
  shows "find_transaction s' (ascii ''DAILY_REWARD_V1'') (ascii ''daily:'' @ int_text u @ [58] @ ascii (date_text (local_day now))) \<noteq> None"
  using assms(1)
proof (cases rule: claim_daily_cases)
  case (granted now' ts' a e cs)
  have t: "treasury (s\<lparr>clock := ts'\<rparr>)" using assms(2) treasury_cong[of "s\<lparr>clock := ts'\<rparr>" s] by simp
  have l: "linked s" using assms(2) by (simp add: treasury_def books_def)
  note none = find_operation_None[OF assms(3) l, simplified]
  from apply_reward_Ok[OF granted(3) t] none show ?thesis
    using granted(2) assms(4) by (simp add: granted(4) find_transaction_def find_idem_def reserved_key_def shanghai_day_def)
qed (use assms(3) in simp)

lemma claim_daily_again:
  assumes "claim_daily sha um u key s = Ok (s', r)" "treasury s" "clock s = now # ts"
    "find_transaction s (ascii ''DAILY_REWARD_V1'') (ascii ''daily:'' @ int_text u @ [58] @ ascii (date_text (local_day now))) \<noteq> None"
  shows "moves_nothing s s'"
  using assms(1)
proof (cases rule: claim_daily_cases)
  case (granted now' ts' a e cs)
  have t: "treasury (s\<lparr>clock := ts'\<rparr>)" using assms(2) treasury_cong[of "s\<lparr>clock := ts'\<rparr>" s] by simp
  from apply_reward_Ok[OF granted(3) t] assms(3,4) granted(2) show ?thesis
    by (auto simp: granted(4) moves_nothing_def pays_once_def find_transaction_def shanghai_day_def)
qed (simp add: moves_nothing_def)


subsection \<open>The hourly reward\<close>

lemma hourly_mutation_simps [simp]:
  "mu_user (hourly_mutation u d k) = u" "mu_asset (hourly_mutation u d k) = ReserveApiCredit"
  "mu_delta (hourly_mutation u d k) = hourly_reward_amount" "mu_key (hourly_mutation u d k) = k"
  by (simp_all add: hourly_mutation_def)

lemma rewards_step_refl: "treasury s \<Longrightarrow> rewards_step u l s s"
  by (simp add: rewards_step_def moves_nothing_def)

lemma hourly_claim_in_tx_step:
  assumes "hourly_claim_in_tx sha um u h key s = Ok (s', x)" "treasury s"
  shows "rewards_step u hourly_reward_amount s s' \<and> (x = None \<longrightarrow> s' = s) \<and> (x = None \<longleftrightarrow> find_hourly s u h = None)"
proof (cases "find_hourly s u h")
  case None
  then show ?thesis using assms by (simp add: hourly_claim_in_tx_def rewards_step_refl)
next
  case (Some c)
  with assms obtain e where "apply_reward sha um (hourly_mutation u h key) s = Ok (s', e)" "x \<noteq> None"
    by (auto simp: hourly_claim_in_tx_def bindr_Ok_iff split: if_splits prod.splits)
  with apply_reward_step[OF this(1) assms(2)] Some show ?thesis by auto
qed

lemma claim_hourly_cases:
  assumes "claim_hourly sha um u key s = Ok (s', r)"
  obtains (prior) "s' = s"
  | (replayed) ts h s0 where "s0 = s\<lparr>clock := ts\<rparr>" "hourly_claim_in_tx sha um u h key s0 = Ok (s', Some r)"
  | (granted) now ts a e c where "apply_reward sha um (hourly_mutation u (fst (shanghai_hour now)) key) (s\<lparr>clock := ts\<rparr>) = Ok (a, e)"
      "c = \<lparr>hc_user = u, hc_hour = fst (shanghai_hour now), hc_date = fst (shanghai_day now), hc_amount = le_delta e, hc_tx = le_tx e\<rparr>"
      "insert_hourly c a = Ok s'" "claims_today s u (fst (shanghai_day now)) < hourly_daily_limit"
proof -
  have ok: "0 < u" "valid_operation_key key" using assms by (auto simp: claim_hourly_def split: if_splits)
  then obtain p where p: "find_operation sha s u HourlyKind key = Ok p"
    using assms by (auto simp: claim_hourly_def bindr_Ok_iff)
  show thesis
  proof (cases p)
    case (Some q)
    then show thesis using assms ok p by (intro prior) (auto simp: claim_hourly_def)
  next
    case None
    with assms ok p obtain t ts b x where t: "clock s = t # ts"
      and first: "hourly_claim_in_tx sha um u (fst (shanghai_hour t)) key (s\<lparr>clock := ts\<rparr>) = Ok (b, x)"
      and rest: "(case x of Some r \<Rightarrow> Ok (b, r)
          | None \<Rightarrow> bindr (require_no_maintenance [''CHALDEA_USER_WRITES'', ''REWARDS''] b) (\<lambda>_.
              bindr (read_clock b) (\<lambda>(now, s). grant_hourly sha um u now key s))) = Ok (s', r)"
      by (auto simp: claim_hourly_def bindr_Ok_iff read_clock_Ok)
    show thesis
    proof (cases x)
      case (Some q)
      with first rest show thesis by (intro replayed[OF refl]) auto
    next
      case None
      with first have b: "b = s\<lparr>clock := ts\<rparr>"
        by (auto simp: hourly_claim_in_tx_def bindr_Ok_iff split: option.splits if_splits prod.splits)
      from None rest obtain now ts2 where now: "clock b = now # ts2" "grant_hourly sha um u now key (b\<lparr>clock := ts2\<rparr>) = Ok (s', r)"
        by (auto simp: bindr_Ok_iff read_clock_Ok)
      then obtain c y where second: "hourly_claim_in_tx sha um u (fst (shanghai_hour now)) key (b\<lparr>clock := ts2\<rparr>) = Ok (c, y)"
        and rest2: "(case y of Some r \<Rightarrow> Ok (c, r)
          | None \<Rightarrow> if claims_today c u (fst (shanghai_day now)) \<ge> hourly_daily_limit then Fail RewardLimit
             else bindr (apply_reward sha um (hourly_mutation u (fst (shanghai_hour now)) key) c) (\<lambda>(s, e).
               bindr (insert_hourly \<lparr>hc_user = u, hc_hour = fst (shanghai_hour now), hc_date = fst (shanghai_day now),
                 hc_amount = le_delta e, hc_tx = le_tx e\<rparr> s) (\<lambda>s.
               bindr (transaction_in_tx s u (le_tx e)) (\<lambda>r. Ok (s, r))))) = Ok (s', r)"
        by (auto simp: grant_hourly_def Let_def bindr_Ok_iff)
      have bs: "b\<lparr>clock := ts2\<rparr> = s\<lparr>clock := ts2\<rparr>" by (simp add: b)
      show thesis
      proof (cases y)
        case (Some q)
        with second rest2 show thesis by (intro replayed[OF refl]) (auto simp: bs)
      next
        case None
        with second have c: "c = s\<lparr>clock := ts2\<rparr>"
          by (auto simp: hourly_claim_in_tx_def bindr_Ok_iff bs split: option.splits if_splits prod.splits)
        from None rest2 show thesis
          by (auto simp: bindr_Ok_iff c claims_today_def split: if_splits intro!: granted)
      qed
    qed
  qed
qed

lemma claim_hourly_step:
  assumes "claim_hourly sha um u key s = Ok (s', r)" "treasury s"
  shows "rewards_step u hourly_reward_amount s s'"
proof -
  have t: "treasury (s\<lparr>clock := ts\<rparr>)" for ts using assms(2) treasury_cong[of "s\<lparr>clock := ts\<rparr>" s] by simp
  show ?thesis using assms(1)
  proof (cases rule: claim_hourly_cases)
    case (replayed ts h s0)
    from hourly_claim_in_tx_step[OF replayed(2)] t[of ts] replayed(1)
    have "rewards_step u hourly_reward_amount (s\<lparr>clock := ts\<rparr>) s'" by simp
    then show ?thesis by (rule rewards_step_quiet) simp_all
  next
    case (granted now ts a e c)
    from apply_reward_step[OF granted(1) t] have "rewards_step u hourly_reward_amount (s\<lparr>clock := ts\<rparr>) a" by simp
    then show ?thesis by (rule rewards_step_quiet) (simp_all add: insert_rows_frame(2)[OF granted(3)])
  qed (use assms(2) rewards_step_refl in simp)
qed


subsection \<open>Claims leave the other tables alone\<close>

lemma posts_more: "posts s t es i s' \<Longrightarrow> tables.more s' = tables.more s"
  by (auto simp: posts_def)

lemma apply_in_tx_more: "apply_in_tx sha m s = Ok (s', e) \<Longrightarrow> books s \<Longrightarrow> tables.more s' = tables.more s"
  by (erule apply_in_tx_cases) (auto simp: posts_more)

lemma economy_more: "tables.more s' = tables.more s \<Longrightarrow> economy.more s' = economy.more s"
  for s :: "'a economy_scheme"
  by (cases s; cases s') simp

lemma reward_rows:
  "economy.more s' = economy.more s \<Longrightarrow> checkins s' = checkins s \<and> hourly_claims s' = hourly_claims s \<and> relief_claims s' = relief_claims s"
  for s :: "'a reward_tables_scheme"
  by (cases s; cases s') simp

lemma zero_reward_more: "zero_reward m key semantic s = Ok (s', e) \<Longrightarrow> economy.more s' = economy.more s"
  by (auto simp: zero_reward_def bindr_Ok_iff insert_transaction_Ok dest!: uuid_v7_Ok split: if_splits option.splits)

lemma record_cap_more: "record_cap sha um kind bid u c s = Ok s' \<Longrightarrow> economy.more s' = economy.more s"
  by (auto simp: record_cap_def bindr_Ok_iff insert_cap_def Let_def split: if_splits res.splits option.splits)

lemma pay_reward_more:
  assumes "pay_reward sha um m key semantic c is_new s = Ok (s', e)" "books s"
  shows "economy.more s' = economy.more s"
proof -
  from assms(1) obtain a b where
    pay: "(if cs_credited c > 0 then apply_in_tx sha (m\<lparr>mu_delta := cs_credited c\<rparr>) s else zero_reward m key semantic s) = Ok (a, e)"
    and rec: "(if is_new then record_cap sha um (mu_type m) (mu_id m) (mu_user m) c a else Ok a) = Ok b"
    and ins: "insert_reward_key \<lparr>rk_user = mu_user m, rk_key = key, rk_request = semantic, rk_tx = le_tx e\<rparr> b = Ok s'"
    by (auto simp: pay_reward_def bindr_Ok_iff split: prod.splits)
  have "economy.more a = economy.more s"
    using pay economy_more[OF apply_in_tx_more[OF _ assms(2)]] zero_reward_more by (auto split: if_splits)
  moreover have "economy.more b = economy.more a" using rec record_cap_more by (auto split: if_splits)
  ultimately show ?thesis using insert_reward_key_Ok[OF ins] by simp
qed

lemma apply_reward_more:
  assumes "apply_reward sha um m s = Ok (s', e)" "books s"
  shows "economy.more s' = economy.more s"
proof -
  have direct: "economy.more s' = economy.more s" if "apply_in_tx sha m s = Ok (s', e)"
    by (rule economy_more[OF apply_in_tx_more[OF that assms(2)]])
  have capped: "economy.more s' = economy.more s"
    if "prepare_cap p u 0 d 1 s = Ok (a, c)" "pay_reward sha um m k sm c True a = Ok (s', e)" for p u d a c k sm
  proof -
    from prepare_cap_Ok[OF that(1)] obtain ts where a: "a = s\<lparr>clock := ts\<rparr>" by blast
    have "books a" using assms(2) books_cong[of a s] by (simp add: a)
    from pay_reward_more[OF that(2) this] show ?thesis by (simp add: a)
  qed
  have old: "economy.more s' = economy.more s" if "pay_reward sha um m k sm c False s = Ok (s', e)" for k sm c
    by (rule pay_reward_more[OF that assms(2)])
  show ?thesis using assms(1) direct capped old
    by (auto simp: apply_reward_def bindr_Ok_iff split: option.splits if_splits prod.splits)
qed

subsection \<open>The hourly limit\<close>

definition hourly_ok :: "'a reward_tables_scheme \<Rightarrow> bool" where
  "hourly_ok s \<longleftrightarrow> distinct (map (\<lambda>c. (hc_user c, hc_hour c)) (hourly_claims s)) \<and>
     (\<forall>u day. claims_today s u day \<le> hourly_daily_limit) \<and>
     (\<forall>c\<in>set (hourly_claims s). 0 \<le> hc_amount c \<and> hc_amount c \<le> hourly_reward_amount)"

lemma hourly_ok_cong: "hourly_claims s' = hourly_claims s \<Longrightarrow> hourly_ok s' \<longleftrightarrow> hourly_ok s"
  by (simp add: hourly_ok_def claims_today_def)

lemma claim_hourly_ok:
  assumes "claim_hourly sha um u key s = Ok (s', r)" "treasury s" "hourly_ok s"
  shows "hourly_ok s' \<and> relief_claims s' = relief_claims s"
proof -
  have b: "books (s\<lparr>clock := ts\<rparr>)" for ts using assms(2) books_cong[of "s\<lparr>clock := ts\<rparr>" s] by (simp add: treasury_def)
  show ?thesis using assms(1)
  proof (cases rule: claim_hourly_cases)
    case (replayed ts h s0)
    then have "economy.more s' = economy.more (s\<lparr>clock := ts\<rparr>)"
      using apply_reward_more[OF _ b[of ts]]
      by (auto simp: hourly_claim_in_tx_def bindr_Ok_iff split: option.splits if_splits prod.splits)
    from reward_rows[OF this] show ?thesis using assms(3) hourly_ok_cong[of s' s] by simp
  next
    case (granted now ts a e c)
    from reward_rows[OF apply_reward_more[OF granted(1) b]] have a: "hourly_claims a = hourly_claims s" "relief_claims a = relief_claims s"
      by simp_all
    have new: "\<not> list_ex (\<lambda>d. hc_user d = hc_user c \<and> hc_hour d = hc_hour c) (hourly_claims s)" "0 \<le> hc_amount c"
        "hc_amount c \<le> hourly_reward_amount" and s': "s' = a\<lparr>hourly_claims := hourly_claims a @ [c]\<rparr>"
      using granted(3) by (auto simp: insert_hourly_def a split: if_splits)
    have "claims_today s' v day \<le> hourly_daily_limit" for v day
      using granted(2,4) assms(3) by (auto simp: claims_today_def s' a hourly_ok_def)
    then show ?thesis using new assms(3) by (auto simp: hourly_ok_def s' a list_ex_iff image_iff)
  qed (use assms(3) in simp)
qed

subsection \<open>Relief\<close>

definition relief_spaced :: "'a reward_tables_scheme \<Rightarrow> bool" where
  "relief_spaced s \<longleftrightarrow> (\<forall>c\<in>set (relief_claims s). rl_until c = rl_claimed c + relief_cooldown \<and>
       0 \<le> rl_amount c \<and> rl_amount c \<le> relief_reward_amount \<and> ua_total (rl_assets c) < relief_asset_threshold) \<and>
     sorted_wrt (\<lambda>c d. rl_user c = rl_user d \<longrightarrow> rl_until c \<le> rl_claimed d) (relief_claims s)"

lemma foldl_latest:
  "rl_claimed b \<le> rl_claimed (foldl (\<lambda>b c. if later_relief c b then c else b) b cs) \<and>
   (\<forall>c\<in>set cs. rl_claimed c \<le> rl_claimed (foldl (\<lambda>b c. if later_relief c b then c else b) b cs)) \<and>
   foldl (\<lambda>b c. if later_relief c b then c else b) b cs \<in> insert b (set cs)"
proof (induction cs arbitrary: b)
  case (Cons c cs)
  define g where "g = (\<lambda>b c. if later_relief c b then c else b)"
  have r: "rl_claimed b \<le> rl_claimed (g b c)" "rl_claimed c \<le> rl_claimed (g b c)" "g b c \<in> {b, c}"
    unfolding g_def later_relief_def by (simp_all split: if_split)
  define l where "l = foldl g (g b c) cs"
  from Cons[of "g b c", folded g_def, folded l_def]
  have l: "rl_claimed (g b c) \<le> rl_claimed l" "\<forall>c\<in>set cs. rl_claimed c \<le> rl_claimed l" "l \<in> insert (g b c) (set cs)"
    by blast+
  have "foldl g b (c # cs) = l" by (simp add: l_def)
  moreover have "rl_claimed b \<le> rl_claimed l" "rl_claimed c \<le> rl_claimed l" using r l(1) by linarith+
  moreover have "l \<in> insert b (set (c # cs))" using r(3) l(3) by auto
  ultimately show ?case using l(2) unfolding g_def[symmetric] by simp
qed simp

lemma cooldown_bounds:
  assumes "relief_cooldown_in_tx s u now = Ok x" "relief_spaced s" "d \<in> set (relief_claims s)" "rl_user d = u"
  shows "rl_until d \<le> now"
proof -
  have "d \<in> set (filter (\<lambda>c. rl_user c = u) (relief_claims s))" using assms(3,4) by simp
  then obtain c cs where f: "filter (\<lambda>c. rl_user c = u) (relief_claims s) = c # cs" and d: "d \<in> set (c # cs)"
    by (cases "filter (\<lambda>c. rl_user c = u) (relief_claims s)") auto
  define l where "l = foldl (\<lambda>b c. if later_relief c b then c else b) c cs"
  have l: "rl_claimed d \<le> rl_claimed l" "l \<in> set (c # cs)" using foldl_latest[of c cs, folded l_def] d by auto
  have "set (c # cs) \<subseteq> set (relief_claims s)" unfolding f[symmetric] by auto
  with l(2) have "l \<in> set (relief_claims s)" by blast
  then have "rl_until l = rl_claimed l + relief_cooldown" using assms(2) by (simp add: relief_spaced_def)
  moreover have "rl_until l \<le> now" using assms(1) f by (simp add: l_def[symmetric] relief_cooldown_in_tx_def last_relief_def guardr_def not_less split: if_splits)
  moreover have "rl_until d = rl_claimed d + relief_cooldown" using assms(2,3) by (simp add: relief_spaced_def)
  ultimately show ?thesis using l(1) by simp
qed


lemma claim_relief_cases:
  assumes "claim_relief sha um u key s = Ok (s', r)"
  obtains (prior) "s' = s"
  | (granted) t now1 o1 now ts s0 s1 claim assets a e where "clock s = t # now1 # o1 # now # ts" "relief_cooldown_in_tx s u now1 = Ok ()"
      "read_unified_assets u s0 = Ok (s1, assets)" "ua_total assets < relief_asset_threshold"
      "apply_reward sha um (relief_mutation u claim key) (s1\<lparr>clock := ts\<rparr>) = Ok (a, e)"
      "wallets s1 = wallets s" "ledger s1 = ledger s" "transactions s1 = transactions s" "idempotency s1 = idempotency s"
      "reward_keys s1 = reward_keys s" "caps s1 = caps s" "economy.more s1 = economy.more s"
      "insert_relief \<lparr>rl_id = claim, rl_user = u, rl_assets = assets, rl_amount = le_delta e, rl_tx = le_tx e,
         rl_claimed = now, rl_until = now + relief_cooldown\<rparr> a = Ok s'"
proof -
  have ok: "0 < u" "valid_operation_key key" using assms by (auto simp: claim_relief_def split: if_splits)
  then obtain p where p: "find_operation sha s u ReliefKind key = Ok p"
    using assms by (auto simp: claim_relief_def bindr_Ok_iff)
  show thesis
  proof (cases p)
    case (Some q)
    then show thesis using assms ok p by (intro prior) (auto simp: claim_relief_def)
  next
    case None
    with assms ok p obtain t ts1 now1 ts2 claim b c assets d now a e where x:
      "clock s = t # ts1" "ts1 = now1 # ts2" "relief_cooldown_in_tx (s\<lparr>clock := ts2\<rparr>) u now1 = Ok ()"
      "uuid_v7 (s\<lparr>clock := ts2\<rparr>) = Ok (claim, b)" "read_unified_assets u b = Ok (c, assets)"
      "ua_total assets < relief_asset_threshold" "clock c = now # d"
      "apply_reward sha um (relief_mutation u claim key) (c\<lparr>clock := d\<rparr>) = Ok (a, e)"
      "insert_relief \<lparr>rl_id = claim, rl_user = u, rl_assets = assets, rl_amount = le_delta e, rl_tx = le_tx e,
         rl_claimed = now, rl_until = now + relief_cooldown\<rparr> a = Ok s'"
      by (auto simp: claim_relief_def bindr_Ok_iff read_clock_Ok not_le split: if_splits)
    from uuid_v7_Ok[OF x(4)] obtain en where b: "b = s\<lparr>clock := ts2, entropy := en\<rparr>" by auto
    from read_unified_assets_Ok[OF x(5)] obtain ts where c: "c = b\<lparr>clock := ts\<rparr>" "clock b = ua_observed assets # ts" by blast
    have cl: "clock s = t # now1 # ua_observed assets # now # d" using x(1,2,7) c b by simp
    have cool: "relief_cooldown_in_tx s u now1 = Ok ()" using x(3) by (simp add: relief_cooldown_in_tx_def last_relief_def)
    show thesis by (rule granted[OF cl cool x(5,6,8) _ _ _ _ _ _ _ x(9)]) (simp_all add: c b)
  qed
qed

lemma claim_relief_step:
  assumes "claim_relief sha um u key s = Ok (s', r)" "treasury s"
  shows "rewards_step u relief_reward_amount s s' \<and> hourly_claims s' = hourly_claims s"
  using assms(1)
proof (cases rule: claim_relief_cases)
  case (granted t now1 o1 now ts s0 s1 claim assets a e)
  have t: "treasury (s1\<lparr>clock := ts\<rparr>)" using assms(2) treasury_cong[of "s1\<lparr>clock := ts\<rparr>" s] granted(6-11) by simp
  have m: "mu_user (relief_mutation u claim key) = u" "mu_delta (relief_mutation u claim key) = relief_reward_amount"
    "mu_asset (relief_mutation u claim key) = ReserveApiCredit" by (simp_all add: relief_mutation_def)
  have s': "s' = a\<lparr>relief_claims := relief_claims s' \<rparr>" using insert_rows_frame(3)[OF granted(13)] by auto
  from apply_reward_step[OF granted(5) t _ m(3)] m have step: "rewards_step u relief_reward_amount (s1\<lparr>clock := ts\<rparr>) a" by simp
  have "economy.more a = economy.more s" using apply_reward_more[OF granted(5) treasury_books[OF t]] granted(12) by simp
  from reward_rows[OF this] have "hourly_claims s' = hourly_claims s" by (subst s') simp
  moreover have "rewards_step u relief_reward_amount s s'"
    by (rule rewards_step_quiet[OF step]) (simp_all add: granted(6-11), (subst s', simp)+)
  ultimately show ?thesis by simp
qed (use assms(2) rewards_step_refl in simp)

lemma claim_relief_spaced:
  assumes "claim_relief sha um u key s = Ok (s', r)" "treasury s" "relief_spaced s" "sorted (clock s)"
  shows "relief_spaced s'"
  using assms(1)
proof (cases rule: claim_relief_cases)
  case (granted t now1 o1 now ts s0 s1 claim assets a e)
  let ?c = "\<lparr>rl_id = claim, rl_user = u, rl_assets = assets, rl_amount = le_delta e, rl_tx = le_tx e,
         rl_claimed = now, rl_until = now + relief_cooldown\<rparr>"
  have t: "books (s1\<lparr>clock := ts\<rparr>)"
    using assms(2) treasury_cong[of "s1\<lparr>clock := ts\<rparr>" s] granted(6-11) by (simp add: treasury_def)
  have "economy.more a = economy.more s" using apply_reward_more[OF granted(5) t] granted(12) by simp
  from reward_rows[OF this] have a: "relief_claims a = relief_claims s" by simp
  have s': "relief_claims s' = relief_claims s @ [?c]" and am: "0 \<le> le_delta e" "le_delta e \<le> relief_reward_amount"
    using granted(13) by (auto simp: insert_relief_def Let_def a split: if_splits)
  have "now1 \<le> now" using assms(4) granted(1) by simp
  then have "rl_until d \<le> now" if "d \<in> set (relief_claims s)" "rl_user d = u" for d
    using cooldown_bounds[OF granted(2) assms(3) that] by simp
  then show ?thesis using assms(3) am granted(4) by (simp add: relief_spaced_def s' sorted_wrt_append)
qed (use assms(3) in simp)

lemma claim_daily_rows:
  assumes "claim_daily sha um u key s = Ok (s', r)" "treasury s"
  shows "hourly_claims s' = hourly_claims s \<and> relief_claims s' = relief_claims s"
  using assms(1)
proof (cases rule: claim_daily_cases)
  case (granted now ts a e cs)
  have "books (s\<lparr>clock := ts\<rparr>)" using assms(2) books_cong[of "s\<lparr>clock := ts\<rparr>" s] by (simp add: treasury_def)
  from reward_rows[OF apply_reward_more[OF granted(3) this]] show ?thesis by (simp add: granted(4))
qed simp

subsection \<open>Runs\<close>

text \<open>The operations of the ledger and its rewards.\<close>

datatype operation =
    DoEnsure int | DoApply mutation | DoExchange int "byte list" asset int
  | DoDaily int "byte list" | DoHourly int "byte list" | DoRelief int "byte list"

fun commit_tables :: "('a \<Rightarrow> (ledger_error, 'a \<times> 'b) res) \<Rightarrow> 'a \<Rightarrow> 'a" where
  "commit_tables op s = fst (commit_tx op s)"

fun perform_operation ::
  "(byte list \<Rightarrow> byte list) \<Rightarrow> (byte list \<Rightarrow> economic_policy option) \<Rightarrow> operation \<Rightarrow> reward_tables \<Rightarrow> reward_tables" where
  "perform_operation sha um (DoEnsure u) s = commit_tables (ensure_account u) s"
| "perform_operation sha um (DoApply m) s = fst (apply_mutation sha m s)"
| "perform_operation sha um (DoExchange u key from amount) s = fst (exchange sha u key from amount s)"
| "perform_operation sha um (DoDaily u key) s = commit_tables (claim_daily sha um u key) s"
| "perform_operation sha um (DoHourly u key) s = commit_tables (claim_hourly sha um u key) s"
| "perform_operation sha um (DoRelief u key) s = commit_tables (claim_relief sha um u key) s"

text \<open>Between two operations time passes, and policies, maintenance and the chips in games change. The
  SQL functions of the poker tables that post to wallets themselves are not among these steps.\<close>

definition elsewhere :: "reward_tables \<Rightarrow> reward_tables \<Rightarrow> bool" where
  "elsewhere s s' \<longleftrightarrow> (\<exists>c en mt p ap pa la x. s' = s\<lparr>api_exchanges := x, maintenance := mt, entropy := en, policies := p,
     active_policy := ap, poker_assets := pa, local_assets := la, clock := c\<rparr> \<and> sorted c)"

inductive ledger_run :: "(byte list \<Rightarrow> byte list) \<Rightarrow> (byte list \<Rightarrow> economic_policy option) \<Rightarrow> reward_tables \<Rightarrow> reward_tables \<Rightarrow> bool"
  for sha um where
  start: "ledger_run sha um s s"
| operate: "ledger_run sha um s t \<Longrightarrow> sorted (clock t) \<Longrightarrow> ledger_run sha um s (perform_operation sha um op t)"
| wait: "ledger_run sha um s t \<Longrightarrow> elsewhere t t' \<Longrightarrow> ledger_run sha um s t'"

definition ledger_ok :: "reward_tables \<Rightarrow> bool" where
  "ledger_ok s \<longleftrightarrow> treasury s \<and> hourly_ok s \<and> relief_spaced s"

lemma commit_cases: "fst (commit_tx op s) = s \<or> (\<exists>r. op s = Ok (fst (commit_tx op s), r))"
  by (cases "op s") (auto simp: commit_tx_def split: prod.splits)

lemma tables_step_ok:
  assumes "books s'" "later_tables s s'" "tables.more s' = tables.more s" "ledger_ok s"
  shows "ledger_ok s' \<and> later_tables s s'"
proof -
  have m: "economy.more s' = economy.more s" "caps s' = caps s"
    using economy_more[OF assms(3)] assms(3) by (cases s; cases s'; simp)+
  from reward_rows[OF m(1)] m(2) assms show ?thesis
    by (simp add: ledger_ok_def treasury_def hourly_ok_cong[of s' s] relief_spaced_def)
qed

lemma ensure_account_more: "ensure_account u s = Ok (s', x) \<Longrightarrow> tables.more s' = tables.more s"
  by (auto simp: ensure_account_def bindr_Ok_iff Let_def add_wallet_def split: if_splits)

lemma exchange_in_tx_more:
  assumes "exchange_in_tx sha u key from amount s = Ok (s', r)" "books s"
  shows "tables.more s' = tables.more s"
  using assms(1)
proof (cases rule: exchange_in_tx_cases)
  case posted
  have "from \<noteq> other_asset from" by (simp add: other_asset_def)
  from post_exchange_Ok[OF posted(5) assms(2) this posted(2)] show ?thesis using posts_more by blast
qed simp

lemma perform_operation_ok:
  assumes "ledger_ok s" "sorted (clock s)"
  shows "ledger_ok (perform_operation sha um op s) \<and> later_tables s (perform_operation sha um op s)"
proof -
  have t: "treasury s" and b: "books s" using assms(1) by (simp_all add: ledger_ok_def treasury_def)
  have by_commit: "ledger_ok (fst (commit_tx f s)) \<and> later_tables s (fst (commit_tx f s))"
    if "\<And>s' r. f s = Ok (s', r) \<Longrightarrow> ledger_ok s' \<and> later_tables s s'" for f :: "reward_tables \<Rightarrow> (ledger_error, reward_tables \<times> 'b) res"
    using commit_cases[of f s] that assms(1) by (auto simp: later_tables_def)
  have hour: "ledger_ok s'" if "claim_hourly sha um u key s = Ok (s', r)" for u key s' r
    using claim_hourly_step[OF that t] claim_hourly_ok[OF that t] assms(1)
    by (simp add: ledger_ok_def rewards_step_def relief_spaced_def)
  have relief: "ledger_ok s'" if "claim_relief sha um u key s = Ok (s', r)" for u key s' r
    using claim_relief_step[OF that t] claim_relief_spaced[OF that t] assms
    by (simp add: ledger_ok_def rewards_step_def hourly_ok_cong[of s' s])
  have daily: "ledger_ok s'" if "claim_daily sha um u key s = Ok (s', r)" for u key s' r
    using claim_daily_step[OF that t] claim_daily_rows[OF that t] assms(1)
    by (simp add: ledger_ok_def rewards_step_def hourly_ok_cong[of s' s] relief_spaced_def)
  show ?thesis
  proof (cases op)
    case (DoEnsure u)
    then show ?thesis using by_commit[of "ensure_account u"] tables_step_ok[OF ensure_account_books[OF _ b]
        ensure_account_later ensure_account_more assms(1)] by auto
  next
    case (DoApply m)
    have "ledger_ok s' \<and> later_tables s s'" if "apply_in_tx sha m s = Ok (s', e)" for s' e
      by (rule tables_step_ok[OF apply_in_tx_books[OF that b] apply_in_tx_later[OF that b] apply_in_tx_more[OF that b] assms(1)])
    with DoApply by_commit[of "apply_in_tx sha m"] assms(1) show ?thesis by (simp add: apply_mutation_def)
  next
    case (DoExchange u key "from" amount)
    have "ledger_ok s' \<and> later_tables s s'" if "exchange_in_tx sha u key from amount s = Ok (s', e)" for s' e
      by (rule tables_step_ok[OF exchange_in_tx_books[OF that b] exchange_in_tx_later[OF that b] exchange_in_tx_more[OF that b] assms(1)])
    with DoExchange by_commit[of "exchange_in_tx sha u key from amount"] show ?thesis by (simp add: exchange_def)
  next
    case (DoDaily u key)
    then show ?thesis using by_commit[of "claim_daily sha um u key"] daily claim_daily_step[OF _ t] by (auto simp: rewards_step_def)
  next
    case (DoHourly u key)
    then show ?thesis using by_commit[of "claim_hourly sha um u key"] hour claim_hourly_step[OF _ t] by (auto simp: rewards_step_def)
  next
    case (DoRelief u key)
    then show ?thesis using by_commit[of "claim_relief sha um u key"] relief claim_relief_step[OF _ t] by (auto simp: rewards_step_def)
  qed
qed

lemma elsewhere_ok:
  assumes "elsewhere s s'" "ledger_ok s"
  shows "ledger_ok s' \<and> later_tables s s'"
proof -
  have same: "wallets s' = wallets s" "ledger s' = ledger s" "transactions s' = transactions s" "idempotency s' = idempotency s"
    "caps s' = caps s" "reward_keys s' = reward_keys s" "hourly_claims s' = hourly_claims s" "relief_claims s' = relief_claims s"
    using assms(1) unfolding elsewhere_def by force+
  have "treasury s' = treasury s" "hourly_ok s' = hourly_ok s"
    by (rule treasury_cong[OF same(1-5)], rule hourly_ok_cong[OF same(7)])
  moreover have "relief_spaced s' = relief_spaced s" by (simp only: relief_spaced_def same)
  moreover have "later_tables s s'" by (rule later_cong[OF same(2,3,4,6)])
  ultimately show ?thesis using assms(2) by (simp add: ledger_ok_def)
qed

lemma ledger_run_ok: "ledger_run sha um s s' \<Longrightarrow> ledger_ok s \<Longrightarrow> ledger_ok s' \<and> later_tables s s'"
  by (induction rule: ledger_run.induct) (auto dest: perform_operation_ok elsewhere_ok intro: later_trans)

end
