(* ===== verification/LedgerSamples.thy ===== *)
theory LedgerSamples
  imports RewardFacts FairSamples
begin

text \<open>
  Replays over whole runs of the ledger, and concrete tables for the witnesses: one account with
  both wallets, random bytes and instants.
\<close>

subsection \<open>Replays\<close>

lemma unique_leg:
  assumes "books s" "e \<in> set (ledger s)"
  shows "find_leg s (le_tx e) (le_leg e) = Some e"
proof -
  have "find_leg s (le_tx e) (le_leg e) \<noteq> None" unfolding find_leg_def find_None_iff using assms(2) by auto
  then obtain x where x: "find_leg s (le_tx e) (le_leg e) = Some x" by auto
  then have "x \<in> set (ledger s)" "le_tx x = le_tx e" "le_leg x = le_leg e" by (auto simp: find_leg_def dest: find_Some_mem)
  moreover have "inj_on (\<lambda>e. (le_tx e, le_leg e)) (set (ledger s))" using assms(1) by (simp add: books_def linked_def distinct_map)
  ultimately show ?thesis using x assms(2) by (auto dest: inj_onD)
qed

text \<open>The receipt of an exchange that was posted is found again, unchanged, in every later state.\<close>

lemma exchange_found:
  assumes "post_exchange u key from to amount (sha key) semantic s = Ok (s1, r)" "books s" "from \<noteq> to" "0 < amount"
    "later_tables s1 s2" "find_api_exchange sha s2 u key = None" "books s1"
  shows "find_operation sha s2 u ExchangeKind key = Ok (Some r) \<and> rt_from r = from \<and> rt_amount_units r = amount"
proof -
  from post_exchange_Ok[OF assms(1-4)] obtain f g t i e1 e2 where
    e1: "e1 = leg_entry u (tr_id t) (tr_biz_id t) 1 from f (- amount) (le_id e1)"
    and e2: "e2 = leg_entry u (tr_id t) (tr_biz_id t) 2 to g amount (le_id e2)"
    and p: "posts s t [e1, e2] i s1" and t: "tr_user t = u" "tr_operation t = ascii ''LOCAL_EXCHANGE''"
      "ir_scope i = exchange_scope" "ir_key i = sha key" "transaction_in_tx s1 u (tr_id t) = Ok r" by blast
  have e: "le_tx e1 = tr_id t" "le_leg e1 = 1" "le_asset e1 = from" "le_delta e1 = - amount"
      "le_tx e2 = tr_id t" "le_leg e2 = 2" "le_asset e2 = to"
    by (subst e1, simp | subst e2, simp)+
  have in1: "e1 \<in> set (ledger s1)" "e2 \<in> set (ledger s1)" using p by (auto simp: posts_def)
  have legs: "find_leg s1 (tr_id t) 1 = Some e1" "find_leg s1 (tr_id t) 2 = Some e2"
    using unique_leg[OF assms(7) in1(1)] unique_leg[OF assms(7) in1(2)] e by simp_all
  then have legs2: "find_leg s2 (tr_id t) 1 = Some e1" "find_leg s2 (tr_id t) 2 = Some e2"
    using later_finds(3)[OF assms(5)] by (simp_all add: find_leg_def)
  have "tr_id t \<notin> tr_id ` set (transactions s)" "transactions s1 = transactions s @ [t]" using p by (auto simp: posts_def)
  then have new: "find (\<lambda>x. tr_user x = u \<and> tr_id x = tr_id t) (transactions s) = None" and tail: "transactions s1 = transactions s @ [t]"
    by (auto simp: find_None_iff image_iff)
  have tx: "find (\<lambda>x. tr_user x = u \<and> tr_id x = tr_id t) (transactions s1) = Some t"
    using t(1) by (simp add: tail find_append new)
  note tx2 = later_finds(4)[OF assms(5) tx]
  have r: "r = receipt_of s1 t" using t(5) tx by (simp add: transaction_in_tx_def)
  have same: "receipt_of s2 t = receipt_of s1 t" unfolding receipt_of_def legs legs2 by (rule refl)
  have "find_idem s (ir_user i) (ir_scope i) (ir_key i) = None" "idempotency s1 = idempotency s @ [i]" "ir_user i = u"
      "ir_resource i = le_id e1" using p t(1) by (auto simp: posts_def)
  then have i: "find_idem s1 u exchange_scope (sha key) = Some i" using t(3,4) by (auto simp: find_idem_def find_append)
  have "find (\<lambda>e. le_id e = le_id e1) (ledger s1) = Some e1"
  proof -
    have "find (\<lambda>e. le_id e = le_id e1) (ledger s1) \<noteq> None" unfolding find_None_iff using in1(1) by auto
    then obtain x where x: "find (\<lambda>e. le_id e = le_id e1) (ledger s1) = Some x" by auto
    then have "x \<in> set (ledger s1)" "le_id x = le_id e1" by (auto dest: find_Some_mem)
    moreover have "inj_on le_id (set (ledger s1))" using assms(7) by (simp add: books_def linked_def distinct_map)
    ultimately show ?thesis using x in1(1) by (auto dest: inj_onD)
  qed
  from later_finds(3)[OF assms(5) this] later_finds(1)[OF assms(5) i]
  have "operation_tx s2 u exchange_scope (sha key) = Some (tr_id t)"
    using \<open>ir_resource i = le_id e1\<close> e by (simp add: operation_tx_def)
  moreover have "rt_kind r = ascii ''LOCAL_EXCHANGE''" by (simp add: r receipt_of_def t(2) Let_def)
  moreover have "rt_from r = from" "rt_amount_units r = amount"
    using assms(4) unfolding r receipt_of_def legs by (simp_all add: e Let_def)
  ultimately show ?thesis
    using assms(6) tx2 same r
    by (simp add: find_operation_def operation_scope_def transaction_in_tx_def)
qed

text \<open>In order, a wallet is the sum of its entries.\<close>

lemma account_balance:
  assumes "ledger_ok s"
  shows "balance_of s u a = sum_list (map le_delta (wallet_ledger s u a)) \<and> 0 \<le> balance_of s u a \<and> balance_of s u a \<le> max_int64"
proof -
  have "account_ok (wallets s (u, a)) (wallet_ledger s u a)" using assms by (simp add: ledger_ok_def treasury_def books_account)
  then show ?thesis by (auto simp: account_ok_def balance_of_def split: option.splits)
qed

subsection \<open>Concrete tables\<close>

definition sample_draw :: "byte \<Rightarrow> byte list \<times> 64 word" where
  "sample_draw b = (replicate 15 0 @ [b], 5)"

definition sample_id :: "byte \<Rightarrow> byte list" where
  "sample_id b = uuid_text (uuid_bytes_of (replicate 15 0 @ [b]) 5)"

lemma sample_ids: "distinct (map sample_id [1, 2, 3, 4, 5, 6, 7, 8])"
  by code_simp

lemma sample_id_eq [simp]:
  "a \<in> set [1, 2, 3, 4, 5, 6, 7, 8] \<Longrightarrow> b \<in> set [1, 2, 3, 4, 5, 6, 7, 8] \<Longrightarrow> sample_id a = sample_id b \<longleftrightarrow> a = b"
  using sample_ids unfolding distinct_map by (auto dest: inj_onD)

lemma sample_uuid_v7 [simp]: "entropy s = sample_draw b # r \<Longrightarrow> uuid_v7 s = Ok (sample_id b, s\<lparr>entropy := r\<rparr>)"
  by (simp add: uuid_v7_def sample_draw_def sample_id_def)

definition sample_key :: "byte list" where
  "sample_key = ascii ''0188a4f0-1c2d-7e3f-8a4b-5c6d7e8f9a0b''"

definition sample_hash :: "byte list" where "sample_hash = sample_sha sample_key"

definition zero_wallet :: wallet_row where
  "zero_wallet = \<lparr>wr_balance = 0, wr_seq = 0, wr_version = 1\<rparr>"

definition sample_tables :: reward_tables where
  "sample_tables =
     \<lparr>accounts = [7],
      wallets = [(7, ReserveApiCredit) \<mapsto> zero_wallet, (7, AvailableChips) \<mapsto> zero_wallet],
      ledger = [], transactions = [], idempotency = [], reward_keys = [], api_exchanges = [], maintenance = [],
      entropy = map sample_draw [1, 2, 3, 4, 5, 6, 7, 8], policies = [], active_policy = [], caps = [],
      poker_assets = (\<lambda>_. (0, 0, True)), local_assets = (\<lambda>_. (0, 0, True)),
      clock = [1700000000000000000, 1700000001000000000], checkins = [], hourly_claims = [], relief_claims = []\<rparr>"

definition sample_mutation :: mutation where
  "sample_mutation = \<lparr>mu_user = 7, mu_asset = AvailableChips, mu_delta = 900, mu_type = ascii ''TOPUP'', mu_id = ascii ''t-1'',
     mu_entry = ascii ''TOPUP'', mu_key = sample_key\<rparr>"

definition no_json :: "byte list \<Rightarrow> economic_policy option" where "no_json _ = None"

lemma sample_books: "ledger_ok sample_tables"
proof -
  have "account_ok (wallets sample_tables (u, a)) (wallet_ledger sample_tables u a)" for u a
    by (simp add: account_ok_def sample_tables_def wallet_ledger_def zero_wallet_def)
  moreover have "linked sample_tables" by (simp add: linked_def sample_tables_def)
  moreover have "hourly_ok sample_tables" "relief_spaced sample_tables"
    by (simp_all add: hourly_ok_def relief_spaced_def sample_tables_def claims_today_def)
  ultimately show ?thesis by (simp add: ledger_ok_def treasury_def books_def) (simp add: sample_tables_def)
qed

lemma sample_sorted: "sorted (clock sample_tables)"
  by (simp add: sample_tables_def)

lemma sample_key_ok: "valid_operation_key sample_key" "valid_mutation sample_mutation"
  by code_simp+

lemma sample_sha_length [simp]: "length (sample_sha m) = 32"
  by (simp add: sample_sha_def)

text \<open>The tables after one accepted mutation of 900 chips.\<close>

definition sample_row :: tx_row where
  "sample_row = \<lparr>tr_id = sample_id 1, tr_biz_type = ascii ''TOPUP'', tr_biz_id = ascii ''t-1'', tr_user = 7,
     tr_operation = ascii ''TOPUP'', tr_request = sample_sha (canonical_mutation sample_mutation)\<rparr>"

definition sample_entry :: ledger_entry where
  "sample_entry = \<lparr>le_id = sample_id 2, le_tx = sample_id 1, le_leg = 1, le_user = 7, le_asset = AvailableChips, le_seq = 1,
     le_version = 2, le_entry = ascii ''TOPUP'', le_biz_type = ascii ''TOPUP'', le_biz_id = ascii ''t-1'', le_delta = 900,
     le_before = 0, le_after = 900\<rparr>"

definition topped_up :: reward_tables where
  "topped_up = sample_tables\<lparr>wallets := (wallets sample_tables)((7, AvailableChips) \<mapsto> \<lparr>wr_balance = 900, wr_seq = 1, wr_version = 2\<rparr>),
     ledger := [sample_entry], transactions := [sample_row],
     idempotency := [\<lparr>ir_id = sample_id 3, ir_user = 7, ir_scope = wallet_scope, ir_key = sample_hash,
       ir_request = sample_sha (canonical_mutation sample_mutation), ir_resource = sample_id 2\<rparr>],
     entropy := map sample_draw [4, 5, 6, 7, 8]\<rparr>"

lemmas ledger_evaluates = apply_in_tx_def mutation_hashes_def lock_economy_users_def guardr_def reserved_key_def find_idem_def
  find_transaction_def post_entry_def insert_transaction_def update_wallet_def insert_entry_def entry_ok_def
  insert_idempotency_def insert_record_def zero_wallet_def Let_def

lemma sample_applied: "apply_in_tx sample_sha sample_mutation sample_tables = Ok (topped_up, sample_entry)"
proof -
  have f: "mu_user sample_mutation = 7" "mu_asset sample_mutation = AvailableChips" "mu_delta sample_mutation = 900"
    "mu_type sample_mutation = ascii ''TOPUP''" "mu_id sample_mutation = ascii ''t-1''" "mu_entry sample_mutation = ascii ''TOPUP''"
    "mu_key sample_mutation = sample_key" by (simp_all add: sample_mutation_def)
  show ?thesis
    by (simp add: ledger_evaluates sample_key_ok f sample_tables_def topped_up_def sample_row_def sample_entry_def sample_hash_def)
qed

lemma topped_up_run: "ledger_run sample_sha no_json sample_tables topped_up"
  using ledger_run.operate[OF ledger_run.start sample_sorted, of sample_sha no_json "DoApply sample_mutation"]
  by (simp add: apply_mutation_def commit_tx_def sample_applied sample_key_ok)

lemma topped_up_ok: "ledger_ok topped_up"
  using ledger_run_ok[OF topped_up_run sample_books] by simp

lemma topped_up_chips: "balance_of topped_up 7 AvailableChips = 900" "balance_of topped_up 7 ReserveApiCredit = 0"
  by (simp_all add: balance_of_def topped_up_def sample_tables_def zero_wallet_def)

text \<open>An exchange of 300 of the chips, and two claims of the daily reward.\<close>

lemma sample_exchange_new: "find_operation sample_sha topped_up 7 ExchangeKind sample_key = Ok None"
proof -
  have "exchange_scope \<noteq> wallet_scope" by code_simp
  then show ?thesis
    by (simp add: find_operation_def find_api_exchange_def operation_tx_def operation_scope_def find_idem_def topped_up_def sample_tables_def)
qed

lemma sample_exchange: "\<exists>s r. exchange_in_tx sample_sha 7 sample_key AvailableChips 300 topped_up = Ok (s, r)"
proof -
  have scopes: "exchange_scope \<noteq> wallet_scope" by code_simp
  have kinds: "ascii ''LOCAL_EXCHANGE'' \<noteq> ascii ''TOPUP''" by code_simp
  have none: "find_operation sample_sha topped_up 7 ExchangeKind sample_key = Ok None" by (rule sample_exchange_new)
  have "\<exists>s r. post_exchange 7 sample_key AvailableChips ReserveApiCredit 300 sample_hash sem topped_up = Ok (s, r)"
    if "length sem = 32" for sem
    using scopes kinds that
    by (simp add: post_exchange_def exchange_leg_def ledger_evaluates topped_up_def sample_tables_def sample_row_def sample_entry_def
        transaction_in_tx_def sample_hash_def)
  then show ?thesis
    using none by (simp add: exchange_in_tx_def sample_key_ok valid_asset_def require_no_maintenance_def guardr_def other_asset_def sample_hash_def)
      (simp add: topped_up_def sample_tables_def)
qed

definition second_key :: "byte list" where
  "second_key = replicate 8 48 @ [45] @ replicate 4 48 @ [45] @ replicate 4 48 @ [45] @ replicate 4 48 @ [45] @ replicate 12 48"

definition prefix_sha :: "byte list \<Rightarrow> byte list" where
  "prefix_sha m = take 32 (m @ replicate 32 0)"

lemma prefix_sha_length [simp]: "length (prefix_sha m) = 32"
  by (simp add: prefix_sha_def)

definition sample_day :: string where "sample_day = fst (shanghai_day 1700000000000000000)"

lemma sample_day_facts:
  "valid_mutation (daily_mutation 7 sample_day sample_key)" "valid_mutation (daily_mutation 7 sample_day second_key)"
  "fst (shanghai_day 1700000001000000000) = sample_day" "valid_operation_key second_key" "prefix_sha sample_key \<noteq> prefix_sha second_key"
  by code_simp+

text \<open>Without an active policy a reward is a mutation of the ledger.\<close>

lemma reward_without_policy:
  assumes "active_policy s = []" "reward_keys s = []" "caps s = []" "valid_mutation m" "0 < mu_user m"
  shows "apply_reward sha um m s = apply_in_tx sha m s"
  using assms by (simp add: apply_reward_def lock_economy_users_def mutation_hashes_def guardr_def reserved_key_def load_cap_def
      current_policy_def resolve_policy_def no_policy_def)

definition daily_row :: tx_row where
  "daily_row = \<lparr>tr_id = sample_id 1, tr_biz_type = ascii ''DAILY_REWARD_V1'',
     tr_biz_id = ascii ''daily:'' @ int_text 7 @ [58] @ ascii sample_day, tr_user = 7, tr_operation = ascii ''DAILY_REWARD'',
     tr_request = prefix_sha (canonical_mutation (daily_mutation 7 sample_day sample_key))\<rparr>"

definition daily_entry :: ledger_entry where
  "daily_entry = \<lparr>le_id = sample_id 2, le_tx = sample_id 1, le_leg = 1, le_user = 7, le_asset = ReserveApiCredit, le_seq = 1,
     le_version = 2, le_entry = ascii ''DAILY_REWARD'', le_biz_type = ascii ''DAILY_REWARD_V1'',
     le_biz_id = ascii ''daily:'' @ int_text 7 @ [58] @ ascii sample_day, le_delta = daily_amount, le_before = 0,
     le_after = daily_amount\<rparr>"

definition after_daily :: reward_tables where
  "after_daily = sample_tables\<lparr>wallets := (wallets sample_tables)((7, ReserveApiCredit) \<mapsto>
       \<lparr>wr_balance = daily_amount, wr_seq = 1, wr_version = 2\<rparr>),
     ledger := [daily_entry], transactions := [daily_row],
     idempotency := [\<lparr>ir_id = sample_id 3, ir_user = 7, ir_scope = wallet_scope, ir_key = prefix_sha sample_key,
       ir_request = tr_request daily_row, ir_resource = sample_id 2\<rparr>],
     entropy := map sample_draw [4, 5, 6, 7, 8], clock := [1700000001000000000],
     checkins := [\<lparr>ck_user = 7, ck_date = sample_day, ck_amount = daily_amount, ck_tx = sample_id 1\<rparr>]\<rparr>"

lemma sample_daily_applied:
  "apply_in_tx prefix_sha (daily_mutation 7 sample_day sample_key) (sample_tables\<lparr>clock := c\<rparr>) =
     Ok (after_daily\<lparr>clock := c, checkins := []\<rparr>, daily_entry)"
  using sample_day_facts(1)
  by (simp add: ledger_evaluates sample_tables_def after_daily_def daily_row_def daily_entry_def daily_amount_def)
    (simp add: daily_mutation_def)

lemma sample_daily: "\<exists>r. claim_daily prefix_sha no_json 7 sample_key sample_tables = Ok (after_daily, r)"
proof -
  have "find_operation prefix_sha sample_tables 7 DailyKind sample_key = Ok None" "require_no_maintenance [''CHALDEA_USER_WRITES'', ''REWARDS''] sample_tables = Ok ()"
    "read_clock sample_tables = Ok (1700000000000000000, sample_tables\<lparr>clock := [1700000001000000000]\<rparr>)"
    by (simp_all add: find_operation_def operation_tx_def operation_scope_def find_idem_def reserved_key_def sample_tables_def
      require_no_maintenance_def guardr_def read_clock_def)
  moreover have "apply_reward prefix_sha no_json (daily_mutation 7 sample_day sample_key) (sample_tables\<lparr>clock := [1700000001000000000]\<rparr>) =
     Ok (after_daily\<lparr>clock := [1700000001000000000], checkins := []\<rparr>, daily_entry)"
    by (subst reward_without_policy[OF _ _ _ sample_day_facts(1)]) (simp_all add: sample_daily_applied, simp_all add: sample_tables_def)
  ultimately show ?thesis
    by (simp add: claim_daily_def sample_key_ok flip: sample_day_def)
      (simp add: insert_checkin_def known_tx_def transaction_in_tx_def after_daily_def daily_row_def daily_entry_def sample_tables_def daily_amount_def)
qed

lemma sample_daily_again: "\<exists>s r. claim_daily prefix_sha no_json 7 second_key after_daily = Ok (s, r)"
proof -
  have none: "find_operation prefix_sha after_daily 7 DailyKind second_key = Ok None" "require_no_maintenance [''CHALDEA_USER_WRITES'', ''REWARDS''] after_daily = Ok ()"
    "read_clock after_daily = Ok (1700000001000000000, after_daily\<lparr>clock := []\<rparr>)"
    using sample_day_facts(5)
    by (simp_all add: find_operation_def operation_tx_def operation_scope_def find_idem_def reserved_key_def after_daily_def sample_tables_def
      require_no_maintenance_def guardr_def read_clock_def)
  have same: "canonical_mutation (daily_mutation 7 sample_day second_key) = canonical_mutation (daily_mutation 7 sample_day sample_key)"
    by (simp add: canonical_mutation_def daily_mutation_def)
  have "\<exists>i r. apply_in_tx prefix_sha (daily_mutation 7 sample_day second_key) (after_daily\<lparr>clock := []\<rparr>) =
      Ok (after_daily\<lparr>clock := [], idempotency := idempotency after_daily @ [i], entropy := r\<rparr>, daily_entry)"
    using sample_day_facts(2,5)
    by (simp add: ledger_evaluates same sample_tables_def after_daily_def daily_row_def daily_entry_def daily_amount_def)
  moreover have "apply_reward prefix_sha no_json (daily_mutation 7 sample_day second_key) (after_daily\<lparr>clock := []\<rparr>) =
      apply_in_tx prefix_sha (daily_mutation 7 sample_day second_key) (after_daily\<lparr>clock := []\<rparr>)"
    by (rule reward_without_policy[OF _ _ _ sample_day_facts(2)]) (simp_all add: after_daily_def sample_tables_def)
  ultimately obtain i r where "apply_reward prefix_sha no_json (daily_mutation 7 sample_day second_key) (after_daily\<lparr>clock := []\<rparr>) =
      Ok (after_daily\<lparr>clock := [], idempotency := idempotency after_daily @ [i], entropy := r\<rparr>, daily_entry)"
    by auto
  with none show ?thesis
    by (simp add: claim_daily_def sample_day_facts(3,4))
      (simp add: insert_checkin_def transaction_in_tx_def after_daily_def daily_row_def daily_entry_def sample_tables_def)
qed

end
