(* ===== verification/Spec2Isabelle.thy ===== *)
theory Spec2Isabelle
  imports PokerSamples RouletteSamples LedgerSamples
begin

text \<open>
  A verification library for momiao, a Go server of casino games over a wallet ledger. The
  program consists of a ledger that holds all money (\<open>internal/platform\<close>), the games that
  decide what a stake pays (\<open>internal/poker\<close>, \<open>internal/games\<close>, \<open>internal/roulette\<close>), provably
  fair random streams from which every game draws (\<open>games/fairness\<close>, \<open>poker/fairness\<close>,
  \<open>roulette/fairness.go\<close>), and services that load a game's state from PostgreSQL, apply one
  pure operation to it, write it back with its money movements and publish a view. The
  library models the pure cores and the money arithmetic; all paths below are under \<open>src/\<close>.

  How the model reads. A Go function with an error result returns \<open>('e, 'a) res\<close>: \<open>Ok v\<close>,
  \<open>Fail e\<close>, or \<open>Hang\<close> for a loop that does not end, so that returning is something to prove.
  A struct is a record, an enumeration a datatype, a method that mutates its receiver a
  function from the old to the new record; on an error the caller keeps the old state, which is
  what the source's copy-then-assign does. 64-bit amounts are \<open>int\<close> with every range test of the
  source written out (\<open>max_int64\<close>); words are used where the code computes with wrap-around or
  bits. An index or slice out of bounds is an error value of its own. Instants are
  nanoseconds. SHA-256, HMAC-SHA-256 and the samplers are arguments of the definitions; what is
  relied upon is a named hypothesis (\<open>hmac_ok\<close>: a MAC has 32 bytes) or a locale.

  Theories and the code they model:
  \<^item> \<open>Prelude\<close>: results, machine bounds, decimal printing, list updates.
  \<^item> \<open>Fairness\<close>, \<open>StreamFacts\<close>, \<open>Shuffle\<close>: \<open>internal/games/fairness/fairness.go\<close> and the
    Fisher-Yates loops of all packages. The key stream is HMAC in counter mode whatever the
    reads; rejection sampling is uniform; a shuffle is a permutation, and reaches each
    arrangement by exactly one sequence of draws. Locales \<open>sampler\<close>, \<open>returning_sampler\<close>.
  \<^item> \<open>PokerFairness\<close>: \<open>internal/poker/fairness/fairness.go\<close>, the effective client seed of a hand and
    the frozen deck.
  \<^item> \<open>PokerRank\<close>, \<open>PokerRankFacts\<close>: \<open>internal/poker/engine/evaluate.go\<close> and the button of
    \<open>rules.go\<close>; five cards get the category and tie-break of the rules of poker, stated on the set
    of cards alone, and the best five of seven are optimal in a total order.
  \<^item> \<open>PokerState\<close>, \<open>PokerEngine\<close>: \<open>internal/poker/engine/engine.go\<close>, the hand as a state
    machine. \<open>PokerFacts\<close>, \<open>PokerPlay\<close>, \<open>PokerAward\<close>: chips are conserved by every operation, a
    validated hand stays validated, side pots pay exactly what was committed, actions move
    only the actor's chips, replays change nothing, the loops return (\<open>runout\<close> and \<open>progress_loop\<close> have no
    bound in the source; their fuel, 3 and 4, is what the streets left in a hand need).
    \<open>PokerRun\<close>: whole runs of a hand from \<open>new_hand\<close> on (\<open>hand_reach\<close>): the cards on the table are those
    the frozen deck has at their places, and an automatic action puts nothing into the pot.
  \<^item> \<open>Blackjack\<close>, \<open>BlackjackFacts\<close>: \<open>internal/games/blackjack\<close>, a round over an explicit 312-card shoe.
    Hands partition the cards drawn, no step overflows 64 bits, offered actions are accepted,
    recorded actions replay to the same state, and the dealer's hole card stays hidden.
    \<open>auto_loop\<close> has fuel, the number of hands: each iteration stands one hand.
  \<^item> \<open>Slot\<close>, \<open>SlotFacts\<close>, \<open>SlotReturn\<close>: \<open>internal/games/slot/slot.go\<close>; exact return and largest win of the
    three frozen configurations, computed without enumerating the \<open>32 ^ 5\<close> stops.
  \<^item> \<open>DirectGames\<close>, \<open>DirectFacts\<close>: \<open>dice.go\<close>, \<open>scratch.go\<close>, \<open>summon.go\<close>, \<open>config.go\<close> of \<open>internal/games\<close>.
  \<^item> \<open>Roulette\<close>, \<open>Devil\<close>, \<open>DevilFacts\<close>, \<open>Pressure\<close>, \<open>PressureFacts\<close>: the two roulette games of
    \<open>internal/roulette\<close> as step functions, their invariants by induction over reachable
    states, and that no offered action is rejected and no step panics: a step fails only with an
    error of the random source itself, which \<open>rule_sampler\<close> tells from a draw out of range.
  \<^item> \<open>Amount\<close>: \<open>internal/platform/amount.go\<close>, decimal amounts to units of half a millionth and back, in the
    source's 64-bit unsigned arithmetic.
  \<^item> \<open>Ledger\<close>, \<open>LedgerFacts\<close>: \<open>internal/platform/store.go\<close>, the exchange and the receipts of \<open>economy.go\<close>,
    \<open>wallets.go\<close>, \<open>maintenance.go\<close>. The tables are lists of rows and the wallets a map; each
    statement is an operation on them that fails where a key or check of the schema
    (\<open>migrations/0001_wallet.sql\<close>) would. \<open>books\<close> is the invariant; mutations and exchanges keep
    it, do what they say, and replay.
  \<^item> \<open>Economy\<close>, \<open>EconomyFacts\<close>: \<open>economy_policy.go\<close> and \<open>unified_assets.go\<close>, the cap on payouts and rewards
    under it, which are paid once for a business identity.
  \<^item> \<open>Rewards\<close>, \<open>RewardFacts\<close>: \<open>rewards.go\<close> and the daily part of \<open>economy.go\<close> with the calendar of
    Asia/Shanghai; runs of the ledger as an inductive relation over all its operations.
  \<^item> \<open>FairSamples\<close>, \<open>PokerSamples\<close>, \<open>GameSamples\<close>, \<open>RouletteSamples\<close>, \<open>LedgerSamples\<close>: concrete rounds and
    tables, for the witnesses.
  \<^item> this theory: the properties, C1 to C40, by component.

  Interfaces between components are locales, each interpreted on the model's own definitions:
  \<open>sampler\<close>, \<open>returning_sampler\<close> and \<open>rule_sampler\<close> (what shuffles and roulette rules need of the
  streams), \<open>returning_evaluator\<close> and \<open>sound_evaluator\<close> (what the hand engine needs of the evaluator),
  \<open>strict_order\<close> (sorting of seats and of groups of ranks), \<open>line_table\<close> (what the slot machine
  needs of a configuration).

  Not modelled: HTTP and WebSocket handlers, JSON transport, process start-up, configuration
  and metrics (\<open>cmd/momiao\<close>, \<open>internal/relay\<close>, \<open>internal/poker/transport\<close>), which have no logic of
  their own beyond I/O; the stores of games, poker and roulette, lobby, history, rankings and
  operations pages, whose behaviour is that of SQL queries; of the ledger's transactions the
  locks, isolation and clean-up, for a transaction is one atomic step; goroutines, leases and
  timers around the pure cores (poker actor, roulette worker, bots); AES-GCM sealing of seeds,
  which is a library; the canonical JSON of game states.
\<close>

section \<open>The poker hand\<close>

text \<open>C1: an accepted action on a validated hand conserves the chips on the table, leaves a
  validated hand, only appends to the event log and books a receipt for the appended events.\<close>

theorem apply_action_sound:
  assumes "apply_action ev a now s = Ok (s', r)" "validate_state s" "\<not> rs_duplicate r"
  shows "chips s' = chips s \<and> validate_state s' \<and> grows s s' \<and> length (events s) < length (events s') \<and>
    rs_events r = drop (length (events s)) (events s') \<and> cfg s' = cfg s \<and>
    map seat_no (players s') = map seat_no (players s) \<and>
    receipts s' = receipts s @ [\<lparr>rc_action = a, rc_first = length (events s), rc_last = length (events s')\<rparr>]"
proof -
  have "apply_checked ev a now False s = Ok (s', r)"
    using assms(1,3) by (auto simp: apply_action_def split: option.splits if_splits)
  from apply_checked_kept[OF this assms(2)] show ?thesis by blast
qed

lemma apply_action_sound_witness: "\<exists>t. chips t = chips sample_hand \<and> validate_state t \<and> grows sample_hand t"
  using sample_all_in apply_action_sound[OF _ sample_valid] by blast

text \<open>C2: settlement conserves chips, closes the hand with nothing left committed, and its pots
  add up to exactly what the seats had committed once the uncalled top was returned.\<close>

theorem settle_conserves:
  assumes "settle ev now s = Ok s'" "table_ok s"
  shows "chips s' = chips s \<and> street s' = Settled \<and> actor s' = 0 \<and> table_ok s' \<and>
    (\<forall>p\<in>set (players s'). total_committed p = 0 \<and> street_committed p = 0 \<and> \<not> pending p) \<and>
    (\<exists>t ps. showdown ev now (return_uncalled now s) = Ok t \<and> pots s' = pots s @ ps \<and>
       sum_list (map pot_amount ps) = current_pot t)"
  by (rule settle_Ok[OF assms]) blast

lemma settle_conserves_witness: "\<exists>t. chips t = 305 * units_per_chip \<and> street t = Settled"
proof -
  have "table_ok sample_table" by code_simp
  moreover have "case settle evaluate_hand 5 sample_table of Ok t \<Rightarrow> True | _ \<Rightarrow> False" by code_simp
  then obtain t where "settle evaluate_hand 5 sample_table = Ok t" by (auto split: res.splits)
  moreover have "chips sample_table = 305 * units_per_chip" by code_simp
  ultimately show ?thesis using settle_conserves by metis
qed

text \<open>C3: a pot goes, to the last chip, to exactly the eligible seats with the best rank, each once,
  in whole chips, and no winner gets more than one chip more than another.\<close>

theorem award_pot_shares:
  assumes "award_pot level previous now s = Ok s'" "whole_units level" "whole_units previous"
    "previous < level" "distinct (map seat_no (players s))"
  shows "\<exists>po. pots s' = pots s @ [po] \<and> pot_amount po = pot_layer level previous (players s) \<and>
    0 < pot_amount po \<and> chips s' = chips s + pot_amount po \<and>
    set (map aw_seat (pot_awards po)) = {x \<in> set (eligible_seats level (players s)).
       \<forall>y\<in>set (eligible_seats level (players s)). rank_vector s y \<le> rank_vector s x} \<and>
    distinct (map aw_seat (pot_awards po)) \<and> sum_list (map aw_amount (pot_awards po)) = pot_amount po \<and>
    (\<forall>x\<in>set (pot_awards po). whole_units (aw_amount x) \<and>
       (\<forall>y\<in>set (pot_awards po). aw_amount x \<le> aw_amount y + units_per_chip))"
  by (rule award_pot_fair[OF assms]) blast

lemma award_pot_shares_witness:
  "\<exists>t. award_pot (5 * units_per_chip) 0 9 sample_table = Ok t \<and> chips t = chips sample_table + 15 * units_per_chip"
proof -
  have "case award_pot (5 * units_per_chip) 0 9 sample_table of Ok t \<Rightarrow> True | _ \<Rightarrow> False" by code_simp
  then obtain t where t: "award_pot (5 * units_per_chip) 0 9 sample_table = Ok t" by (auto split: res.splits)
  have h: "whole_units (5 * units_per_chip)" "whole_units 0" "0 < 5 * units_per_chip"
    "distinct (map seat_no (players sample_table))" "pot_layer (5 * units_per_chip) 0 (players sample_table) = 15 * units_per_chip"
    by code_simp+
  from award_pot_shares[OF t h(1-4)] t show ?thesis by (metis h(5))
qed

text \<open>C4: the winners of a pot are served clockwise from the seat left of the button, so that the
  odd chips go to the first seats in that order and the button comes last.\<close>

theorem odd_chips_clockwise:
  assumes "distinct winners" "\<forall>a\<in>set winners. 1 \<le> a \<and> a \<le> 9" "1 \<le> button" "button \<le> 9"
  shows "sorted (map (clockwise button) (from_button button winners)) \<and>
    mset (from_button button winners) = mset winners"
  using from_button_clockwise[OF assms] by simp

lemma odd_chips_clockwise_witness: "sorted (map (clockwise 4) (from_button 4 [2, 4, 7]))"
  using odd_chips_clockwise[of "[2, 4, 7]" 4] by simp

text \<open>C5: a new hand is valid and puts on the table exactly the stacks of its seats, in seat order.\<close>

theorem new_hand_sound:
  assumes "new_hand c ts now ev = Ok s"
  shows "validate_state s \<and> cfg s = c \<and> chips s = sum_list (map stack ts) \<and> initial_total s = chips s \<and>
    map seat_no (players s) = sort (map seat_no ts)"
  by (rule new_hand_Ok[OF assms])

lemma new_hand_sound_witness: "chips sample_hand = 200 * units_per_chip"
  using new_hand_sound[OF sample_new] by (simp add: sample_seats_def sample_seat_def)

text \<open>C6: a legal action moves a whole number of chips, at most the actor's stack, and never takes
  chips back; the other seats' chips and status stay as they are.\<close>

theorem action_pays_from_stack:
  assumes "validate_state s" "street s \<noteq> Settled" "player s (actor s) = Some p"
    "act_kind a \<in> set (lg_actions (legal_actions s))"
    "action_target (legal_actions s) p a = Some target" "whole_units (act_to a)"
  shows "whole_units (target - street_committed p) \<and> target - street_committed p \<le> stack p \<and>
    map (\<lambda>p. (seat_no p, stack p, total_committed p, folded p))
      (filter (\<lambda>p. seat_no p \<noteq> act_seat a) (players (perform a target (target - street_committed p) now timeout s)))
    = map (\<lambda>p. (seat_no p, stack p, total_committed p, folded p))
      (filter (\<lambda>p. seat_no p \<noteq> act_seat a) (players s))"
  using action_delta[OF assms] perform_others by blast

lemma action_pays_from_stack_witness:
  "\<exists>p. player sample_hand (actor sample_hand) = Some p \<and> whole_units (stack p)"
proof -
  have ok: "street sample_hand \<noteq> Settled" "AllIn \<in> set (lg_actions (legal_actions sample_hand))"
    using sample_ok by (auto simp: sample_checks_def)
  obtain p where p: "player sample_hand (actor sample_hand) = Some p"
    using sample_ok by (auto simp: sample_checks_def)
  have "action_target (legal_actions sample_hand) p (sample_action AllIn) = Some (street_committed p + stack p)"
    "act_kind (sample_action AllIn) = AllIn" "whole_units (act_to (sample_action AllIn))"
    by (simp_all add: action_target_def sample_action_def whole_units_def)
  then have "whole_units (street_committed p + stack p - street_committed p)"
    using action_pays_from_stack[OF sample_valid ok(1) p] ok(2) by metis
  then show ?thesis using p by simp
qed

text \<open>C7: replaying an accepted action answers with the same events, marked as a duplicate, and
  changes nothing; the same identifier with another content is a conflict.\<close>

theorem replay_idempotent:
  assumes "apply_action ev a now s = Ok (s', r)" "\<not> rs_duplicate r" "validate_state s"
  shows "apply_action ev a later s' = Ok (s', \<lparr>rs_version = version s', rs_events = rs_events r,
           rs_duplicate = True, rs_noop = False\<rparr>) \<and>
    (\<forall>b. act_id b = act_id a \<and> b \<noteq> a \<longrightarrow> apply_action ev b later s' = Fail ErrConflict)"
  using apply_action_replay[OF assms] apply_action_conflict[OF assms(1,3,2)] by blast

lemma replay_idempotent_witness:
  "\<exists>t r. apply_action evaluate_hand (sample_action AllIn) 99 t = Ok (t, r) \<and> rs_duplicate r"
proof -
  obtain t r where "apply_action evaluate_hand (sample_action AllIn) 2 sample_hand = Ok (t, r)" "\<not> rs_duplicate r"
    using sample_all_in by blast
  from replay_idempotent[OF this sample_valid, of 99] show ?thesis
    by (intro exI[of _ t] exI conjI) (rule conjunct1, assumption, simp)
qed

text \<open>C8: the engine's operations return with the standard evaluator: the loop of
  \<open>progress\<close> ends on every hand in play, and so do a new hand, an action and a timeout.\<close>

theorem engine_returns:
  assumes "validate_state s"
  shows "apply_action evaluate_hand a now s \<noteq> Hang \<and> timeout_action evaluate_hand n now s \<noteq> Hang \<and>
    new_hand c ts now evaluate_hand \<noteq> Hang"
  using standard.operations_return[OF assms] standard.new_hand_returns by blast

lemma engine_returns_witness: "apply_action evaluate_hand (sample_action Fold) 3 sample_hand \<noteq> Hang"
  using engine_returns[OF sample_valid] by blast

text \<open>C9: a timeout does something exactly when it is due - the hand is in play and not frozen, the
  turn is the one the timer was set for and its deadline has come - and otherwise leaves the hand as
  it is. Then it checks where checking is free and folds otherwise, and moves no chip: the action it
  logs pays nothing, nobody else folds, while the hand goes on every stack and every commitment is as
  before, and when the hand ends with it the pots and returns hold exactly what the seats had
  committed before.\<close>

theorem timeout_moves_no_chip:
  assumes "timeout_action ev n now s = Ok (s', r)" "validate_state s"
    "kind = (if lg_to_call (legal_actions s) = 0 then Check else Fold)"
    "due \<longleftrightarrow> street s \<noteq> Settled \<and> recovery_until s = None \<and> n = action_seq s \<and> deadline s \<le> now"
  shows "rs_noop r = (\<not> due) \<and> (\<not> due \<longrightarrow> s' = s) \<and>
    (due \<longrightarrow>
      (let e = events s' ! length (events s) in ev_type e = AutoActed kind \<and> ev_seat e = actor s \<and> ev_delta e = 0) \<and>
      map folded (players s') = map (\<lambda>p. folded p \<or> kind = Fold \<and> seat_no p = actor s) (players s) \<and>
      chips s' = chips s \<and> pot_total s' = pot_total s \<and>
      (street s' \<noteq> Settled \<longrightarrow> map stack (players s') = map stack (players s) \<and>
         map total_committed (players s') = map total_committed (players s)))"
proof -
  note act = timeout_due[OF assms(1), folded assms(4)]
  show ?thesis
  proof (cases due)
    case True
    then have "\<not> rs_noop r" using act by blast
    from timeout_idle[OF assms(1) this assms(2)] show ?thesis
      using act True unfolding assms(3) Let_def by (intro conjI impI) blast+
  qed (use act in blast)
qed

lemma timeout_moves_no_chip_witness:
  "\<exists>t r. timeout_action evaluate_hand 1 (1 + decision_window) sample_hand = Ok (t, r) \<and>
    pot_total t = pot_total sample_hand \<and> chips t = chips sample_hand"
proof -
  obtain t r where t: "timeout_action evaluate_hand 1 (1 + decision_window) sample_hand = Ok (t, r)" "\<not> rs_noop r"
    using sample_timeout by blast
  from timeout_moves_no_chip[OF t(1) sample_valid refl refl] t show ?thesis by blast
qed

text \<open>C10: recovery freezes a hand for thirty seconds: meanwhile actions are refused and timeouts do
  nothing; resuming restores the actor, a fresh decision window and the seats as they were.\<close>

theorem recovery_freezes_hand:
  assumes "begin_recovery now s = Ok (s1, r1)" "\<not> rs_noop r1" "now + decision_window \<le> later"
  shows "apply_checked ev a t timeout s1 = Fail ErrRecovering \<and> timeout_action ev n t s1 = Ok (s1, noop s1) \<and>
    (t < now + decision_window \<longrightarrow> resume t s1 = Ok (s1, noop s1)) \<and>
    (\<exists>s2 r2. resume later s1 = Ok (s2, r2) \<and> recovery_until s2 = None \<and> players s2 = players s \<and>
      actor s2 = actor s \<and> deadline s2 = later + decision_window \<and> action_seq s2 = action_seq s + 1 \<and>
      length (events s2) = length (events s) + 3)"
proof -
  have "recovery_until s1 \<noteq> None"
    using assms(1,2) by (auto simp: begin_recovery_def noop_def emit_def Let_def split: if_splits)
  then show ?thesis using recovery_freezes recovery_round_trip[OF assms] by simp
qed

lemma recovery_freezes_hand_witness:
  "\<exists>t r. begin_recovery 7 sample_table = Ok (t, r) \<and> timeout_action evaluate_hand 0 8 t = Ok (t, noop t)"
proof -
  have "case begin_recovery 7 sample_table of Ok (t, r) \<Rightarrow> \<not> rs_noop r | _ \<Rightarrow> False" by code_simp
  then obtain t r where t: "begin_recovery 7 sample_table = Ok (t, r)" "\<not> rs_noop r"
    by (auto split: res.splits)
  from recovery_freezes_hand[OF t, of "7 + decision_window"] t show ?thesis by blast
qed

text \<open>C11: in every run of a hand - dealt by \<open>new_hand\<close>, then actions, timeouts, connections and recoveries
  in any order - seat i holds cards i and n + i of the frozen deck, the board is the stretch of the
  deck behind the n seats' two cards, as long as the street has it (0, 3, 4, 5), and the next card is
  the one right after. No check of the result is needed for it: whatever \<open>progress\<close> makes of an action
  on a hand in play, before validation, follows the deck as well.\<close>

theorem board_follows_deck:
  assumes "hand_reach ev s"
  shows "follows_deck s \<and>
    (street s \<noteq> Settled \<longrightarrow> (\<forall>after target delta t. progress ev after now (perform a target delta now timeout s) = Ok t \<longrightarrow> follows_deck t))"
  using hand_reach_follows[OF assms] perform_follows by blast

lemma board_follows_deck_witness: "follows_deck sample_hand \<and> board sample_hand = [] \<and> deck_cursor sample_hand = 4"
proof -
  have "hand_reach evaluate_hand sample_hand" using sample_new by (rule hand_reach.opened)
  then have "follows_deck sample_hand" using board_follows_deck by blast
  moreover have "street sample_hand = Preflop" "dealt_ok sample_hand" using sample_ok by (simp_all add: sample_checks_def)
  moreover have "length (players sample_hand) = 2"
    using new_hand_Ok[OF sample_new] length_map[of seat_no "players sample_hand"]
    by (simp add: sample_seats_def sample_seat_def)
  ultimately show ?thesis by (simp add: dealt_ok_def)
qed

section \<open>Ranking hands and the button\<close>



text \<open>C13: the vector of five cards is what the rules of poker give them, with the rules stated on
  the set of cards alone: the first entry is the category (one suit, five consecutive faces with the
  wheel A-2-3-4-5 among them, and how often each face occurs), and the rest decides between hands of
  one category - the high card of a straight, otherwise the faces in order of frequency and then of
  height. The category determines the length.\<close>

theorem rank_five_category:
  assumes "length cards = 5" "distinct cards" "\<forall>c\<in>set cards. c < 52"
  shows "rank_five cards \<noteq> [] \<and> hd (rank_five cards) = category_spec cards \<and>
    tie_spec cards (tl (rank_five cards)) \<and> length (rank_five cards) = vec_length (category_spec cards)"
  using rank_five_hd_length[OF assms(1,2)] rank_five_tie[OF assms(1,2)] rank_five_head[OF assms(1)] assms(3)
  by (simp add: list_all_iff)

lemma rank_five_category_witness:
  "rank_five [0, 14, 28, 42, 4] = [4, 5] \<and> category_spec [0, 14, 28, 42, 4] = 4 \<and> runs_to [0, 14, 28, 42, 4] 5"
proof -
  have v: "rank_five [0, 14, 28, 42, 4] = [4, 5]" by code_simp
  have "runs_to [0, 14, 28, 42, 4] 5" by (auto simp: runs_to_def run_faces_def face_def)
  then show ?thesis using rank_five_category[of "[0, 14, 28, 42, 4]"] v by simp
qed

text \<open>Comparing rank vectors is a total preorder whose ties are equal vectors.\<close>

theorem compare_vec_order:
  assumes "rank_vec a" "rank_vec b" "rank_vec c"
  shows "compare_vec b a = - compare_vec a b \<and> (compare_vec a b = 0 \<longleftrightarrow> a = b) \<and>
    (compare_vec a b \<le> 0 \<and> compare_vec b c \<le> 0 \<longrightarrow> compare_vec a c \<le> 0)"
proof -
  have "compare_vec a b = 0 \<longleftrightarrow> a = b"
  proof (cases "hd a = hd b")
    case True
    then show ?thesis using rank_vec_same_hd[OF assms(1,2)] compare_vec_eq by blast
  next
    case False
    then have "compare_vec a b \<noteq> 0"
      using compare_vec_hd[of a b] assms by (auto simp: rank_vec_def)
    then show ?thesis using False by auto
  qed
  then show ?thesis using compare_vec_swap compare_vec_trans[OF assms] by blast
qed

lemma compare_vec_order_witness: "compare_vec [4, 9] [4, 9] = 0"
  using compare_vec_order[of "[4, 9]" "[4, 9]" "[4, 9]"] by (simp add: rank_vec_def vec_length_def)

text \<open>The first button is a seat of the table that the validation accepts, and the next button is
  the first seat clockwise from the old one.\<close>

theorem button_moves_clockwise:
  "(select_initial_button sts uniform = Ok c \<longrightarrow>
      validate_button_choice c (sort sts) = Ok () \<and> bc_seat c \<in> set sts) \<and>
   (next_button prev sts = Ok b \<longrightarrow> b \<in> set sts \<and> (\<forall>s\<in>set sts. clockwise prev b \<le> clockwise prev s))"
  using select_initial_button_valid next_button_first by blast

lemma button_moves_clockwise_witness:
  "\<exists>b. next_button 4 [7, 2, 4] = Ok b \<and> clockwise 4 b \<le> clockwise 4 7"
proof -
  have "next_button 4 [7, 2, 4] = Ok 7" by code_simp
  then show ?thesis using button_moves_clockwise[of "[7, 2, 4]" _ _ 4 7] by simp
qed

section \<open>Fair streams, draws and decks\<close>

text \<open>C16: reading the stream of a round yields the next bytes of the keystream, the concatenation of
  the HMACs of the round's message with the block indices 0, 1, 2 and so on.\<close>

theorem stream_reads_keystream:
  assumes "hmac_ok mac" "new_stream sha seed r domain = Ok s" "n \<le> stream_limit"
  shows "\<exists>s'. stream_read mac s n = (map (keystream mac seed (stream_prefix r domain)) [0..<n], None, s') \<and>
    stream_inv mac seed (stream_prefix r domain) s' \<and> stream_pos s' = n"
  using stream_read_keystream[OF assms(1) new_stream_inv(1)[OF assms(2)], of n] new_stream_inv(2)[OF assms(2)] assms(3)
  by (metis add_0)

lemma stream_reads_keystream_witness:
  "\<exists>s t. new_stream sample_sha sample_seed sample_round [65] = Ok s \<and>
     stream_read sample_mac s 40 = (map (keystream sample_mac sample_seed (stream_prefix sample_round [65])) [0..<40], None, t)"
proof -
  have "hmac_ok sample_mac" by (simp add: hmac_ok_def sample_mac_def)
  moreover have "40 \<le> stream_limit" by (simp add: stream_limit_def max_uint64_def)
  ultimately show ?thesis using sample_stream stream_reads_keystream by metis
qed

text \<open>C17: the message a block is hashed from tells apart exactly the inputs it carries: two messages are
  equal if and only if game, round id, nonce, client seed, algorithm version, domain and block index
  are. The configuration's version and hash, the commitment and the stream version are not part of it.\<close>

theorem stream_messages_injective:
  assumes "round_sizes r d" "round_sizes r' d'" "k \<le> max_uint64" "k' \<le> max_uint64"
  shows "canonical_stream_message r d k = canonical_stream_message r' d' k' \<longleftrightarrow>
    rd_game r = rd_game r' \<and> rd_id r = rd_id r' \<and> rd_nonce r = rd_nonce r' \<and>
    rd_client_seed r = rd_client_seed r' \<and> rd_algorithm_version r = rd_algorithm_version r' \<and> d = d' \<and> k = k'" (is "?l \<longleftrightarrow> ?r")
proof
  assume ?l
  then show ?r
    using assms(3,4) be_bytes_inject[of k 8 k'] stream_prefix_eq[OF assms(1,2), of "be_bytes 8 k" "be_bytes 8 k'"]
    by (simp add: canonical_stream_message_block max_uint64_def)
qed (simp add: canonical_stream_message_def)

lemma stream_messages_injective_witness:
  "canonical_stream_message sample_round [65] 0 \<noteq> canonical_stream_message sample_round [66] 0"
proof
  have "round_sizes sample_round [65]" "round_sizes sample_round [66]" by code_simp+
  moreover assume "canonical_stream_message sample_round [65] 0 = canonical_stream_message sample_round [66] 0"
  ultimately show False using stream_messages_injective[of sample_round "[65]" sample_round "[66]" 0 0] by simp
qed

text \<open>C18: the rejection sampler is unbiased: of the words a draw accepts, every value below the
  bound has the same number.\<close>

theorem uniform_int_unbiased:
  assumes "0 < n" "n \<le> 2 ^ 32" "r < n"
  shows "card {x. x < 2 ^ 32 \<and> uniform_int list_word [x] n = Ok (r, [])} = 2 ^ 32 div n"
proof -
  have "{x. x < 2 ^ 32 \<and> uniform_int list_word [x] n = Ok (r, [])} = {x. x < 2 ^ 32 div n * n \<and> x mod n = r}"
    using assms(1,2) order_less_le_trans[OF _ div_times_less_eq_dividend[of "2 ^ 32" n]]
    by (auto simp: uniform_int_one_word uniform_limit_eq split: if_splits)
  then show ?thesis by (simp add: card_residues[OF assms(3)])
qed

lemma uniform_int_unbiased_witness:
  "card {x. x < 2 ^ 32 \<and> uniform_int list_word [x] 6 = Ok (5, [])} = 715827882"
  using uniform_int_unbiased[of 6 5] by simp

text \<open>C19: a draw from a round's stream returns, with a value below the bound or the error that the
  stream is used up: the loop of rejections cannot run forever.\<close>

theorem uniform_int_returns:
  assumes "new_stream sha seed r domain = Ok s"
  shows "(\<exists>e. uniform_int (stream_word mac) s n = Fail e) \<or>
    (\<exists>v s'. uniform_int (stream_word mac) s n = Ok (v, s') \<and> v < n)"
proof -
  have "uniform_int (stream_word mac) s n \<noteq> Hang"
    by (rule stream.draw_returns[OF new_stream_inv(1)[OF assms]])
  then show ?thesis using uniform.draw_less[of "stream_word mac" s n]
    by (cases "uniform_int (stream_word mac) s n") auto
qed

lemma uniform_int_returns_witness:
  "\<exists>s. new_stream sample_sha sample_seed sample_round [65] = Ok s \<and> uniform_int (stream_word sample_mac) s 6 \<noteq> Hang"
  using sample_stream uniform_int_returns[of sample_sha sample_seed sample_round "[65]" _ sample_mac 6] by fastforce

text \<open>C20: every order of the cards is reached by exactly one sequence of draws of the shuffle, so
  uniform draws give a uniform order.\<close>

theorem shuffle_fair:
  assumes "distinct xs" "mset ys = mset xs" "xs \<noteq> []"
  shows "\<exists>!ds. roulette_shuffle list_draw ds xs = Ok (ys, [])"
proof -
  have l: "length ys = length xs" using assms(2) by (metis size_mset)
  show ?thesis unfolding roulette_shuffle_def
    by (rule fy_loop_unique_draws[OF assms(1) _ assms(2)]) (use assms(3) l in auto)
qed

lemma shuffle_fair_witness: "\<exists>!ds. roulette_shuffle list_draw ds [1, 2, 3::nat] = Ok ([3, 1, 2], [])"
  by (rule shuffle_fair) auto

text \<open>C21: the deck of a hand holds each of the 52 cards once, and neither the deck nor the seed
  hashed into it depends on the order in which the seats contributed.\<close>

theorem derived_deck_complete:
  assumes "derive sha mac t h cs seed = Ok p" "mset ds = mset cs"
  shows "length (pf_deck p) = 52 \<and> distinct (map unat (pf_deck p)) \<and> set (map unat (pf_deck p)) = {..<52} \<and>
    derive sha mac t h ds seed = Ok p"
proof -
  obtain e where e: "effective sha t h cs = Ok e" using assms(1) by (auto simp: derive_def res_simps split: if_splits)
  have "derive sha mac t h ds seed = derive sha mac t h cs seed"
    using effective_perm_Ok[OF assms(2)[symmetric] e] e by (simp add: derive_def)
  then show ?thesis using derive_deck_cards[OF assms(1)] assms(1) by simp
qed

lemma derived_deck_complete_witness:
  "\<exists>p. derive sample_sha sample_mac sample_uuid sample_uuid sample_contributions sample_seed = Ok p \<and>
     distinct (map unat (pf_deck p))"
  using sample_derive derived_deck_complete by blast


section \<open>Blackjack\<close>

text \<open>C22: in every round that can be reached the cards on the table are exactly the cards drawn from
  the shoe, in an order without repetition; the stakes add up to the round's stake, and the round is
  either on one active hand or settled, with the payouts of its hands adding up.\<close>

theorem blackjack_round_sound:
  assumes "length shoe = 312" "bj_reach sha shoe s"
  shows "(\<exists>n. shoe_index s = int n \<and> n \<le> 101 \<and>
      mset (map c_instance (dealer s @ concat (map h_cards (hands s)))) = mset (take n shoe)) \<and>
    distinct (map c_instance (dealer s @ concat (map h_cards (hands s)))) \<and>
    length (hands s) \<le> 4 \<and> distinct (map h_id (hands s)) \<and> total_stake s = sum_list (map h_stake (hands s)) \<and>
    (phase s = PlayerTurn \<longrightarrow> (\<exists>h\<in>set (hands s). h_status h = Active \<and> h_id h = active_hand s) \<and> \<not> dealer_revealed s) \<and>
    (phase s = BjSettled \<longrightarrow> (\<forall>h\<in>set (hands s). h_status h \<noteq> Active) \<and> dealer_revealed s \<and>
       total_payout s = sum_list (map h_payout (hands s)) \<and> net_change s = total_payout s - total_stake s)"
proof -
  have i: "bj_inv shoe s" using bj_reach_inv[OF assms] by blast
  obtain n where n: "shoe_index s = int n" "mset (map c_instance (dealer s @ concat (map h_cards (hands s)))) = mset (take n shoe)"
    "distinct (map c_instance (dealer s @ concat (map h_cards (hands s))))"
    using bj_inv_cards[OF i] by blast
  have "n \<le> 101" using shoe_room[OF i] n(1) by simp
  with n bj_inv_phase[OF i] i show ?thesis by (auto simp: bj_inv_def order_ok_def bj_money_def)
qed

lemma blackjack_round_sound_witness:
  "\<exists>s. bj_reach sample_sha sample_shoe s \<and> total_stake s = 5000000 \<and> length (hands s) \<le> 4"
proof -
  obtain h where s: "bj_reach sample_sha sample_shoe (sample_bj h)" using sample_bj_new bj_reach.start by blast
  with blackjack_round_sound[OF sample_shoe_length s] sample_bj_turn(4) show ?thesis by blast
qed

text \<open>C23: every reachable round is verified by its recovery: replaying its actions from the shoe gives
  the very state.\<close>

theorem blackjack_replays:
  assumes "length shoe = 312" "bj_reach sha shoe s"
  shows "verify_recovery sha s shoe = Ok () \<and>
    bindr (bj_new sha shoe (wager s) (initial_hand s) (created_at s)) (bj_replay shoe (actions s)) = Ok s"
  using bj_reach_verifies[OF assms] bj_reach_replay[OF assms] by blast

lemma blackjack_replays_witness:
  "\<exists>s. bj_reach sample_sha sample_shoe s \<and> verify_recovery sample_sha s sample_shoe = Ok ()"
proof -
  obtain h where "bj_reach sample_sha sample_shoe (sample_bj h)" using sample_bj_new bj_reach.start by blast
  with blackjack_replays[OF sample_shoe_length] show ?thesis by blast
qed

text \<open>C24: an action that the round offers, with a fresh id, the current version and the active hand, is
  accepted by the checked entry point, and the round it leaves is again a reachable one.\<close>

theorem blackjack_offers_accepted:
  assumes "length shoe = 312" "bj_reach sha shoe s" "a_type a \<in> set (bj_legal s av)" "av \<le> max_int64"
    "a_version a = bj_version s" "a_hand a = active_hand s" "a_id a \<noteq> ''''"
    "\<forall>r\<in>set (actions s). a_id (ar_action r) \<noteq> a_id a" "now \<noteq> 0" "last_action s \<le> now"
    "a_type a = Split \<longrightarrow> a_new_hand a \<noteq> '''' \<and> (\<forall>h\<in>set (hands s). h_id h \<noteq> a_new_hand a)"
  shows "\<exists>t x. bj_public_apply sha s shoe a av now = Ok (t, x) \<and> bj_reach sha shoe t \<and>
    x \<in> {0, wager s} \<and> x \<le> max 0 av \<and> total_stake t = total_stake s + x"
proof -
  have i: "bj_inv shoe s" using bj_reach_inv[OF assms(1,2)] by blast
  obtain t x where t: "bj_apply shoe a av now False s = Ok (t, x)"
    using legal_action_succeeds[OF i assms(3,5-10)] assms(11) by blast
  have "bj_public_apply sha s shoe a av now = Ok (t, x)"
    using t bj_reach_verifies[OF assms(1,2)] by (simp add: bj_public_apply_def)
  moreover have "bj_reach sha shoe t" using bj_reach.step[OF assms(2) t assms(4)] .
  ultimately show ?thesis using bj_apply_inv[OF i t] bj_apply_cost[OF t] by blast
qed

lemma blackjack_offers_accepted_witness:
  "\<exists>s t x. bj_reach sample_sha sample_shoe t \<and> bj_public_apply sample_sha s sample_shoe
     \<lparr>a_id = ''a1'', a_version = 1, a_hand = ''h1'', a_type = Double, a_new_hand = ''''\<rparr> 10000000 2 = Ok (t, x)"
proof -
  obtain h where "bj_reach sample_sha sample_shoe (sample_bj h)" using sample_bj_new bj_reach.start by blast
  from blackjack_offers_accepted[OF sample_shoe_length this, of
      "\<lparr>a_id = ''a1'', a_version = 1, a_hand = ''h1'', a_type = Double, a_new_hand = ''''\<rparr>" 10000000 2]
  show ?thesis by (simp add: sample_bj_legal sample_bj_turn) blast
qed

text \<open>C25: once the deadline of a round has passed, the clock settles it without charging anything: the
  automatic resolution returns, stands every active hand and pays the round out.\<close>

theorem blackjack_clock_settles:
  assumes "length shoe = 312" "bj_reach sha shoe s" "now \<noteq> 0" "last_action s \<le> now" "auto_resolve_at s \<le> now"
    "\<forall>h. \<exists>n. ids h = Ok n \<and> n \<noteq> ''''" "\<forall>h g. ids h = ids g \<longrightarrow> h = g"
    "\<forall>x\<in>set (actions s). \<forall>h\<in>set (hands s). ids (h_id h) \<noteq> Ok (a_id (ar_action x))"
  shows "\<exists>t. auto_resolve sha s shoe now ids = Ok (t, 0) \<and> phase t = BjSettled \<and> total_stake t = total_stake s \<and>
    0 \<le> total_payout t \<and> total_payout t \<le> 16 * wager t"
proof -
  have i: "bj_inv shoe s" using bj_reach_inv[OF assms(1,2)] by blast
  have n: "active_count (hands s) \<le> length (hands s)" by (simp add: active_count_def)
  obtain t where t: "auto_loop (length (hands s)) shoe now ids s = Ok t" "phase t = BjSettled"
    "total_stake t = total_stake s" "bj_inv shoe t"
    using auto_loop_settles[of ids now shoe s "length (hands s)"] assms(3-8) i n by (metis (no_types, lifting) image_iff list.set_map)
  then have "auto_resolve sha s shoe now ids = Ok (t, 0)"
    using bj_reach_verifies[OF assms(1,2)] assms(5) by (auto simp: auto_resolve_def elim: auto_loop.elims)
  with t payout_bound[OF t(4,2)] show ?thesis by blast
qed

lemma blackjack_clock_settles_witness:
  "\<exists>s t. auto_resolve sample_sha s sample_shoe (1 + day) (\<lambda>h. Ok (CHR ''a'' # h)) = Ok (t, 0) \<and> phase t = BjSettled"
proof -
  obtain h where "bj_reach sample_sha sample_shoe (sample_bj h)" using sample_bj_new bj_reach.start by blast
  from blackjack_clock_settles[OF sample_shoe_length this, of "1 + day" "\<lambda>h. Ok (CHR ''a'' # h)"]
  show ?thesis by (simp add: sample_bj_turn day_def) blast
qed

text \<open>C26: a settled round never pays more than sixteen times the wager, an amount that fits into an
  int64, and never stakes more than eight times the wager.\<close>

theorem blackjack_payout_bounded:
  assumes "length shoe = 312" "bj_reach sha shoe s" "phase s = BjSettled"
  shows "0 \<le> total_payout s \<and> total_payout s \<le> 16 * wager s \<and> 16 * wager s \<le> max_int64 \<and>
    total_stake s \<le> 8 * wager s \<and> net_change s = total_payout s - total_stake s"
proof -
  have i: "bj_inv shoe s" using bj_reach_inv[OF assms(1,2)] by blast
  then have "16 * wager s \<le> max_int64" by (simp add: bj_inv_def wager_ok_def)
  with payout_bound[OF i assms(3)] show ?thesis by blast
qed

lemma blackjack_payout_bounded_witness:
  "\<exists>s. bj_reach sample_sha sample_shoe s \<and> phase s = BjSettled \<and> total_payout s \<le> 16 * wager s"
proof -
  obtain h where r: "bj_reach sample_sha sample_shoe (sample_bj h)" using sample_bj_new bj_reach.start by blast
  then have i: "bj_inv sample_shoe (sample_bj h)" using bj_reach_inv[OF sample_shoe_length] by blast
  let ?a = "\<lparr>a_id = ''a1'', a_version = 1, a_hand = ''h1'', a_type = Stand, a_new_hand = ''''\<rparr>"
  obtain t x where t: "bj_apply sample_shoe ?a 10000000 2 False (sample_bj h) = Ok (t, x)"
    using legal_action_succeeds[OF i, of ?a 10000000 2] by (auto simp: sample_bj_legal sample_bj_turn)
  have reach: "bj_reach sample_sha sample_shoe t" using bj_reach.step[OF r t] by simp
  have "phase t = BjSettled" using sample_bj_stand t by simp
  with blackjack_payout_bounded[OF sample_shoe_length reach] reach show ?thesis by blast
qed

text \<open>C27: while the dealer's second card is face down, what a player is shown does not depend on it, on
  the shoe behind it or on the shoe's hash.\<close>

theorem blackjack_hole_card_hidden:
  assumes "length shoe = 312" "bj_reach sha shoe s" "phase s = PlayerTurn"
  shows "public_view (s\<lparr>dealt := d, hash_of_shoe := h, shoe_index := x, dealer := take 1 (dealer s) @ g\<rparr>) av =
    public_view s av \<and> length (pv_dealer (public_view s av)) = 1"
proof -
  have i: "bj_inv shoe s" using bj_reach_inv[OF assms(1,2)] by blast
  have up: "\<not> dealer_revealed s" "dealer s \<noteq> []" using i assms(3) by (auto simp: bj_inv_def turn_ok_def split: option.splits)
  have "same_seen s (s\<lparr>dealt := d, hash_of_shoe := h, shoe_index := x, dealer := take 1 (dealer s) @ g\<rparr>)"
    by (auto simp: same_seen_def)
  from public_view_hides_hole[OF this up] show ?thesis by blast
qed

lemma blackjack_hole_card_hidden_witness:
  "\<exists>s. phase s = PlayerTurn \<and> public_view (s\<lparr>dealt := [], hash_of_shoe := '''', shoe_index := 0,
     dealer := take 1 (dealer s) @ [\<lparr>c_shoe_index = 3, c_instance = 51\<rparr>]\<rparr>) 0 = public_view s 0"
proof -
  obtain h where "bj_reach sample_sha sample_shoe (sample_bj h)" using sample_bj_new bj_reach.start by blast
  from blackjack_hole_card_hidden[OF sample_shoe_length this sample_bj_turn(1)] sample_bj_turn(1) show ?thesis by blast
qed

section \<open>The slot machine\<close>

text \<open>C28: a spin whose wager was accepted fails only when its sampler does; otherwise it pays, without
  any overflow, one tenth of the wager times the multipliers of the ten lines, where a line pays its
  best reading on the reels that were drawn.\<close>

theorem slot_spin_pays:
  assumes "c \<in> slot_configs" "validate_wager w c = (Ok () :: ('e slot_error, unit) res)"
  shows "(\<forall>e. (spin w (Some f) s c :: ('e slot_error, _) res) = Fail e \<longrightarrow> e = SampleOutOfRange \<or> (\<exists>x. e = SampleFailed x)) \<and>
    (\<forall>r t. (spin w (Some f) s c :: ('e slot_error, _) res) = Ok (r, t) \<longrightarrow> stops_ok (sr_stops r) \<and>
      sr_grid r = grid_of c (sr_stops r) \<and> sr_wager r = w \<and>
      sr_payout r = w div 10 * (\<Sum>line\<leftarrow>paylines c. line_mult c (line_values (sr_grid r) line)) \<and>
      0 \<le> sr_payout r \<and> sr_payout r \<le> max_int64 \<and> sr_net r = sr_payout r - w)"
proof (intro conjI allI impI)
  fix r t assume sp: "(spin w (Some f) s c :: ('e slot_error, _) res) = Ok (r, t)"
  note ok = spin_resolves(1)[OF assms sp]
  then show "stops_ok (sr_stops r)" by blast
  from ok obtain "resolve w (sr_stops r) c = (Ok r :: ('e slot_error, _) res)" "stops_ok (sr_stops r)" by blast
  from resolve_returns[OF assms this(2)] this(1)
  have p: "sr_payout r = w div 10 * round_mult c (grid_of c (sr_stops r))" "sr_payout r \<le> max_int64"
    "sr_grid r = grid_of c (sr_stops r)" "sr_wager r = w" "sr_net r = sr_payout r - w"
    by (metis res.inject(1))+
  have w: "0 \<le> w div 10" using assms(2) by (auto simp: validate_wager_Ok units_per_chip_def pos_imp_zdiv_nonneg_iff)
  show "0 \<le> sr_payout r" unfolding p(1) using w round_mult_nonneg by (rule mult_nonneg_nonneg)
  show "sr_payout r = w div 10 * (\<Sum>line\<leftarrow>paylines c. line_mult c (line_values (sr_grid r) line))"
    using p(1,3) by (simp add: round_mult_def)
qed (use spin_resolves[OF assms] resolve_returns[OF assms] in \<open>metis res.inject(1)\<close>)+

lemma slot_spin_pays_witness:
  "\<exists>r. (spin 5000000 (Some (\<lambda>s d n. Ok (7, s))) () fair_config :: (unit slot_error, _) res) = Ok (r, ()) \<and> 0 \<le> sr_payout r"
proof -
  have c: "fair_config \<in> slot_configs" by (simp add: slot_configs_def)
  have w: "validate_wager 5000000 fair_config = (Ok () :: (unit slot_error, unit) res)"
    by (simp add: validate_wager_Ok units_per_chip_def limits)
  obtain r where r: "(spin 5000000 (Some (\<lambda>s d n. Ok (7, s))) () fair_config :: (unit slot_error, _) res) = Ok (r, ())"
    using sample_spin by blast
  with slot_spin_pays[OF c w, of "\<lambda>s d n. Ok (7, s)" "()"] have "0 \<le> sr_payout r" by blast
  with r show ?thesis by blast
qed

text \<open>C29: over all \<open>32 ^ 5\<close> stops of the reels, each counted once, the machine pays exactly
  \<open>32213366\<close>, \<open>33554432 = 32 ^ 5\<close> and \<open>38363186\<close> wagers under the three rulesets: the fair one returns
  everything on average, the frozen one 96.003 per cent and the frequent one 114.33 per cent.\<close>

theorem slot_return_exact:
  assumes "c \<in> slot_configs" "validate_wager w c = (Ok () :: (unit slot_error, unit) res)"
  shows "distinct all_stops \<and> length all_stops = 32 ^ 5 \<and> (\<forall>stops. stops \<in> set all_stops \<longleftrightarrow> stops_ok stops) \<and>
    (\<Sum>stops\<leftarrow>all_stops. paid_by c w stops) =
      w * (if c = frozen_config then 32213366 else if c = fair_config then 32 ^ 5 else 38363186)"
  using all_stops_count all_stops_ok slot_return[OF assms config_sum[OF assms(1)]] by simp

lemma slot_return_exact_witness: "(\<Sum>stops\<leftarrow>all_stops. paid_by fair_config 5000000 stops) = 5000000 * 32 ^ 5"
proof -
  have "validate_wager 5000000 fair_config = (Ok () :: (unit slot_error, unit) res)"
    by (simp add: validate_wager_Ok units_per_chip_def limits)
  moreover have "fair_config \<noteq> frozen_config" by (simp add: config_defs)
  ultimately show ?thesis using slot_return_exact[of fair_config 5000000] by (simp add: slot_configs_def)
qed

text \<open>The frequent ruleset never returns a part of the wager: a round loses it whole or pays back at
  least eleven tenths of it.\<close>

theorem frequent_slot_wins_whole:
  assumes "validate_wager w frequent_config = (Ok () :: ('e slot_error, unit) res)" "stops_ok stops"
    "resolve w stops frequent_config = (Ok r :: ('e slot_error, _) res)"
  shows "sr_payout r = 0 \<and> sr_class r = ''LOSS'' \<and> sr_detail r = ''NO_WIN'' \<or>
    11 * (w div 10) \<le> sr_payout r \<and> w < sr_payout r \<and> sr_class r = ''WIN''"
proof -
  have c: "frequent_config \<in> slot_configs" by (simp add: slot_configs_def)
  obtain p: "sr_payout r = w div 10 * round_mult frequent_config (grid_of frequent_config stops)"
    "sr_net r = sr_payout r - w" "(sr_class r, sr_detail r) = slot_class (sr_payout r) (sr_net r)"
    using resolve_returns[OF c assms(1,2)] assms(3) by (metis res.inject(1))
  have w: "0 < w div 10" "w = 10 * (w div 10)"
    using assms(1) by (auto simp: validate_wager_Ok units_per_chip_def)
  let ?m = "round_mult frequent_config (grid_of frequent_config stops)"
  consider "?m = 0" | "11 \<le> ?m" using frequent_round by blast
  then show ?thesis
  proof cases
    case 2
    then have "w div 10 * 11 \<le> w div 10 * ?m" using w(1) by (intro mult_left_mono) auto
    then have "11 * (w div 10) \<le> sr_payout r" by (simp add: p(1) mult.commute)
    moreover from this have "w < sr_payout r" using w by linarith
    ultimately show ?thesis using p(2,3) w(1) by (auto simp: slot_class_def)
  qed (use p in \<open>auto simp: slot_class_def\<close>)
qed

lemma frequent_slot_wins_whole_witness:
  "\<exists>r. (resolve 5000000 [0, 0, 0, 0, 0] frequent_config :: (unit slot_error, _) res) = Ok r \<and>
     (sr_payout r = 0 \<or> 5500000 \<le> sr_payout r)"
proof -
  have c: "frequent_config \<in> slot_configs" by (simp add: slot_configs_def)
  have w: "validate_wager 5000000 frequent_config = (Ok () :: (unit slot_error, unit) res)"
    by (simp add: validate_wager_Ok units_per_chip_def limits)
  have s: "stops_ok [0, 0, 0, 0, 0]" by (simp add: stops_ok_def)
  obtain r where r: "(resolve 5000000 [0, 0, 0, 0, 0] frequent_config :: (unit slot_error, _) res) = Ok r"
    using resolve_returns[OF c w s] by metis
  from frequent_slot_wins_whole[OF w s r] r show ?thesis by auto
qed

section \<open>The direct games\<close>

text \<open>C31: the statistics a scratch or summon configuration publishes are the exact shares of the 100000
  equally likely samples its own prize table sends to a loss, a returned wager and a win, and the
  return is the mean of the multipliers those samples pay.\<close>

theorem prize_statistics_exact:
  assumes "new_scratch_config sha ver table ps = Ok c \<or> new_summon_config sha ver table ps = Ok c"
    "statistics_of c = Ok st"
  shows "stat_rtp st = (\<Sum>n<100000. case prize_at c n of Ok p \<Rightarrow> of_int (pz_multiplier p) | _ \<Rightarrow> 0) / 100000 \<and>
    stat_loss st = of_nat (card {n. n < 100000 \<and> (\<exists>p. prize_at c n = Ok p \<and> pz_multiplier p = 0)}) / 100000 \<and>
    stat_even st = of_nat (card {n. n < 100000 \<and> (\<exists>p. prize_at c n = Ok p \<and> pz_multiplier p = 1)}) / 100000 \<and>
    stat_win st = of_nat (card {n. n < 100000 \<and> (\<exists>p. prize_at c n = Ok p \<and> pz_multiplier p \<noteq> 0 \<and> pz_multiplier p \<noteq> 1)}) / 100000 \<and>
    (\<forall>n<100000. \<exists>p\<in>set ps. prize_at c n = Ok p)"
proof -
  obtain frozen where f: "prize_table_ok frozen (gc_prizes c)" "gc_prizes c = ps" "bd_game (gc_binding c) \<noteq> ''dice''"
    using assms(1) by (auto simp: new_scratch_config_def new_summon_config_def dest!: new_prize_config_Ok)
  show ?thesis using statistics_exact[OF assms(2) f(1,3)] prize_at_returns[OF f(1)] unfolding f(2) by simp
qed

lemma prize_statistics_exact_witness:
  "\<exists>c st. scratch_v1 const_sha ''c1'' = Ok c \<and> statistics_of c = Ok st \<and>
     stat_rtp st = (\<Sum>n<100000. case prize_at c n of Ok p \<Rightarrow> of_int (pz_multiplier p) | _ \<Rightarrow> 0) / 100000"
proof -
  obtain c where c: "scratch_v1 const_sha ''c1'' = Ok c" using sample_scratch by blast
  obtain st where "statistics_of c = Ok st" using sample_scratch_statistics[OF c] by blast
  with prize_statistics_exact[of const_sha "''c1''" "''scratch-prize-v1''" scratch_prizes_v1 c] c show ?thesis
    by (auto simp: scratch_v1_def)
qed

text \<open>C32: the statistics of the dice are the counts over the 216 throws for either choice, and pushing
  the triples makes the second ruleset an exactly fair game.\<close>

theorem dice_statistics_exact:
  assumes "dice_config sha ver ruleset rule = Ok c" "statistics_of c = Ok st" "choice = Big \<or> choice = Small"
  shows "stat_loss st = of_nat (throws_where c choice (\<lambda>r. rw_outcome r = OutLoss)) / 216 \<and>
    stat_even st = of_nat (throws_where c choice (\<lambda>r. rw_outcome r = OutBreakEven)) / 216 \<and>
    stat_win st = of_nat (throws_where c choice (\<lambda>r. rw_outcome r = OutWin)) / 216 \<and>
    stat_rtp st = stat_even st + 2 * stat_win st \<and>
    stat_rtp st = (if ruleset = ''dice-rules-v2'' then 1 else 35 / 36)"
  using dice_statistics[OF assms] dice_statistics_eq(1)[OF assms(2) dice_config_Ok(2,1)[OF assms(1)]]
    dice_config_Ok(3)[OF assms(1)] by auto

lemma dice_statistics_exact_witness:
  "\<exists>c st. dice_v2 const_sha ''c1'' = Ok c \<and> statistics_of c = Ok st \<and> stat_rtp st = 1"
proof -
  obtain c where c: "dice_v2 const_sha ''c1'' = Ok c" using sample_dice by blast
  obtain st where "statistics_of c = Ok st" using sample_dice_statistics[OF c] by blast
  with dice_statistics_exact[of const_sha "''c1''" "''dice-rules-v2''" "''PUSH''" c _ Big] c show ?thesis
    by (auto simp: dice_v2_def)
qed

text \<open>C33: a scratch card shows its prize: a paying card has exactly three matching cells, with the symbol
  of the multiplier it pays and every other symbol at most once; a losing card shows no symbol three times.\<close>

theorem scratch_card_honest:
  assumes "new_scratch_config sha ver table ps = Ok c" "scratch_card sha mac seed r c = Ok res"
  shows "length (sk_cells res) = 9 \<and>
    (0 < rw_payout (sk_reward res) \<longrightarrow> length (filter sc_matching (sk_cells res)) = 3 \<and>
       (\<forall>x\<in>set (sk_cells res). sc_matching x \<longleftrightarrow> sc_symbol x = winning_symbol (rw_payout (sk_reward res))) \<and>
       (\<forall>x\<in>set (sk_cells res). \<not> sc_matching x \<longrightarrow> count_list (map sc_symbol (sk_cells res)) (sc_symbol x) = 1)) \<and>
    (rw_payout (sk_reward res) \<le> 0 \<longrightarrow> rw_payout (sk_reward res) = 0 \<and> (\<forall>x\<in>set (sk_cells res). \<not> sc_matching x \<and>
       count_list (map sc_symbol (sk_cells res)) (sc_symbol x) \<le> 2))"
proof -
  have "prize_table_ok scratch_prizes_v1 (gc_prizes c)"
    using assms(1) by (auto simp: new_scratch_config_def dest!: new_prize_config_Ok)
  from scratch_card_shows[OF assms(2) this] show ?thesis by simp
qed

lemma scratch_card_honest_witness:
  "\<exists>c res. scratch_card const_sha win_mac sample_seed (round_for c) c = Ok res \<and> length (sk_cells res) = 9"
proof -
  obtain c where c: "scratch_v1 const_sha ''c1'' = Ok c"
    "is_ok (scratch_card const_sha win_mac sample_seed (round_for c) c)" by (rule sample_card)
  from scratch_card_honest[OF c(1)[unfolded scratch_v1_def] is_ok_the[OF c(2)]] is_ok_the[OF c(2)] show ?thesis by blast
qed

text \<open>A summon draws once or ten times, each draw from its own stream; the reward is the sum of the
  draws against a cost of one wager each, at most a thousand, and the highest tier is that of the best draw.\<close>

theorem summon_totals:
  assumes "new_summon_config sha ver table ps = Ok c" "summon sha mac seed r c mode = Ok res"
  shows "length (sm_draws res) = (if mode = Single then 1 else 10) \<and>
    rw_cost (sm_reward res) = int (length (sm_draws res)) \<and>
    rw_payout (sm_reward res) = sum_list (map dw_multiplier (sm_draws res)) \<and>
    0 \<le> rw_payout (sm_reward res) \<and> rw_payout (sm_reward res) \<le> 1000 \<and>
    (\<forall>k<length (sm_draws res). summon_draw sha mac seed r c (int k + 1) = Ok (sm_draws res ! k)) \<and>
    sm_highest res = tier_of (foldl max 0 (map dw_multiplier (sm_draws res)))"
proof -
  have "prize_table_ok summon_prizes_v1 (gc_prizes c)"
    using assms(1) by (auto simp: new_summon_config_def dest!: new_prize_config_Ok)
  from summon_adds_up[OF assms(2) this] show ?thesis by blast
qed

lemma summon_totals_witness:
  "\<exists>c res. summon const_sha win_mac sample_seed (round_for c) c Single = Ok res \<and> length (sm_draws res) = 1"
proof -
  obtain c where c: "summon_v1 const_sha ''c1'' = Ok c"
    "is_ok (summon const_sha win_mac sample_seed (round_for c) c Single)" by (rule sample_summons)
  from summon_totals[OF c(1)[unfolded summon_v1_def] is_ok_the[OF c(2)]] is_ok_the[OF c(2)] show ?thesis by auto
qed


section \<open>The roulette games\<close>

text \<open>C35: in every reachable duel lives stay between zero and four, hands within the limits of the items,
  what a seat knows about the magazine is true, and either the duel runs on a loaded magazine with both
  seats alive or it has ended with its survivors, both or the one the other lost to.\<close>

theorem devil_duel_sound:
  assumes "devil_reach (random_int word) s"
  shows "(\<forall>h\<in>set (dv_hp s). 0 \<le> h \<and> h \<le> 4) \<and>
    (\<forall>held\<in>set (dv_items s). length held \<le> 4 \<and> (\<forall>i. count_list held i \<le> item_max i)) \<and>
    (\<forall>k\<in>set (dv_known s). \<forall>i v. k i = Some v \<longrightarrow> dv_pointer s \<le> i \<and> i < length (dv_shells s) \<and> dv_shells s ! i = v) \<and>
    (\<not> dv_ended s \<longrightarrow> dv_pointer s < length (dv_shells s) \<and> \<not> devil_out s 0 \<and> \<not> devil_out s 1) \<and>
    (dv_ended s \<longrightarrow> dv_eligible s = [0, 1] \<or> (\<exists>w\<in>{0, 1}. dv_eligible s = [w] \<and> \<not> devil_out s w \<and> devil_out s (1 - w)))"
  using roulette.devil_reach_inv[OF assms]
  by (auto simp: devil_inv_defs hand_limits_def truthful_def devil_running_def devil_over_def)

lemma devil_duel_sound_witness:
  "\<exists>s. devil_reach (random_int list_word) s \<and> dv_pointer s < length (dv_shells s)"
proof -
  obtain s where "devil_reach (random_int list_word) s" "\<not> dv_ended s" by (rule sample_devil)
  with devil_duel_sound[OF this(1)] show ?thesis by blast
qed

text \<open>C36: a reachable duel never turns away an action it offers, a timeout of the seat to move or the end
  of its time, and never runs into a panic: such a step fails only with an error the source of random
  words itself reported. In particular no rule asks for a draw below 0 or out of range, which would
  fail whatever the source.\<close>

theorem devil_offers_accepted:
  assumes "devil_reach (random_int word) s" "\<not> dv_ended s" "apply_devil (random_int word) s seat a r = Fail e"
    "a \<in> set (devil_actions s seat) \<or> a = plain Timeout \<and> seat = int (dv_turn s) \<or> a = plain GameLimit \<and> seat \<in> {0, 1}"
  shows "\<exists>g r'. e = Random g \<and> word r' = Fail g"
proof -
  have i: "devil_inv s" by (rule roulette.devil_reach_inv[OF assms(1)])
  then have t: "dv_turn s \<le> 1" by (simp add: devil_inv_defs)
  have v: "valid_action a True \<and> 0 \<le> seat \<and> seat \<le> 1"
    using assms(4) devil_offered_valid[of a s seat] action_kinds[of a s seat] t
    by (auto simp: valid_action_def plain_def bare_action_def)
  have "ra_kind a = GameLimit \<or> step_action a \<in> set (devil_actions s seat)"
    using assms(2,4) devil_clock_offered[OF t assms(2)] devil_offered_valid[of a s seat]
    by (auto simp: step_action_def plain_def)
  with roulette.apply_devil_fail[OF i assms(3)] v assms(2) show ?thesis by blast
qed

lemma devil_offers_accepted_witness:
  "\<exists>s e. devil_reach (random_int list_word) s \<and> apply_devil (random_int list_word) s (int (dv_turn s)) (plain Timeout) [] \<noteq> Fail ActionInvalid"
proof -
  obtain s where "devil_reach (random_int list_word) s" "\<not> dv_ended s" by (rule sample_devil)
  with devil_offers_accepted[OF this, of "int (dv_turn s)" "plain Timeout" "[]" ActionInvalid] show ?thesis by auto
qed

text \<open>C37: at every reachable pressure table the counters agree with the chambers, every loaded chamber is
  still hidden, the gun is empty exactly while the table votes, and a finished table names its survivors.\<close>

theorem pressure_table_sound:
  assumes "pressure_reach (random_int word) s"
  shows "if pr_ended s then pr_eligible s = pr_alive s \<and> pr_alive s \<noteq> [] \<and> distinct (pr_alive s)
    else pr_bullets s = int (loaded (pr_chambers s)) \<and> pr_gun_duds s = int (count_duds (pr_chambers s)) \<and>
      (\<forall>i<6. pr_chambers s ! i \<noteq> EmptyChamber \<longrightarrow> pr_revealed s ! i = Unknown) \<and>
      (pr_phase s = Vote \<longleftrightarrow> pr_bullets s = 0) \<and> pr_turn s \<in> set (pr_alive s) \<and> 2 \<le> length (pr_alive s)"
  using pressure_gun pressure_survivors roulette.pressure_reach_inv[OF assms] by simp

lemma pressure_table_sound_witness:
  "\<exists>s. pressure_reach (random_int list_word) s \<and> pr_bullets s = int (loaded (pr_chambers s))"
proof -
  obtain s where s: "pressure_reach (random_int list_word) s" "\<not> pr_ended s" by (rule sample_pressure)
  from pressure_table_sound[OF s(1)] s show ?thesis by auto
qed

text \<open>C38: a reachable pressure table never turns away an action it offers or a timeout of the seat to move,
  and never runs into a panic: such a step fails only with an error the source of random words itself
  reported, never because a rule asks for a draw below 0 or out of range.\<close>

theorem pressure_offers_accepted:
  assumes "pressure_reach (random_int word) s" "\<not> pr_ended s"
    "a \<in> set (pressure_actions s seat) \<or> a = plain Timeout \<and> seat = pr_turn s"
    "apply_pressure (random_int word) s (int seat) a r = Fail e"
  shows "\<exists>g r'. e = Random g \<and> word r' = Fail g"
proof -
  note i = roulette.pressure_reach_inv[OF assms(1)]
  from assms(3) show ?thesis
  proof
    assume "a \<in> set (pressure_actions s seat)"
    then show ?thesis using roulette.apply_pressure_offered[OF i assms(4)] by simp
  next
    assume "a = plain Timeout \<and> seat = pr_turn s"
    then show ?thesis using roulette.apply_pressure_clock[OF i assms(2)] assms(4) by simp
  qed
qed

lemma pressure_offers_accepted_witness:
  "\<exists>s. pressure_reach (random_int list_word) s \<and> apply_pressure (random_int list_word) s (int (pr_turn s)) (plain Timeout) [] \<noteq> Fail IndexPanic"
proof -
  obtain s where s: "pressure_reach (random_int list_word) s" "\<not> pr_ended s" by (rule sample_pressure)
  with pressure_offers_accepted[OF s, of "plain Timeout" "pr_turn s" "[]" IndexPanic] show ?thesis by auto
qed


section \<open>The wallet ledger and its rewards\<close>

text \<open>C14: In every run of the ledger and its rewards - accounts, mutations, exchanges and daily, hourly and
  relief claims, accepted or rejected, in any order, with changes of policies, maintenance, the clock and
  the chips in games between them - the tables stay in order and the histories only grow: every wallet is the sum of its entries,
  numbered without gaps, never negative and within 64 bits; identities are unique and linked; a
  user has at most 24 hourly claims a day, in different hours, and reliefs are four hours apart.\<close>

theorem ledger_run_books:
  assumes "ledger_run sha um s s'" "ledger_ok s"
  shows "ledger_ok s' \<and> later_tables s s' \<and>
    (\<forall>u a. balance_of s' u a = sum_list (map le_delta (wallet_ledger s' u a)) \<and> 0 \<le> balance_of s' u a \<and> balance_of s' u a \<le> max_int64)"
  using ledger_run_ok[OF assms] account_balance by blast

lemma ledger_run_books_witness:
  "ledger_ok topped_up \<and> balance_of topped_up 7 AvailableChips = 900 \<and>
     sum_list (map le_delta (wallet_ledger topped_up 7 AvailableChips)) = 900"
  using ledger_run_books[OF topped_up_run sample_books] topped_up_chips by (metis (no_types))

text \<open>C15: An accepted mutation moves exactly its amount on exactly its wallet, once: after any further run
  of the ledger the same request returns the same entry and changes nothing, unless a reward has
  claimed its key.\<close>

theorem mutation_applied_once:
  assumes "apply_mutation sha m s = (s1, Ok e)" "ledger_ok s" "ledger_run sha um s1 s2"
    "reserved_key s2 (mu_user m) (sha (mu_key m)) = None"
  shows "apply_mutation sha m s2 = (s2, Ok e) \<and> e \<in> set (ledger s1) \<and>
    (\<forall>u a. balance_of s1 u a = balance_of s u a +
       (if (u, a) = (mu_user m, mu_asset m) \<and> e \<notin> set (ledger s) then mu_delta m else 0))"
proof -
  have b: "books s" using assms(2) by (simp add: ledger_ok_def treasury_def)
  from assms(1) have run: "apply_in_tx sha m s = Ok (s1, e)" and v: "valid_mutation m"
    by (auto simp: apply_mutation_def commit_tx_def split: if_splits res.splits)
  have "ledger_ok s1" by (rule tables_step_ok[OF apply_in_tx_books[OF run b] apply_in_tx_later[OF run b]
      apply_in_tx_more[OF run b] assms(2), THEN conjunct1])
  from ledger_run_ok[OF assms(3) this] have "later_tables s1 s2" by simp
  from apply_in_tx_replay[OF run b this assms(4)] v have "apply_mutation sha m s2 = (s2, Ok e)"
    by (simp add: apply_mutation_def commit_tx_def)
  moreover have "e \<in> set (ledger s1) \<and> (\<forall>u a. balance_of s1 u a = balance_of s u a +
       (if (u, a) = (mu_user m, mu_asset m) \<and> e \<notin> set (ledger s) then mu_delta m else 0))"
    using apply_in_tx_effect[OF run b]
  proof (elim disjE exE conjE)
    fix w assume w: "wallets s (mu_user m, mu_asset m) = Some w" "ledger s1 = ledger s @ [e]"
      "wallets s1 = (wallets s)((mu_user m, mu_asset m) \<mapsto>
         \<lparr>wr_balance = wr_balance w + mu_delta m, wr_seq = wr_seq w + 1, wr_version = wr_version w + 1\<rparr>)"
    have "books s1" by (rule apply_in_tx_books[OF run b])
    then have "distinct (map le_id (ledger s @ [e]))" by (simp add: books_def linked_def w(2))
    then have "e \<notin> set (ledger s)" by auto
    then show ?thesis by (auto simp: w balance_of_def)
  qed (auto simp: balance_of_def)
  ultimately show ?thesis by simp
qed

lemma mutation_applied_once_witness:
  "apply_mutation sample_sha sample_mutation topped_up = (topped_up, Ok sample_entry) \<and>
     balance_of topped_up 7 AvailableChips = balance_of sample_tables 7 AvailableChips + 900"
proof -
  have a: "apply_mutation sample_sha sample_mutation sample_tables = (topped_up, Ok sample_entry)"
    by (simp add: apply_mutation_def commit_tx_def sample_applied sample_key_ok)
  have "reserved_key topped_up (mu_user sample_mutation) (sample_sha (mu_key sample_mutation)) = None"
    by (simp add: reserved_key_def topped_up_def sample_tables_def)
  from mutation_applied_once[OF a sample_books ledger_run.start this] show ?thesis
    by (simp add: sample_mutation_def) (simp add: sample_tables_def)
qed

text \<open>C30: An exchange takes the amount from one wallet and adds it to the other wallet of the same user and
  touches nothing else, or returns the receipt already on record, or fails and leaves the tables
  as they were; a repeated request after any further run returns the same receipt and moves nothing.\<close>

theorem exchange_conserves:
  assumes "exchange sha u key from amount s = (s1, x)" "ledger_ok s"
  shows "case x of
      Ok r \<Rightarrow> rt_from r = from \<and> rt_amount_units r = amount \<and>
        (find_operation sha s u ExchangeKind key = Ok (Some r) \<and> s1 = s \<or>
         find_operation sha s u ExchangeKind key = Ok None \<and>
         amount \<le> balance_of s u from \<and>
         (\<forall>v b. balance_of s1 v b = balance_of s v b +
            (if (v, b) = (u, from) then - amount else if (v, b) = (u, other_asset from) then amount else 0)) \<and>
         (\<forall>s2. ledger_run sha um s1 s2 \<and> find_api_exchange sha s2 u key = None \<longrightarrow>
            exchange sha u key from amount s2 = (s2, Ok r)))
    | _ \<Rightarrow> s1 = s"
proof (cases x)
  case (Ok r)
  have b: "books s" using assms(2) by (simp add: ledger_ok_def treasury_def)
  from Ok assms(1) have run: "exchange_in_tx sha u key from amount s = Ok (s1, r)"
    by (auto simp: exchange_def commit_tx_def split: res.splits)
  from run show ?thesis
  proof (cases rule: exchange_in_tx_cases)
    case posted
    have ne: "from \<noteq> other_asset from" by (simp add: other_asset_def)
    have b1: "books s1" by (rule exchange_in_tx_books[OF run b])
    have ok1: "ledger_ok s1" by (rule tables_step_ok[OF b1 exchange_in_tx_later[OF run b] exchange_in_tx_more[OF run b] assms(2), THEN conjunct1])
    have found: "find_operation sha s2 u ExchangeKind key = Ok (Some r) \<and> rt_from r = from \<and> rt_amount_units r = amount"
      if "later_tables s1 s2" "find_api_exchange sha s2 u key = None" for s2
      by (rule exchange_found[OF posted(5) b ne posted(2) that b1])
    have again: "exchange sha u key from amount s2 = (s2, Ok r)"
      if "ledger_run sha um s1 s2" "find_api_exchange sha s2 u key = None" for s2
    proof -
      have "later_tables s1 s2" using ledger_run_ok[OF that(1) ok1] by simp
      note f = found[OF this that(2)]
      have "valid_operation_key key" using run by (auto simp: exchange_in_tx_def split: if_splits)
      then show ?thesis using f posted(1-3) by (simp add: exchange_def exchange_in_tx_def commit_tx_def)
    qed
    have "amount \<le> balance_of s u from" using post_exchange_Ok[OF posted(5) b ne posted(2)] by (auto simp: balance_of_def)
    moreover have "balance_of s1 v c = balance_of s v c +
            (if (v, c) = (u, from) then - amount else if (v, c) = (u, other_asset from) then amount else 0)" for v c
      using post_exchange_effect(1,2)[OF posted(5) b ne posted(2)] post_exchange_effect(3)[OF posted(5) b ne posted(2), of v c] ne by auto
    moreover have "find_api_exchange sha s1 u key = None"
      using posted(4) post_exchange_Ok[OF posted(5) b ne posted(2)]
      by (auto simp: find_operation_def find_api_exchange_def posts_def split: option.splits)
    with found[OF later_refl] have "rt_from r = from \<and> rt_amount_units r = amount" by simp
    ultimately show ?thesis using Ok posted(4) again by simp
  qed (use Ok in simp)
qed (use assms(1) in \<open>auto simp: exchange_def commit_tx_def split: res.splits\<close>)

lemma exchange_conserves_witness:
  "\<exists>s r. exchange sample_sha 7 sample_key AvailableChips 300 topped_up = (s, Ok r) \<and>
     balance_of s 7 AvailableChips = 600 \<and> balance_of s 7 ReserveApiCredit = 300"
proof -
  obtain s r where x: "exchange_in_tx sample_sha 7 sample_key AvailableChips 300 topped_up = Ok (s, r)" using sample_exchange by blast
  then have e: "exchange sample_sha 7 sample_key AvailableChips 300 topped_up = (s, Ok r)" by (simp add: exchange_def commit_tx_def)
  have n: "find_operation sample_sha topped_up 7 ExchangeKind sample_key = Ok None" by (rule sample_exchange_new)
  from exchange_conserves[OF e topped_up_ok] n topped_up_chips e show ?thesis by (auto simp: other_asset_def)
qed

text \<open>C34: The daily reward is paid once: a first claim adds at most the daily amount to the reserve of its
  user and moves nothing else, and after any further run another claim on the same day in Shanghai,
  with whatever key, moves nothing.\<close>

theorem daily_once:
  assumes "claim_daily sha um u key s = Ok (s1, r)" "find_operation sha s u DailyKind key = Ok None"
    "clock s = now # rest" "ledger_ok s" "sorted (clock s)"
    "ledger_run sha um s1 s2" "claim_daily sha um u key2 s2 = Ok (s3, r2)" "clock s2 = now2 # rest2" "local_day now2 = local_day now"
  shows "balance_of s u ReserveApiCredit \<le> balance_of s1 u ReserveApiCredit \<and>
    balance_of s1 u ReserveApiCredit \<le> balance_of s u ReserveApiCredit + daily_amount \<and>
    (\<forall>v b. (v, b) \<noteq> (u, ReserveApiCredit) \<longrightarrow> balance_of s1 v b = balance_of s v b) \<and>
    (\<forall>v b. balance_of s3 v b = balance_of s2 v b) \<and> ledger s3 = ledger s2"
proof -
  have t: "treasury s" using assms(4) by (simp add: ledger_ok_def)
  have "s1 = perform_operation sha um (DoDaily u key) s" using assms(1) by (simp add: commit_tx_def)
  with perform_operation_ok[OF assms(4,5), of sha um "DoDaily u key"] have ok1: "ledger_ok s1" by (simp del: perform_operation.simps)
  from ledger_run_ok[OF assms(6) this] have ok2: "treasury s2" and later: "later_tables s1 s2" by (simp_all add: ledger_ok_def)
  from claim_daily_known[OF assms(1) t assms(2,3)] later_finds(2)[OF later]
  have "find_transaction s2 (ascii ''DAILY_REWARD_V1'') (ascii ''daily:'' @ int_text u @ [58] @ ascii (date_text (local_day now2))) \<noteq> None"
    unfolding assms(9) by blast
  from claim_daily_again[OF assms(7) ok2 assms(8) this] have "wallets s3 = wallets s2" "ledger s3 = ledger s2"
    by (simp_all add: moves_nothing_def)
  moreover from claim_daily_step[OF assms(1) t]
  have "balance_of s u ReserveApiCredit \<le> balance_of s1 u ReserveApiCredit \<and>
    balance_of s1 u ReserveApiCredit \<le> balance_of s u ReserveApiCredit + daily_amount \<and>
    (\<forall>v b. (v, b) \<noteq> (u, ReserveApiCredit) \<longrightarrow> balance_of s1 v b = balance_of s v b)"
    using reward_amounts_pos(1) by (auto simp: rewards_step_def moves_nothing_def pays_once_def balance_of_def intro: less_imp_le)
  ultimately show ?thesis by (simp add: balance_of_def)
qed

lemma daily_once_witness:
  "\<exists>s r. claim_daily prefix_sha no_json 7 second_key after_daily = Ok (s, r) \<and>
     balance_of after_daily 7 ReserveApiCredit = daily_amount \<and> ledger s = ledger after_daily"
proof -
  obtain r where a: "claim_daily prefix_sha no_json 7 sample_key sample_tables = Ok (after_daily, r)" using sample_daily by blast
  obtain s r2 where b: "claim_daily prefix_sha no_json 7 second_key after_daily = Ok (s, r2)" using sample_daily_again by blast
  have n: "find_operation prefix_sha sample_tables 7 DailyKind sample_key = Ok None"
    by (simp add: find_operation_def operation_tx_def find_idem_def reserved_key_def sample_tables_def operation_scope_def)
  have c: "clock sample_tables = 1700000000000000000 # [1700000001000000000]" "clock after_daily = 1700000001000000000 # []"
    by (simp_all add: sample_tables_def after_daily_def)
  have d: "local_day 1700000001000000000 = local_day 1700000000000000000" by code_simp
  from daily_once[OF a n c(1) sample_books sample_sorted ledger_run.start b c(2) d] b
  show ?thesis by (auto simp: after_daily_def balance_of_def)
qed

text \<open>C39: An amount is read exactly: the text denotes a decimal with at most six fractional digits, and the
  result is its value in half millionths, positive and within 64 bits; every other text is rejected.
  Every positive amount is read back from the text it is printed as.\<close>

theorem amount_roundtrip:
  "(parse_amount s = Ok u \<longleftrightarrow> 0 < u \<and> u \<le> max_int64 \<and>
      (\<exists>w f. decimal_shape s w f \<and> 2 * u * 10 ^ length f = int (dec_val (w @ f)) * 10 ^ 6)) \<and>
   (0 < u \<and> u \<le> max_int64 \<longrightarrow> parse_amount (format_amount u) = Ok u)"
  using parse_amount_iff parse_format by blast

lemma amount_roundtrip_witness:
  "format_amount 750001 = ''1.500002'' \<and> parse_amount ''1.500002'' = Ok 750001 \<and> parse_amount (format_amount max_int64) = Ok max_int64"
proof -
  have "format_amount 750001 = ''1.500002''" by code_simp
  with amount_roundtrip[of _ 750001] amount_roundtrip[of _ max_int64] show ?thesis by auto
qed

text \<open>C40: The cap clips profit and nothing else: for every request it accepts and all 64-bit operands, the
  credited part is the largest multiple of the quantum between the returned principal and the gross
  payout that keeps the player's assets within the cap, and what is withheld is the rest of the payout.\<close>

theorem cap_payout_exact:
  assumes "0 \<le> stake" "stake \<le> tot" "tot \<le> max_int64" "0 \<le> gross" "gross \<le> max_int64" "0 < q" "q dvd stake" "q dvd gross"
    "0 < ep_cap p" "ep_cap p \<le> max_int64" "ep_version p \<noteq> []"
  shows "\<exists>c. cap_payout p tot stake gross q = Ok c \<and> cs_credited c + cs_withheld c = gross \<and> 0 \<le> cs_withheld c \<and>
    min stake gross \<le> cs_credited c \<and> q dvd cs_credited c \<and> cs_net c = cs_credited c - stake \<and>
    cs_total_after c = tot - stake + cs_credited c \<and> cs_total_after c \<le> max_int64 \<and>
    cs_total_after c \<le> max (tot - stake + min stake gross) (ep_cap p) \<and>
    (\<forall>y. q dvd y \<and> min stake gross \<le> y \<and> y \<le> gross \<and> tot - stake + y \<le> max (tot - stake + min stake gross) (ep_cap p) \<longrightarrow>
      y \<le> cs_credited c)"
proof -
  from cap_payout_returns[OF assms(1,2,4,6,7,8,9,11,3,5,10)] obtain c where c: "cap_payout p tot stake gross q = Ok c" ..
  note spec = cap_payout_spec[OF c]
  have "y \<le> cs_credited c" if "q dvd y" "min stake gross \<le> y" "y \<le> gross"
      "tot - stake + y \<le> max (tot - stake + min stake gross) (ep_cap p)" for y
  proof (rule spec(11)[OF that(1-3)])
    show "y \<le> min stake gross + cap_room p (tot - stake + min stake gross)" using that(4) unfolding cap_room_def by linarith
  qed
  with c spec show ?thesis by auto
qed

lemma cap_payout_exact_witness:
  "\<exists>c. cap_payout (no_policy\<lparr>ep_version := economic_policy_version, ep_cap := asset_cap_units\<rparr>)
       (asset_cap_units - 5) 10 40 10 = Ok c \<and> cs_credited c = 10 \<and> cs_withheld c = 30"
proof -
  let ?p = "no_policy\<lparr>ep_version := economic_policy_version, ep_cap := asset_cap_units\<rparr>"
  from cap_payout_exact[of 10 "asset_cap_units - 5" 40 10 ?p] obtain c where
    "cap_payout ?p (asset_cap_units - 5) 10 40 10 = Ok c" "min 10 40 \<le> cs_credited c" "10 dvd cs_credited c"
    "cs_credited c + cs_withheld c = 40" "cs_total_after c = asset_cap_units - 5 - 10 + cs_credited c"
    "cs_total_after c \<le> max (asset_cap_units - 5 - 10 + min 10 40) asset_cap_units"
    by (auto simp: asset_cap_units_def economic_policy_version_def ascii_def)
  moreover from this have "cs_credited c = 10" by presburger
  ultimately show ?thesis by auto
qed

end
